(* ===== verification/Js_Prelude.thy ===== *)
theory Js_Prelude
  imports Main "HOL-Library.AList" "HOL-Library.Sublist"
begin

text \<open>
  What every component of the development shares: JavaScript's insertion-ordered \<open>Map\<close> and
  \<open>Set\<close>, strings with \<open>trim\<close>, decimal rendering of numbers, results that may throw, and the
  contract of a transition system whose operations keep an invariant.

  A JavaScript \<open>Map\<close> is an association list without repeated keys, in insertion order: \<open>set\<close>
  replaces a value in place or appends the pair, \<open>delete\<close> removes the pair. A \<open>Set\<close> is a list
  without repetitions. Strings are lists of 8-bit characters read as the code points 0 to 255.
\<close>

named_theorems js_map_laws "what a Map operation does to lookups, keys and distinctness"
named_theorems inv_intros "invariants kept by the operations of a component"

section \<open>Results that may throw\<close>

text \<open>\<open>Inl e\<close> is a thrown error, \<open>Inr x\<close> a normal return.\<close>

definition bindE :: "'e + 'a \<Rightarrow> ('a \<Rightarrow> 'e + 'b) \<Rightarrow> 'e + 'b" where
  "bindE r f = (case r of Inl e \<Rightarrow> Inl e | Inr x \<Rightarrow> f x)"

lemma bindE_simps [simp]:
  "bindE (Inl e) f = Inl e"
  "bindE (Inr x) f = f x"
  by (simp_all add: bindE_def)

lemma bindE_Inr_iff: "bindE r f = Inr y \<longleftrightarrow> (\<exists>x. r = Inr x \<and> f x = Inr y)"
  by (cases r) auto

lemma bindE_InrE:
  assumes "bindE r f = Inr y"
  obtains x where "r = Inr x" "f x = Inr y"
  using assms by (auto simp: bindE_Inr_iff)

text \<open>\<open>guardE b e\<close> throws \<open>e\<close> unless \<open>b\<close> holds: the source's \<open>if (!b) throw e\<close>.\<close>

definition guardE :: "bool \<Rightarrow> 'e \<Rightarrow> 'e + unit" where
  "guardE b e = (if b then Inr () else Inl e)"

lemma guardE_Inr_iff [simp]: "guardE b e = Inr u \<longleftrightarrow> b"
  by (simp add: guardE_def)

lemma guardE_Inl_iff [simp]: "guardE b e = Inl e' \<longleftrightarrow> \<not> b \<and> e' = e"
  by (auto simp: guardE_def)

text \<open>\<open>mapE\<close> is a \<open>map\<close> whose callback may throw, \<open>foldE\<close> a loop whose body may throw.\<close>

fun mapE :: "('a \<Rightarrow> 'e + 'b) \<Rightarrow> 'a list \<Rightarrow> 'e + 'b list" where
  "mapE f [] = Inr []"
| "mapE f (x # xs) = bindE (f x) (\<lambda>y. bindE (mapE f xs) (\<lambda>ys. Inr (y # ys)))"

fun foldE :: "('s \<Rightarrow> 'a \<Rightarrow> 'e + 's) \<Rightarrow> 's \<Rightarrow> 'a list \<Rightarrow> 'e + 's" where
  "foldE f s [] = Inr s"
| "foldE f s (x # xs) = bindE (f s x) (\<lambda>s'. foldE f s' xs)"

lemma mapE_Inr_length: "mapE f xs = Inr ys \<Longrightarrow> length ys = length xs"
  by (induction xs arbitrary: ys) (auto simp: bindE_Inr_iff)

lemma mapE_Inr_all:
  "mapE f xs = Inr ys \<Longrightarrow> list_all2 (\<lambda>x y. f x = Inr y) xs ys"
  by (induction xs arbitrary: ys) (auto simp: bindE_Inr_iff)

lemma mapE_Inr_all_iff:
  "mapE f xs = Inr ys \<longleftrightarrow> list_all2 (\<lambda>x y. f x = Inr y) xs ys"
proof
  show "list_all2 (\<lambda>x y. f x = Inr y) xs ys \<Longrightarrow> mapE f xs = Inr ys"
    by (induction xs ys rule: list_all2_induct) auto
qed (rule mapE_Inr_all)

lemma mapE_cong [fundef_cong]:
  "xs = ys \<Longrightarrow> (\<And>x. x \<in> set ys \<Longrightarrow> f x = g x) \<Longrightarrow> mapE f xs = mapE g ys"
proof (induction ys arbitrary: xs)
  case (Cons y ys)
  then have "f y = g y" "mapE f ys = mapE g ys" by auto
  with Cons.prems(1) show ?case by simp
qed simp

lemma foldE_append: "foldE f s (xs @ ys) = bindE (foldE f s xs) (\<lambda>s'. foldE f s' ys)"
  by (induction xs arbitrary: s) (auto simp: bindE_def split: sum.splits)

lemma foldE_invariant:
  assumes "\<And>s x s'. x \<in> set xs \<Longrightarrow> P s \<Longrightarrow> f s x = Inr s' \<Longrightarrow> P s'"
    and "P s" and "foldE f s xs = Inr s'"
  shows "P s'"
  using assms
proof (induction xs arbitrary: s)
  case (Cons x xs)
  from Cons.prems(3) obtain s1 where s1: "f s x = Inr s1" "foldE f s1 xs = Inr s'"
    by (auto simp: bindE_Inr_iff)
  from Cons.prems(1) [of x s s1] Cons.prems(2) s1(1) have "P s1" by simp
  moreover have "P t'" if "y \<in> set xs" "P t" "f t y = Inr t'" for y t t'
    using Cons.prems(1) [of y t t'] that by simp
  ultimately show ?case using Cons.IH [of s1] s1(2) by blast
qed simp

section \<open>Strings\<close>

text \<open>
  The white space that \<open>String.prototype.trim\<close> removes, among the code points 0 to 255:
  tab, line feed, vertical tab, form feed, carriage return, space and no-break space.
\<close>

definition js_ws :: "char \<Rightarrow> bool" where
  "js_ws c \<longleftrightarrow> of_char c \<in> {9, 10, 11, 12, 13, 32, 160 :: nat}"

definition js_trim :: "string \<Rightarrow> string" where
  "js_trim s = rev (dropWhile js_ws (rev (dropWhile js_ws s)))"

lemma js_trim_Nil [simp]: "js_trim [] = []"
  by (simp add: js_trim_def)

lemma js_trim_eq_Nil_iff: "js_trim s = [] \<longleftrightarrow> (\<forall>c \<in> set s. js_ws c)"
  by (auto simp: js_trim_def dropWhile_eq_Nil_conv dest: set_dropWhileD)
     (metis Un_iff set_append takeWhile_dropWhile_id set_takeWhileD)

text \<open>Decimal digits of a natural number, as string interpolation renders it.\<close>

fun show_nat :: "nat \<Rightarrow> string" where
  "show_nat n = (if n < 10 then [char_of (48 + n)]
                 else show_nat (n div 10) @ [char_of (48 + n mod 10)])"

declare show_nat.simps [simp del]

definition js_digit :: "char \<Rightarrow> bool" where
  "js_digit c \<longleftrightarrow> 48 \<le> (of_char c :: nat) \<and> (of_char c :: nat) \<le> 57"

definition show_int :: "int \<Rightarrow> string" where
  "show_int i = (if i < 0 then CHR ''-'' # show_nat (nat (- i)) else show_nat (nat i))"

lemma of_char_digit: "n < 10 \<Longrightarrow> of_char (char_of (48 + n :: nat)) = 48 + n"
  by (simp add: of_char_of)

lemma show_nat_not_Nil [simp]: "show_nat n \<noteq> []"
  by (subst show_nat.simps) simp

lemma show_nat_digits: "c \<in> set (show_nat n) \<Longrightarrow> js_digit c"
proof (induction n rule: show_nat.induct)
  case (1 n)
  show ?case
  proof (cases "n < 10")
    case True
    with "1.prems" show ?thesis
      by (simp add: show_nat.simps [of n] js_digit_def of_char_of)
  next
    case False
    with "1.prems" consider "c \<in> set (show_nat (n div 10))" | "c = char_of (48 + n mod 10)"
      by (auto simp: show_nat.simps [of n])
    then show ?thesis
    proof cases
      case 1
      with "1.IH" False show ?thesis by blast
    next
      case 2
      moreover have "n mod 10 < 10" by simp
      ultimately show ?thesis by (simp add: js_digit_def of_char_of)
    qed
  qed
qed

text \<open>The value of a string of digits, the inverse of \<open>show_nat\<close>.\<close>

definition digits_value :: "string \<Rightarrow> nat" where
  "digits_value s = foldl (\<lambda>v c. 10 * v + (of_char c - 48)) 0 s"

lemma digits_value_show_nat: "digits_value (show_nat n) = n"
proof (induction n rule: show_nat.induct)
  case (1 n)
  show ?case
  proof (cases "n < 10")
    case True
    then show ?thesis by (simp add: show_nat.simps [of n] digits_value_def of_char_of)
  next
    case False
    with "1.IH" have "digits_value (show_nat (n div 10)) = n div 10" by simp
    moreover have "(48 + n mod 10) mod 256 = 48 + n mod 10" by simp
    ultimately show ?thesis
      using False by (simp add: show_nat.simps [of n] digits_value_def of_char_of)
  qed
qed

lemma show_nat_inj [simp]: "show_nat m = show_nat n \<longleftrightarrow> m = n"
  by (metis digits_value_show_nat)

lemma show_int_inj [simp]: "show_int i = show_int j \<longleftrightarrow> i = j"
proof -
  have minus: "CHR ''-'' \<notin> set (show_nat n)" for n
    using show_nat_digits [of "CHR ''-''" n] by (auto simp: js_digit_def)
  have "show_nat n \<noteq> CHR ''-'' # s" "CHR ''-'' # s \<noteq> show_nat n" for n s
    using minus [of n] by (metis list.set_intros(1))+
  then show ?thesis
    by (auto simp: show_int_def)
qed

lemma not_digit_not_in_show_nat: "\<not> js_digit c \<Longrightarrow> c \<notin> set (show_nat n)"
  using show_nat_digits by blast

text \<open>Two strings joined by a separator that the first does not contain split uniquely.\<close>

lemma append_sep_inj:
  assumes "xs @ c # ys = xs' @ c # ys'" and "c \<notin> set xs" and "c \<notin> set xs'"
  shows "xs = xs' \<and> ys = ys'"
  using assms
proof (induction xs arbitrary: xs')
  case Nil
  then show ?case by (cases xs') auto
next
  case (Cons x xs)
  then show ?case by (cases xs') auto
qed

section \<open>Insertion-ordered maps and sets\<close>

type_synonym ('k, 'v) js_map = "('k \<times> 'v) list"
type_synonym 'a js_set = "'a list"

abbreviation js_get :: "('k, 'v) js_map \<Rightarrow> 'k \<Rightarrow> 'v option" where
  "js_get m k \<equiv> map_of m k"

abbreviation js_put :: "'k \<Rightarrow> 'v \<Rightarrow> ('k, 'v) js_map \<Rightarrow> ('k, 'v) js_map" where
  "js_put k v m \<equiv> AList.update k v m"

abbreviation js_del :: "'k \<Rightarrow> ('k, 'v) js_map \<Rightarrow> ('k, 'v) js_map" where
  "js_del k m \<equiv> AList.delete k m"

abbreviation js_keys :: "('k, 'v) js_map \<Rightarrow> 'k list" where
  "js_keys m \<equiv> map fst m"

abbreviation js_values :: "('k, 'v) js_map \<Rightarrow> 'v list" where
  "js_values m \<equiv> map snd m"

definition js_has :: "('k, 'v) js_map \<Rightarrow> 'k \<Rightarrow> bool" where
  "js_has m k \<longleftrightarrow> js_get m k \<noteq> None"

definition js_add :: "'a \<Rightarrow> 'a js_set \<Rightarrow> 'a js_set" where
  "js_add x xs = (if x \<in> set xs then xs else xs @ [x])"

lemma js_has_iff [js_map_laws]: "js_has m k \<longleftrightarrow> k \<in> set (js_keys m)"
  by (simp add: js_has_def map_of_eq_None_iff)

lemma js_get_put [js_map_laws]:
  "js_get (js_put k v m) k' = (if k' = k then Some v else js_get m k')"
  by (simp add: update_conv')

lemma js_get_del [js_map_laws]:
  "js_get (js_del k m) k' = (if k' = k then None else js_get m k')"
  by (simp add: delete_conv')

lemma js_keys_put [js_map_laws]:
  "js_keys (js_put k v m) = (if k \<in> set (js_keys m) then js_keys m else js_keys m @ [k])"
  by (rule update_keys)

lemma js_put_fresh: "k \<notin> set (js_keys m) \<Longrightarrow> js_put k v m = m @ [(k, v)]"
  by (induction m) auto

lemma fst_set_put [simp]: "fst ` set (js_put k v m) = insert k (fst ` set m)"
  by (induction m) auto

lemma in_js_put: "p \<in> set (js_put k v m) \<Longrightarrow> p = (k, v) \<or> p \<in> set m"
  by (induction m) (auto split: if_splits)

lemma js_put_values:
  "set (js_values (js_put k v m)) \<subseteq> insert v (set (js_values m))"
  by (induction m) auto

lemma distinct_put [js_map_laws, intro]:
  "distinct (js_keys m) \<Longrightarrow> distinct (js_keys (js_put k v m))"
  by (rule distinct_update)

lemma distinct_del [js_map_laws, intro]:
  "distinct (js_keys m) \<Longrightarrow> distinct (js_keys (js_del k m))"
  by (rule distinct_delete)

lemma keys_del: "set (js_keys (js_del k m)) = set (js_keys m) - {k}"
  by (induction m) auto

lemma length_del:
  "distinct (js_keys m) \<Longrightarrow> length (js_del k m) = (if k \<in> set (js_keys m) then length m - 1 else length m)"
proof (induction m)
  case (Cons a m)
  then show ?case by (cases m) (auto simp: AList.delete_eq)
qed simp

lemma length_put:
  "length (js_put k v m) = (if k \<in> set (js_keys m) then length m else Suc (length m))"
  by (induction m) auto

lemma js_get_in_set: "distinct (js_keys m) \<Longrightarrow> js_get m k = Some v \<longleftrightarrow> (k, v) \<in> set m"
  by (rule map_of_eq_Some_iff)

lemma set_js_add [simp]: "set (js_add x xs) = insert x (set xs)"
  by (auto simp: js_add_def)

lemma distinct_js_add [simp]: "distinct (js_add x xs) = distinct xs"
  by (auto simp: js_add_def)

lemma js_add_fresh: "x \<notin> set xs \<Longrightarrow> js_add x xs = xs @ [x]"
  by (simp add: js_add_def)

text \<open>\<open>Array.from(new Set(xs))\<close>: the first occurrence of every element, in order.\<close>

definition js_uniq :: "'a list \<Rightarrow> 'a list" where
  "js_uniq xs = foldl (\<lambda>s x. js_add x s) [] xs"

lemma foldl_js_add:
  "set (foldl (\<lambda>s x. js_add x s) s xs) = set s \<union> set xs \<and>
   (distinct s \<longrightarrow> distinct (foldl (\<lambda>s x. js_add x s) s xs))"
  by (induction xs arbitrary: s) auto

lemma set_js_uniq [simp]: "set (js_uniq xs) = set xs"
  using foldl_js_add [of "[]" xs] by (simp add: js_uniq_def)

lemma distinct_js_uniq [simp]: "distinct (js_uniq xs)"
  using foldl_js_add [of "[]" xs] by (simp add: js_uniq_def)

section \<open>Transition systems that keep an invariant\<close>

text \<open>
  The contract of a stateful component: its operations are the events of \<open>step\<close> and each keeps
  \<open>inv\<close>. What holds of one step holds of any run, and a relation \<open>R\<close> between the states before
  and after a step that is reflexive and transitive relates the ends of a run.
\<close>

fun run :: "('s \<Rightarrow> 'e \<Rightarrow> 's) \<Rightarrow> 's \<Rightarrow> 'e list \<Rightarrow> 's" where
  "run step s [] = s"
| "run step s (e # es) = run step (step s e) es"

lemma run_append: "run step s (xs @ ys) = run step (run step s xs) ys"
  by (induction xs arbitrary: s) auto

locale invariant_system =
  fixes step :: "'s \<Rightarrow> 'e \<Rightarrow> 's"
    and inv :: "'s \<Rightarrow> bool"
  assumes step_inv: "inv s \<Longrightarrow> inv (step s e)"
begin

lemma run_inv: "inv s \<Longrightarrow> inv (run step s es)"
  by (induction es arbitrary: s) (auto simp: step_inv)

lemma run_preorder:
  assumes "\<And>s e. inv s \<Longrightarrow> R s (step s e)"
    and "\<And>s. R s s" and "\<And>a b c. R a b \<Longrightarrow> R b c \<Longrightarrow> R a c"
    and "inv s"
  shows "R s (run step s es)"
  using assms(4)
proof (induction es arbitrary: s)
  case Nil
  then show ?case using assms(2) by simp
next
  case (Cons e es)
  then have "R (step s e) (run step (step s e) es)" using step_inv by blast
  with assms(1) [OF Cons.prems, of e] show ?case using assms(3) by simp
qed

end

end
