(* ===== verification/Effects.thy ===== *)
theory Effects
  imports Js_Prelude
begin

text \<open>
  Methods that read and write the fields of \<open>this\<close> and may throw. A throw keeps what was written
  before it, so a method is a function from the state to a result and a state. \<open>wp m Q E s\<close> says
  that \<open>m\<close> started in \<open>s\<close> either returns with \<open>Q\<close> or throws in a state with \<open>E\<close>; the rules of the
  collection \<open>wp_rules\<close> compute it through the text of a method.
\<close>

named_theorems wp_rules "weakest preconditions of the statements"

type_synonym ('s, 'e, 'a) effect = "'s \<Rightarrow> ('e + 'a) \<times> 's"

definition retS :: "'a \<Rightarrow> ('s, 'e, 'a) effect" where
  "retS x s = (Inr x, s)"

definition throwS :: "'e \<Rightarrow> ('s, 'e, 'a) effect" where
  "throwS e s = (Inl e, s)"

definition bindS :: "('s, 'e, 'a) effect \<Rightarrow> ('a \<Rightarrow> ('s, 'e, 'b) effect) \<Rightarrow> ('s, 'e, 'b) effect" where
  "bindS m f s = (case m s of (Inl e, s') \<Rightarrow> (Inl e, s') | (Inr x, s') \<Rightarrow> f x s')"

definition readS :: "('s \<Rightarrow> 'a) \<Rightarrow> ('s, 'e, 'a) effect" where
  "readS f s = (Inr (f s), s)"

definition writeS :: "('s \<Rightarrow> 's) \<Rightarrow> ('s, 'e, unit) effect" where
  "writeS f s = (Inr (), f s)"

definition guardS :: "bool \<Rightarrow> 'e \<Rightarrow> ('s, 'e, unit) effect" where
  "guardS b e = (if b then retS () else throwS e)"

text \<open>A value that may be missing, and a computation without state that may throw.\<close>

definition needS :: "'a option \<Rightarrow> 'e \<Rightarrow> ('s, 'e, 'a) effect" where
  "needS x e = (case x of None \<Rightarrow> throwS e | Some y \<Rightarrow> retS y)"

definition liftS :: "'e + 'a \<Rightarrow> ('s, 'e, 'a) effect" where
  "liftS r s = (r, s)"

definition wp :: "('s, 'e, 'a) effect \<Rightarrow> ('a \<Rightarrow> 's \<Rightarrow> bool) \<Rightarrow> ('s \<Rightarrow> bool) \<Rightarrow> 's \<Rightarrow> bool" where
  "wp m Q E s = (case m s of (Inl e, s') \<Rightarrow> E s' | (Inr x, s') \<Rightarrow> Q x s')"

lemma wp_ret [wp_rules]: "wp (retS x) Q E s = Q x s"
  by (simp add: wp_def retS_def)

lemma wp_throw [wp_rules]: "wp (throwS e) Q E s = E s"
  by (simp add: wp_def throwS_def)

lemma wp_bind [wp_rules]: "wp (bindS m f) Q E s = wp m (\<lambda>x. wp (f x) Q E) E s"
  by (simp add: wp_def bindS_def split: prod.split sum.split)

lemma wp_read [wp_rules]: "wp (readS f) Q E s = Q (f s) s"
  by (simp add: wp_def readS_def)

lemma wp_write [wp_rules]: "wp (writeS f) Q E s = Q () (f s)"
  by (simp add: wp_def writeS_def)

lemma wp_guard [wp_rules]: "wp (guardS b e) Q E s = (if b then Q () s else E s)"
  by (simp add: guardS_def wp_ret wp_throw)

lemma wp_need [wp_rules]: "wp (needS x e) Q E s = (case x of None \<Rightarrow> E s | Some y \<Rightarrow> Q y s)"
  by (simp add: needS_def wp_ret wp_throw split: option.split)

lemma wp_lift [wp_rules]: "wp (liftS r) Q E s = (case r of Inl e \<Rightarrow> E s | Inr x \<Rightarrow> Q x s)"
  by (simp add: wp_def liftS_def)

lemma wp_if [wp_rules]: "wp (if b then m else n) Q E s = (if b then wp m Q E s else wp n Q E s)"
  by simp

lemma wp_mono:
  assumes "wp m Q E s" and "\<And>x t. Q x t \<Longrightarrow> Q' x t" and "\<And>t. E t \<Longrightarrow> E' t"
  shows "wp m Q' E' s"
  using assms by (auto simp: wp_def split: prod.splits sum.splits)

lemma wp_resultD: "wp m Q E s \<Longrightarrow> m s = (Inr x, s') \<Longrightarrow> Q x s'"
  by (simp add: wp_def)

lemma wp_stateD: "wp m (\<lambda>_. P) P s \<Longrightarrow> P (snd (m s))"
  by (auto simp: wp_def split: prod.splits sum.splits)

text \<open>A method keeps \<open>I\<close> when \<open>I\<close> holds after it whether it returned or threw.\<close>

definition keeps :: "('s \<Rightarrow> bool) \<Rightarrow> ('s, 'e, 'a) effect \<Rightarrow> bool" where
  "keeps I m \<longleftrightarrow> (\<forall>s. I s \<longrightarrow> I (snd (m s)))"

lemma keepsI: "(\<And>s. I s \<Longrightarrow> wp m (\<lambda>_. I) I s) \<Longrightarrow> keeps I m"
  by (auto simp: keeps_def intro: wp_stateD)

lemma keepsD: "keeps I m \<Longrightarrow> I s \<Longrightarrow> I (snd (m s))"
  by (simp add: keeps_def)

lemma keeps_wp: "keeps I m \<Longrightarrow> I s \<Longrightarrow> wp m (\<lambda>_. I) I s"
  by (cases "m s") (fastforce simp: keeps_def wp_def split: sum.split)

lemma keeps_ret [inv_intros]: "keeps I (retS x)"
  by (simp add: keeps_def retS_def)

lemma keeps_throw [inv_intros]: "keeps I (throwS e)"
  by (simp add: keeps_def throwS_def)

lemma keeps_read [inv_intros]: "keeps I (readS f)"
  by (simp add: keeps_def readS_def)

lemma keeps_guard [inv_intros]: "keeps I (guardS b e)"
  by (simp add: keeps_def guardS_def retS_def throwS_def)

lemma keeps_need [inv_intros]: "keeps I (needS x e)"
  by (simp add: keeps_def needS_def retS_def throwS_def split: option.split)

lemma keeps_lift [inv_intros]: "keeps I (liftS r)"
  by (simp add: keeps_def liftS_def)

lemma keeps_write: "(\<And>s. I s \<Longrightarrow> I (f s)) \<Longrightarrow> keeps I (writeS f)"
  by (simp add: keeps_def writeS_def)

lemma keeps_bind [inv_intros]:
  assumes "keeps I m" and "\<And>x. keeps I (f x)"
  shows "keeps I (bindS m f)"
proof (rule keepsI)
  fix s assume "I s"
  from keeps_wp [OF assms(1) this] show "wp (bindS m f) (\<lambda>_. I) I s"
    unfolding wp_bind by (rule wp_mono) (rule keeps_wp [OF assms(2)])
qed

lemma keeps_if [inv_intros]: "keeps I m \<Longrightarrow> keeps I n \<Longrightarrow> keeps I (if b then m else n)"
  by simp

text \<open>How a method can have returned.\<close>

lemma bindS_Inr_iff:
  "bindS m f s = (Inr y, s') \<longleftrightarrow> (\<exists>x t. m s = (Inr x, t) \<and> f x t = (Inr y, s'))"
  by (auto simp: bindS_def split: prod.splits sum.splits)

lemma returns_simps:
  "retS x s = (Inr y, s') \<longleftrightarrow> y = x \<and> s' = s"
  "throwS e s = (Inr y, s') \<longleftrightarrow> False"
  "readS f s = (Inr a, s') \<longleftrightarrow> a = f s \<and> s' = s"
  "writeS g s = (Inr u, s') \<longleftrightarrow> s' = g s"
  "guardS b e s = (Inr u, s') \<longleftrightarrow> b \<and> s' = s"
  "needS z e s = (Inr y, s') \<longleftrightarrow> z = Some y \<and> s' = s"
  "liftS r s = (Inr y, s') \<longleftrightarrow> r = Inr y \<and> s' = s"
  by (auto simp: retS_def throwS_def readS_def writeS_def guardS_def needS_def liftS_def
      split: option.splits)

text \<open>
  For evaluation a sequence of statements is the nested case distinction it stands for, so that a
  continuation is evaluated only once its argument is known.
\<close>

lemma bindS_unfold [code_unfold]:
  "bindS m f = (\<lambda>s. case m s of (r, s') \<Rightarrow> (case r of Inl e \<Rightarrow> (Inl e, s') | Inr x \<Rightarrow> f x s'))"
  by (rule ext) (simp add: bindS_def split: prod.split sum.split)

lemma guardS_unfold [code_unfold]:
  "guardS b e = (\<lambda>s. if b then (Inr (), s) else (Inl e, s))"
  by (rule ext) (simp add: guardS_def retS_def throwS_def)

end
