(* ===== verification/Investigation_Graph.thy ===== *)
theory Investigation_Graph
  imports Js_Prelude
begin

text \<open>
  The investigation graph of \<open>src/atlas/domain/InvestigationGraph.ts\<close>: typed nodes and edges with
  an index of outgoing and incoming edge ids per node, and a depth-first search that refuses an
  edge closing a cycle. The lemmas show the search computes reachability, that every operation
  keeps the graph acyclic and its index complete, and that a graph whose edge ids were all fresh
  survives \<open>toJSON\<close> and \<open>fromJSON\<close> unchanged.
\<close>

section \<open>Data\<close>

datatype node_kind =
  KQuestion | KDatasetVersion | KOperation | KEvidenceItem | KObservation | KFinding
  | KRepresentationDecision | KConclusion

datatype relationship =
  Motivates | UsesDataset | Produces | Observes | Supports | Refutes | BranchesFrom

text \<open>The values the program stores under a node's \<open>metadata\<close>: strings, booleans, string lists.\<close>

datatype meta_value = MStr string | MBool bool | MStrs "string list"

record inv_node =
  node_id :: string
  node_kind :: "node_kind option"
  node_parent :: "string option"
  node_version :: nat
  node_fingerprint :: string
  node_label :: string
  node_timestamp :: int
  node_operation :: "string option"
  node_findings :: "nat option"
  node_meta :: "(string, meta_value) js_map"

record inv_edge =
  edge_id :: string
  edge_source :: string
  edge_target :: string
  edge_rel :: relationship
  edge_meta :: "(string, meta_value) js_map option"

record graph =
  g_nodes :: "(string, inv_node) js_map"
  g_edges :: "(string, inv_edge) js_map"
  g_out :: "(string, string js_set) js_map"
  g_in :: "(string, string js_set) js_map"
  g_active :: "string option"

record graph_json =
  json_nodes :: "inv_node list"
  json_edges :: "inv_edge list option"
  json_active :: "string option"

datatype graph_error =
  InvalidNode | InvalidEdge | NoSourceNode string | NoTargetNode string
  | SelfLoop string | CycleDetected string string

fun relationship_name :: "relationship \<Rightarrow> string" where
  "relationship_name Motivates = ''motivates''"
| "relationship_name UsesDataset = ''uses_dataset''"
| "relationship_name Produces = ''produces''"
| "relationship_name Observes = ''observes''"
| "relationship_name Supports = ''supports''"
| "relationship_name Refutes = ''refutes''"
| "relationship_name BranchesFrom = ''branches_from''"

section \<open>Operations\<close>

definition empty_graph :: graph where
  "empty_graph = \<lparr>g_nodes = [], g_edges = [], g_out = [], g_in = [], g_active = None\<rparr>"

definition ensure_key :: "string \<Rightarrow> (string, string js_set) js_map \<Rightarrow> (string, string js_set) js_map" where
  "ensure_key k m = (if js_has m k then m else js_put k [] m)"

definition with_kind :: "inv_node \<Rightarrow> inv_node" where
  "with_kind n = n\<lparr>node_kind := Some (case node_kind n of None \<Rightarrow> KOperation | Some k \<Rightarrow> k)\<rparr>"

definition add_node :: "inv_node \<Rightarrow> graph \<Rightarrow> graph_error + graph" where
  "add_node n g =
     (if node_id n = [] then Inl InvalidNode
      else Inr (g\<lparr>g_nodes := js_put (node_id n) (with_kind n) (g_nodes g),
                  g_out := ensure_key (node_id n) (g_out g),
                  g_in := ensure_key (node_id n) (g_in g),
                  g_active := Some (node_id n)\<rparr>))"

text \<open>The targets the search would push from a node, before the \<open>visited\<close> filter.\<close>

definition out_targets :: "graph \<Rightarrow> string \<Rightarrow> string list" where
  "out_targets g n =
     (case js_get (g_out g) n of
        None \<Rightarrow> []
      | Some ids \<Rightarrow> List.map_filter (\<lambda>i. map_option edge_target (js_get (g_edges g) i)) ids)"

text \<open>
  The loop of \<open>_isReachable\<close>. The stack's top is the head of the list; the targets of a node are
  pushed in order, so the last one is on top.
\<close>

function reach_loop :: "graph \<Rightarrow> string \<Rightarrow> string js_set \<Rightarrow> string list \<Rightarrow> bool" where
  "reach_loop g t visited [] = False"
| "reach_loop g t visited (c # stack) =
     (if c = t then True
      else if c \<in> set visited then reach_loop g t visited stack
      else let visited' = js_add c visited
           in reach_loop g t visited'
                (rev (filter (\<lambda>w. w \<notin> set visited') (out_targets g c)) @ stack))"
  by pat_completeness auto
termination
proof (relation "measures [\<lambda>(g, t, visited, stack). card (set (js_keys (g_out g)) - set visited),
                          \<lambda>(g, t, visited, stack). length stack]", goal_cases)
  case 1
  show ?case by simp
next
  case 2
  then show ?case by simp
next
  case (3 g t visited c stack x)
  let ?K = "set (js_keys (g_out g))"
  show ?case
  proof (cases "c \<in> ?K")
    case True
    with 3 have "?K - insert c (set visited) \<subset> ?K - set visited" by auto
    then have "card (?K - insert c (set visited)) < card (?K - set visited)"
      by (intro psubset_card_mono) auto
    with 3 show ?thesis by simp
  next
    case False
    then have "out_targets g c = []"
      by (simp add: out_targets_def map_of_eq_None_iff [THEN iffD2])
    moreover have "?K - insert c (set visited) = ?K - set visited" using False by auto
    ultimately show ?thesis using 3 by simp
  qed
qed

declare reach_loop.simps(2) [simp del]

definition is_reachable :: "graph \<Rightarrow> string \<Rightarrow> string \<Rightarrow> bool" where
  "is_reachable g a b \<longleftrightarrow> a = b \<or> reach_loop g b [] [a]"

definition add_to_index :: "string \<Rightarrow> string \<Rightarrow> (string, string js_set) js_map \<Rightarrow> (string, string js_set) js_map" where
  "add_to_index n i m =
     js_put n (js_add i (case js_get m n of None \<Rightarrow> [] | Some s \<Rightarrow> s)) m"

definition add_edge :: "inv_edge \<Rightarrow> graph \<Rightarrow> graph_error + graph" where
  "add_edge e g =
     (if edge_id e = [] then Inl InvalidEdge
      else if \<not> js_has (g_nodes g) (edge_source e) then Inl (NoSourceNode (edge_source e))
      else if \<not> js_has (g_nodes g) (edge_target e) then Inl (NoTargetNode (edge_target e))
      else if edge_source e = edge_target e then Inl (SelfLoop (edge_source e))
      else if is_reachable g (edge_target e) (edge_source e)
        then Inl (CycleDetected (edge_source e) (edge_target e))
      else Inr (g\<lparr>g_edges := js_put (edge_id e) e (g_edges g),
                  g_out := add_to_index (edge_source e) (edge_id e) (g_out g),
                  g_in := add_to_index (edge_target e) (edge_id e) (g_in g)\<rparr>))"

definition default_edge_id :: "string \<Rightarrow> string \<Rightarrow> relationship \<Rightarrow> string" where
  "default_edge_id s t r = ''edge-'' @ s @ ''-'' @ t @ ''-'' @ relationship_name r"

definition connect_edge :: "string \<Rightarrow> string \<Rightarrow> relationship \<Rightarrow> string option \<Rightarrow> inv_edge" where
  "connect_edge s t r i =
     \<lparr>edge_id = (case i of None \<Rightarrow> default_edge_id s t r | Some x \<Rightarrow> x),
      edge_source = s, edge_target = t, edge_rel = r, edge_meta = None\<rparr>"

definition connect :: "string \<Rightarrow> string \<Rightarrow> relationship \<Rightarrow> string option \<Rightarrow> graph \<Rightarrow> graph_error + graph" where
  "connect s t r i g = add_edge (connect_edge s t r i) g"

definition get_node :: "graph \<Rightarrow> string \<Rightarrow> inv_node option" where
  "get_node g i = js_get (g_nodes g) i"

definition indexed_edges :: "graph \<Rightarrow> (string, string js_set) js_map \<Rightarrow> string \<Rightarrow> inv_edge list" where
  "indexed_edges g idx n =
     (case js_get idx n of
        None \<Rightarrow> []
      | Some ids \<Rightarrow> List.map_filter (\<lambda>i. js_get (g_edges g) i) ids)"

definition get_outgoing_edges :: "graph \<Rightarrow> string \<Rightarrow> inv_edge list" where
  "get_outgoing_edges g n = indexed_edges g (g_out g) n"

definition get_incoming_edges :: "graph \<Rightarrow> string \<Rightarrow> inv_edge list" where
  "get_incoming_edges g n = indexed_edges g (g_in g) n"

definition set_active_node :: "string \<Rightarrow> graph \<Rightarrow> bool \<times> graph" where
  "set_active_node i g = (if js_has (g_nodes g) i then (True, g\<lparr>g_active := Some i\<rparr>) else (False, g))"

definition graph_to_json :: "graph \<Rightarrow> graph_json" where
  "graph_to_json g =
     \<lparr>json_nodes = js_values (g_nodes g), json_edges = Some (js_values (g_edges g)),
      json_active = g_active g\<rparr>"

definition graph_from_json :: "graph_json \<Rightarrow> graph_error + graph" where
  "graph_from_json j =
     bindE (foldE (\<lambda>g n. add_node n g) empty_graph (json_nodes j))
       (\<lambda>g. bindE (case json_edges j of None \<Rightarrow> Inr g
                   | Some es \<Rightarrow> foldE (\<lambda>g e. add_edge e g) g es)
          (\<lambda>g. Inr (case json_active j of
                      Some a \<Rightarrow> (if a = [] then g else snd (set_active_node a g))
                    | None \<Rightarrow> g)))"

section \<open>The search computes reachability\<close>

definition succ_rel :: "graph \<Rightarrow> (string \<times> string) set" where
  "succ_rel g = {(a, b). b \<in> set (out_targets g a)}"

lemma succ_rel_iff [simp]: "(a, b) \<in> succ_rel g \<longleftrightarrow> b \<in> set (out_targets g a)"
  by (simp add: succ_rel_def)

text \<open>A path that starts inside a set and ends outside it passes through the set's boundary.\<close>

lemma path_escapes:
  assumes "(c, t) \<in> R\<^sup>*" and "c \<in> V" and "t \<notin> V"
    and "\<And>v w. v \<in> V \<Longrightarrow> (v, w) \<in> R \<Longrightarrow> w \<in> V \<union> S"
  shows "\<exists>s \<in> S. (s, t) \<in> R\<^sup>*"
  using assms(1,2)
proof (induction rule: converse_rtrancl_induct)
  case base
  with assms(3) show ?case by simp
next
  case (step y z)
  then show ?case using assms(4) [of y z] by auto
qed

lemma reach_loop_iff:
  assumes "\<And>v. v \<in> set visited \<Longrightarrow> v \<noteq> t"
    and "\<And>v w. v \<in> set visited \<Longrightarrow> (v, w) \<in> succ_rel g \<Longrightarrow> w \<in> set visited \<union> set stack"
  shows "reach_loop g t visited stack \<longleftrightarrow> (\<exists>s \<in> set stack. (s, t) \<in> (succ_rel g)\<^sup>*)"
  using assms
proof (induction g t visited stack rule: reach_loop.induct)
  case (1 g t visited)
  then show ?case by simp
next
  case (2 g t visited c stack)
  consider "c = t" | "c \<noteq> t" "c \<in> set visited" | "c \<noteq> t" "c \<notin> set visited" by blast
  then show ?case
  proof cases
    case 1
    then show ?thesis by (auto simp: reach_loop.simps(2))
  next
    case old: 2
    have "reach_loop g t visited stack \<longleftrightarrow> (\<exists>s \<in> set stack. (s, t) \<in> (succ_rel g)\<^sup>*)"
      using "2.IH"(1) [OF old] "2.prems" old by fastforce
    moreover have "\<exists>s \<in> set stack. (s, t) \<in> (succ_rel g)\<^sup>*" if "(c, t) \<in> (succ_rel g)\<^sup>*"
      using path_escapes [OF that old(2), of "set stack"] "2.prems" old by fastforce
    ultimately show ?thesis using old by (auto simp: reach_loop.simps(2))
  next
    case new: 3
    define V where "V = js_add c visited"
    define S where "S = rev (filter (\<lambda>w. w \<notin> set V) (out_targets g c)) @ stack"
    have closed: "w \<in> set V \<union> set S" if "v \<in> set V" "(v, w) \<in> succ_rel g" for v w
      using that "2.prems"(2) [of v w] by (auto simp: V_def S_def)
    have avoids: "v \<noteq> t" if "v \<in> set V" for v
      using that "2.prems"(1) new(1) by (auto simp: V_def)
    have IH: "reach_loop g t V S \<longleftrightarrow> (\<exists>s \<in> set S. (s, t) \<in> (succ_rel g)\<^sup>*)"
      unfolding S_def
    proof (rule "2.IH"(2) [OF new, of V])
      show "V = js_add c visited" by (rule V_def)
    qed (use closed avoids in \<open>auto simp: S_def\<close>)
    have "\<exists>s \<in> set S. (s, t) \<in> (succ_rel g)\<^sup>*" if "(c, t) \<in> (succ_rel g)\<^sup>*"
      using path_escapes [OF that, of "set V" "set S"] closed avoids by (auto simp: V_def)
    moreover have "(c, t) \<in> (succ_rel g)\<^sup>*" if "s \<in> set S" "s \<notin> set stack" "(s, t) \<in> (succ_rel g)\<^sup>*" for s
      using that by (auto simp: S_def intro: converse_rtrancl_into_rtrancl)
    moreover have "set stack \<subseteq> set S" by (simp add: S_def)
    moreover have "reach_loop g t visited (c # stack) = reach_loop g t V S"
      using new by (simp add: reach_loop.simps(2) V_def S_def Let_def)
    ultimately show ?thesis using IH by auto
  qed
qed

lemma is_reachable_iff: "is_reachable g a b \<longleftrightarrow> (a, b) \<in> (succ_rel g)\<^sup>*"
  using reach_loop_iff [of "[]" b g "[a]"] by (auto simp: is_reachable_def)

section \<open>Well-formed graphs\<close>

definition edge_pairs :: "graph \<Rightarrow> (string \<times> string) set" where
  "edge_pairs g = (\<lambda>e. (edge_source e, edge_target e)) ` set (js_values (g_edges g))"

definition node_ids :: "graph \<Rightarrow> string set" where
  "node_ids g = set (js_keys (g_nodes g))"

definition index_has :: "(string, string js_set) js_map \<Rightarrow> string \<Rightarrow> string \<Rightarrow> bool" where
  "index_has idx n i \<longleftrightarrow> (\<exists>ids. js_get idx n = Some ids \<and> i \<in> set ids)"

definition edge_ok :: "graph \<Rightarrow> string \<times> inv_edge \<Rightarrow> bool" where
  "edge_ok g = (\<lambda>(i, e). edge_id e = i \<and> i \<noteq> [] \<and> edge_source e \<in> node_ids g \<and> edge_target e \<in> node_ids g \<and>
     index_has (g_out g) (edge_source e) i \<and> index_has (g_in g) (edge_target e) i)"

definition node_ok :: "string \<times> inv_node \<Rightarrow> bool" where
  "node_ok = (\<lambda>(i, n). node_id n = i \<and> i \<noteq> [] \<and> node_kind n \<noteq> None)"

definition active_ok :: "graph \<Rightarrow> bool" where
  "active_ok g \<longleftrightarrow> (case g_active g of None \<Rightarrow> g_nodes g = [] | Some a \<Rightarrow> a \<in> node_ids g)"

definition graph_wf :: "graph \<Rightarrow> bool" where
  "graph_wf g \<longleftrightarrow>
     distinct (js_keys (g_nodes g)) \<and> distinct (js_keys (g_edges g)) \<and>
     js_keys (g_out g) = js_keys (g_nodes g) \<and> js_keys (g_in g) = js_keys (g_nodes g) \<and>
     (\<forall>p \<in> set (g_nodes g). node_ok p) \<and> (\<forall>p \<in> set (g_edges g). edge_ok g p) \<and>
     acyclic (edge_pairs g) \<and> active_ok g"

lemma graph_wfD:
  assumes "graph_wf g"
  shows "distinct (js_keys (g_nodes g))" and "distinct (js_keys (g_edges g))"
    and "js_keys (g_out g) = js_keys (g_nodes g)" and "js_keys (g_in g) = js_keys (g_nodes g)"
    and "\<And>p. p \<in> set (g_nodes g) \<Longrightarrow> node_ok p" and "\<And>p. p \<in> set (g_edges g) \<Longrightarrow> edge_ok g p"
    and "acyclic (edge_pairs g)"
    and "active_ok g"
  using assms by (simp_all add: graph_wf_def)

lemma empty_graph_wf: "graph_wf empty_graph"
  by (simp add: graph_wf_def empty_graph_def edge_pairs_def acyclic_def active_ok_def)

lemma keys_ensure_key:
  "js_keys (ensure_key k m) = (if k \<in> set (js_keys m) then js_keys m else js_keys m @ [k])"
  by (simp add: ensure_key_def js_has_iff js_keys_put del: update_Some_unfold)

lemma get_ensure_key: "js_get (ensure_key k m) k' = (case js_get m k' of Some s \<Rightarrow> Some s
     | None \<Rightarrow> if k' = k then Some [] else None)"
  by (auto simp: ensure_key_def js_has_def js_get_put split: option.splits)

lemma index_has_ensure_key [simp]: "index_has (ensure_key k m) n i = index_has m n i"
  by (auto simp: index_has_def get_ensure_key split: option.splits if_splits)

lemma keys_add_to_index:
  "n \<in> set (js_keys m) \<Longrightarrow> js_keys (add_to_index n i m) = js_keys m"
  by (simp add: add_to_index_def js_keys_put)

lemma get_add_to_index:
  "js_get (add_to_index n i m) k =
     (if k = n then Some (js_add i (case js_get m n of None \<Rightarrow> [] | Some s \<Rightarrow> s)) else js_get m k)"
  by (simp add: add_to_index_def js_get_put)

lemma index_has_add_to_index:
  "index_has (add_to_index n i m) k j \<longleftrightarrow> k = n \<and> j = i \<or> index_has m k j"
  by (auto simp: index_has_def get_add_to_index split: option.splits)

lemma add_node_Inr:
  assumes "add_node n g = Inr g'"
  shows "node_id n \<noteq> []"
    and "g' = g\<lparr>g_nodes := js_put (node_id n) (with_kind n) (g_nodes g),
                g_out := ensure_key (node_id n) (g_out g),
                g_in := ensure_key (node_id n) (g_in g),
                g_active := Some (node_id n)\<rparr>"
  using assms by (simp_all add: add_node_def split: if_splits)

lemma node_ids_add_node: "add_node n g = Inr g' \<Longrightarrow> node_ids g' = insert (node_id n) (node_ids g)"
  by (drule add_node_Inr(2)) (simp add: node_ids_def)

lemma add_node_wf:
  assumes wf: "graph_wf g" and ok: "add_node n g = Inr g'"
  shows "graph_wf g'"
proof -
  note N = add_node_Inr [OF ok]
  have "node_ok p" if "p \<in> set (g_nodes g')" for p
  proof -
    have "node_ok (node_id n, with_kind n)"
      using N(1) by (simp add: node_ok_def with_kind_def)
    moreover have "p = (node_id n, with_kind n) \<or> p \<in> set (g_nodes g)"
      using that by (intro in_js_put) (simp add: N(2))
    ultimately show ?thesis using graph_wfD(5) [OF wf] by blast
  qed
  moreover have "edge_ok g' p" if "p \<in> set (g_edges g')" for p
    using that graph_wfD(6) [OF wf, of p] by (auto simp: N(2) edge_ok_def node_ids_def)
  moreover have "distinct (js_keys (g_nodes g'))"
    using graph_wfD(1) [OF wf] by (simp add: N(2) distinct_put)
  moreover have "js_keys (g_out g') = js_keys (g_nodes g')" "js_keys (g_in g') = js_keys (g_nodes g')"
    using graph_wfD(3,4) [OF wf] by (simp_all add: N(2) keys_ensure_key js_keys_put)
  moreover have "g_edges g' = g_edges g" "g_active g' = Some (node_id n)" by (simp_all add: N(2))
  ultimately show ?thesis
    using graph_wfD(2,7) [OF wf] node_ids_add_node [OF ok] by (simp add: graph_wf_def edge_pairs_def active_ok_def)
qed

lemma edge_pairs_subset_succ:
  assumes "graph_wf g"
  shows "edge_pairs g \<subseteq> succ_rel g"
proof
  fix p assume "p \<in> edge_pairs g"
  then obtain i e where e: "(i, e) \<in> set (g_edges g)" and p: "p = (edge_source e, edge_target e)"
    by (auto simp: edge_pairs_def)
  from graph_wfD(6) [OF assms e] obtain ids where
    ids: "js_get (g_out g) (edge_source e) = Some ids" "i \<in> set ids"
    by (auto simp: edge_ok_def index_has_def)
  moreover have "js_get (g_edges g) i = Some e"
    using e graph_wfD(2) [OF assms] by (simp add: js_get_in_set)
  ultimately show "p \<in> succ_rel g"
    by (force simp: p out_targets_def List.map_filter_def)
qed

lemma add_edge_guards:
  assumes "add_edge e g = Inr g'"
  shows "edge_id e \<noteq> []" "edge_source e \<in> node_ids g" "edge_target e \<in> node_ids g"
    and "edge_source e \<noteq> edge_target e" "(edge_target e, edge_source e) \<notin> (succ_rel g)\<^sup>*"
    and "g' = g\<lparr>g_edges := js_put (edge_id e) e (g_edges g),
                g_out := add_to_index (edge_source e) (edge_id e) (g_out g),
                g_in := add_to_index (edge_target e) (edge_id e) (g_in g)\<rparr>"
  using assms
  by (auto simp: add_edge_def node_ids_def js_has_iff is_reachable_iff split: if_splits)

lemma add_edge_wf:
  assumes wf: "graph_wf g" and ok: "add_edge e g = Inr g'"
  shows "graph_wf g'"
proof -
  note G = add_edge_guards [OF ok]
  have pairs: "edge_pairs g' \<subseteq> insert (edge_source e, edge_target e) (edge_pairs g)"
    using js_put_values [of "edge_id e" e "g_edges g"] by (auto simp: G(6) edge_pairs_def)
  have "(edge_target e, edge_source e) \<notin> (edge_pairs g)\<^sup>*"
    using G(5) rtrancl_mono [OF edge_pairs_subset_succ [OF wf]] by blast
  then have "acyclic (insert (edge_source e, edge_target e) (edge_pairs g))"
    using graph_wfD(7) [OF wf] by (simp add: acyclic_insert)
  then have "acyclic (edge_pairs g')" using pairs by (rule acyclic_subset)
  moreover have "edge_ok g' p" if mem: "p \<in> set (g_edges g')" for p
  proof -
    have "p \<in> set (js_put (edge_id e) e (g_edges g))" using mem by (simp add: G(6))
    then consider "p = (edge_id e, e)" | "p \<in> set (g_edges g)" using in_js_put by metis
    then show ?thesis
      by cases (use G(1-3) graph_wfD(6) [OF wf, of p] in
          \<open>auto simp: G(6) edge_ok_def index_has_add_to_index node_ids_def\<close>)
  qed
  moreover have "distinct (js_keys (g_edges g'))"
    using graph_wfD(2) [OF wf] by (simp add: G(6) distinct_put)
  moreover have "js_keys (g_out g') = js_keys (g_nodes g')" "js_keys (g_in g') = js_keys (g_nodes g')"
    using graph_wfD(3,4) [OF wf] G(2,3) by (simp_all add: G(6) keys_add_to_index node_ids_def)
  moreover have "g_nodes g' = g_nodes g" "active_ok g' = active_ok g"
    by (simp_all add: G(6) node_ids_def active_ok_def split: option.split)
  ultimately show ?thesis
    using graph_wfD(1,5,8) [OF wf] by (simp add: graph_wf_def)
qed

section \<open>Operations as events\<close>

datatype graph_op =
    AddNode inv_node | AddEdge inv_edge
  | Connect string string relationship "string option" | SetActive string | ResetGraph

definition reset_graph :: "graph \<Rightarrow> graph" where
  "reset_graph g = empty_graph"

text \<open>A call that throws leaves the graph as it was.\<close>

definition keep_on_error :: "'s \<Rightarrow> 'e + 's \<Rightarrow> 's" where
  "keep_on_error s r = (case r of Inl e \<Rightarrow> s | Inr s' \<Rightarrow> s')"

fun graph_step :: "graph \<Rightarrow> graph_op \<Rightarrow> graph" where
  "graph_step g (AddNode n) = keep_on_error g (add_node n g)"
| "graph_step g (AddEdge e) = keep_on_error g (add_edge e g)"
| "graph_step g (Connect s t r i) = keep_on_error g (connect s t r i g)"
| "graph_step g (SetActive i) = snd (set_active_node i g)"
| "graph_step g ResetGraph = reset_graph g"

lemma keep_on_error_wf:
  "graph_wf g \<Longrightarrow> (\<And>g'. r = Inr g' \<Longrightarrow> graph_wf g') \<Longrightarrow> graph_wf (keep_on_error g r)"
  by (simp add: keep_on_error_def split: sum.split)

lemma set_active_wf: "graph_wf g \<Longrightarrow> graph_wf (snd (set_active_node i g))"
proof (cases "js_has (g_nodes g) i")
  case True
  assume wf: "graph_wf g"
  have "edge_ok (g\<lparr>g_active := Some i\<rparr>) = edge_ok g"
    by (rule ext) (simp add: edge_ok_def node_ids_def)
  with True graph_wfD [OF wf] show ?thesis
    by (simp add: graph_wf_def set_active_node_def edge_pairs_def active_ok_def node_ids_def js_has_iff)
qed (simp add: set_active_node_def)

lemma connect_wf: "graph_wf g \<Longrightarrow> connect s t r i g = Inr g' \<Longrightarrow> graph_wf g'"
  unfolding connect_def by (rule add_edge_wf)

lemma graph_step_wf: "graph_wf g \<Longrightarrow> graph_wf (graph_step g op)"
  by (cases op) (auto intro: keep_on_error_wf set_active_wf add_node_wf add_edge_wf connect_wf
      simp: empty_graph_wf reset_graph_def)

interpretation graph_machine: invariant_system graph_step graph_wf
  by unfold_locales (rule graph_step_wf)

section \<open>Exact indexes and the JSON round trip\<close>

text \<open>
  While every edge was added under a fresh id, the two indexes list exactly the ids of a node's
  edges, in the order the edges were added.
\<close>

definition exact_index :: "string list \<Rightarrow> (inv_edge \<Rightarrow> string) \<Rightarrow> (string, inv_edge) js_map
    \<Rightarrow> (string, string js_set) js_map" where
  "exact_index ks end es = map (\<lambda>k. (k, map fst (filter (\<lambda>p. end (snd p) = k) es))) ks"

definition index_exact :: "graph \<Rightarrow> bool" where
  "index_exact g \<longleftrightarrow>
     g_out g = exact_index (js_keys (g_nodes g)) edge_source (g_edges g) \<and>
     g_in g = exact_index (js_keys (g_nodes g)) edge_target (g_edges g)"

lemma get_exact_index:
  "js_get (exact_index ks end es) k =
     (if k \<in> set ks then Some (map fst (filter (\<lambda>p. end (snd p) = k) es)) else None)"
  by (induction ks) (auto simp: exact_index_def)

lemma js_put_map:
  assumes "distinct ks" and "k \<in> set ks"
  shows "js_put k v (map (\<lambda>x. (x, f x)) ks) = map (\<lambda>x. (x, if x = k then v else f x)) ks"
  using assms by (induction ks) (auto intro!: map_cong)

lemma add_to_exact_index:
  assumes "distinct ks" and "end e \<in> set ks" and "i \<notin> fst ` set es"
  shows "add_to_index (end e) i (exact_index ks end es) = exact_index ks end (es @ [(i, e)])"
proof -
  have "js_add i (map fst (filter (\<lambda>p. end (snd p) = end e) es))
      = map fst (filter (\<lambda>p. end (snd p) = end e) es) @ [i]"
    using assms(3) by (intro js_add_fresh) auto
  then show ?thesis
    using assms(1,2) by (simp add: add_to_index_def get_exact_index)
      (simp add: exact_index_def js_put_map)
qed

lemma exact_index_ensure_key:
  assumes "k \<notin> set ks" and "\<And>p. p \<in> set es \<Longrightarrow> end (snd p) \<noteq> k"
  shows "ensure_key k (exact_index ks end es) = exact_index (ks @ [k]) end es"
proof -
  have "js_keys (exact_index ks end es) = ks" by (simp add: exact_index_def comp_def)
  moreover have "filter (\<lambda>p. end (snd p) = k) es = []" using assms(2) by (simp add: filter_empty_conv)
  ultimately show ?thesis
    using assms(1) by (simp add: ensure_key_def js_has_def get_exact_index js_put_fresh)
      (simp add: exact_index_def)
qed

lemma map_filter_lookup:
  assumes "distinct (js_keys es)"
  shows "List.map_filter (js_get es) (map fst (filter P es)) = map snd (filter P es)"
proof -
  have "List.map_filter (js_get es) (map fst ps) = map snd ps" if "set ps \<subseteq> set es" for ps
    using that assms by (induction ps) (auto simp: List.map_filter_simps js_get_in_set)
  then show ?thesis by (simp add: filter_is_subset)
qed

lemma outgoing_exact:
  assumes wf: "graph_wf g" and ix: "index_exact g"
  shows "get_outgoing_edges g n = filter (\<lambda>e. edge_source e = n) (js_values (g_edges g))"
proof (cases "n \<in> node_ids g")
  case True
  with ix show ?thesis
    using map_filter_lookup [OF graph_wfD(2) [OF wf]]
    by (simp add: get_outgoing_edges_def indexed_edges_def index_exact_def get_exact_index node_ids_def
        filter_map comp_def)
next
  case False
  then have "edge_source e \<noteq> n" if "e \<in> set (js_values (g_edges g))" for e
    using that graph_wfD(6) [OF wf] by (auto simp: edge_ok_def)
  with False ix show ?thesis
    by (auto simp: get_outgoing_edges_def indexed_edges_def index_exact_def get_exact_index node_ids_def
        filter_empty_conv)
qed

lemma succ_rel_exact:
  assumes wf: "graph_wf g" and ix: "index_exact g"
  shows "succ_rel g = edge_pairs g"
proof -
  have "out_targets g n = map edge_target (get_outgoing_edges g n)" for n
  proof -
    have "List.map_filter (\<lambda>i. map_option edge_target (js_get (g_edges g) i)) ids
        = map edge_target (List.map_filter (js_get (g_edges g)) ids)" for ids
      by (induction ids) (auto simp: List.map_filter_simps split: option.split)
    then show ?thesis
      by (simp add: out_targets_def get_outgoing_edges_def indexed_edges_def split: option.split)
  qed
  then show ?thesis
    by (auto simp: succ_rel_def edge_pairs_def outgoing_exact [OF wf ix])
qed

lemma add_node_exact:
  assumes wf: "graph_wf g" and ix: "index_exact g" and ok: "add_node n g = Inr g'"
  shows "index_exact g'"
proof -
  note N = add_node_Inr [OF ok]
  let ?ks = "js_keys (g_nodes g)"
  show ?thesis
  proof (cases "node_id n \<in> set ?ks")
    case True
    then have "ensure_key (node_id n) (g_out g) = g_out g" "ensure_key (node_id n) (g_in g) = g_in g"
      using graph_wfD(3,4) [OF wf] by (simp_all add: ensure_key_def js_has_iff flip: set_map)
    moreover have "js_keys (js_put (node_id n) (with_kind n) (g_nodes g)) = ?ks"
      using True by (simp add: js_keys_put)
    ultimately show ?thesis using ix by (simp add: index_exact_def N(2))
  next
    case False
    have "edge_source (snd p) \<noteq> node_id n \<and> edge_target (snd p) \<noteq> node_id n"
      if "p \<in> set (g_edges g)" for p
      using graph_wfD(6) [OF wf that] False
      by (auto simp: edge_ok_def node_ids_def simp del: set_map)
    with False ix show ?thesis
      by (simp add: index_exact_def N(2) js_keys_put exact_index_ensure_key)
  qed
qed

lemma add_edge_exact:
  assumes wf: "graph_wf g" and ix: "index_exact g" and ok: "add_edge e g = Inr g'"
    and fresh: "\<not> js_has (g_edges g) (edge_id e)"
  shows "index_exact g'"
proof -
  note G = add_edge_guards [OF ok]
  from fresh have "edge_id e \<notin> fst ` set (g_edges g)" by (simp add: js_has_iff)
  then show ?thesis
    using ix G(2,3) graph_wfD(1) [OF wf]
    by (simp add: index_exact_def G(6) add_to_exact_index js_put_fresh node_ids_def)
qed

text \<open>Rebuilding the nodes, then the edges.\<close>

definition graph_of :: "(string, inv_node) js_map \<Rightarrow> (string, inv_edge) js_map \<Rightarrow> string option \<Rightarrow> graph" where
  "graph_of ns es a = \<lparr>g_nodes = ns, g_edges = es,
     g_out = exact_index (js_keys ns) edge_source es,
     g_in = exact_index (js_keys ns) edge_target es, g_active = a\<rparr>"

lemma index_exact_graph_of [simp]: "index_exact (graph_of ns es a)"
  by (simp add: index_exact_def graph_of_def)

lemma index_exact_eq: "index_exact g \<Longrightarrow> g = graph_of (g_nodes g) (g_edges g) (g_active g)"
  by (cases g) (simp add: index_exact_def graph_of_def)

lemma rebuild_nodes:
  assumes "distinct (js_keys ns)" and "\<And>p. p \<in> set ns \<Longrightarrow> node_ok p"
  shows "foldE (\<lambda>g n. add_node n g) empty_graph (js_values ns)
       = Inr (graph_of ns [] (if ns = [] then None else Some (fst (last ns))))"
  using assms
proof (induction ns rule: rev_induct)
  case Nil
  then show ?case by (simp add: empty_graph_def graph_of_def exact_index_def)
next
  case (snoc p ns)
  obtain k n where p: "p = (k, n)" by (cases p)
  from snoc.prems(2) [of p] have n: "node_id n = k" "k \<noteq> []" "with_kind n = n"
    by (auto simp: p node_ok_def with_kind_def)
  from snoc.prems(1) have k: "k \<notin> set (js_keys ns)" by (simp add: p)
  have "foldE (\<lambda>g n. add_node n g) empty_graph (js_values ns)
      = Inr (graph_of ns [] (if ns = [] then None else Some (fst (last ns))))"
    by (rule snoc.IH) (use snoc.prems in auto)
  moreover have "ensure_key k (exact_index (js_keys ns) end []) = exact_index (js_keys ns @ [k]) end []" for "end"
    by (rule exact_index_ensure_key [OF k]) simp
  ultimately show ?case
    using n k by (simp add: foldE_append p add_node_def graph_of_def js_put_fresh)
qed

lemma rebuild_edges:
  assumes "distinct (js_keys ns)" and "distinct (js_keys es)" and "acyclic (edge_pairs (graph_of ns es a))"
    and "\<And>i e. (i, e) \<in> set es \<Longrightarrow>
        edge_id e = i \<and> i \<noteq> [] \<and> edge_source e \<in> set (js_keys ns) \<and> edge_target e \<in> set (js_keys ns)"
    and "\<And>es'. graph_wf (graph_of ns [] a)"
  shows "foldE (\<lambda>g e. add_edge e g) (graph_of ns [] a) (js_values es) = Inr (graph_of ns es a)
       \<and> graph_wf (graph_of ns es a)"
  using assms(2-4)
proof (induction es rule: rev_induct)
  case Nil
  with assms(5) show ?case by simp
next
  case (snoc p es)
  obtain i e where p: "p = (i, e)" by (cases p)
  let ?g = "graph_of ns es a" and ?g' = "graph_of ns (es @ [p]) a"
  have sub: "edge_pairs ?g' = insert (edge_source e, edge_target e) (edge_pairs ?g)"
    by (auto simp: edge_pairs_def graph_of_def p)
  then have acyc: "acyclic (edge_pairs ?g)" using snoc.prems(2) by (auto intro: acyclic_subset)
  have IH: "foldE (\<lambda>g e. add_edge e g) (graph_of ns [] a) (js_values es) = Inr ?g" "graph_wf ?g"
    using snoc.IH snoc.prems(1,3) acyc by auto
  have e: "edge_id e = i" "i \<noteq> []" "edge_source e \<in> set (js_keys ns)" "edge_target e \<in> set (js_keys ns)"
    using snoc.prems(3) [of i e] by (auto simp: p)
  have "(edge_target e, edge_source e) \<notin> (edge_pairs ?g)\<^sup>*"
    using snoc.prems(2) by (simp add: sub acyclic_insert)
  then have nr: "\<not> is_reachable ?g (edge_target e) (edge_source e)"
    by (simp add: is_reachable_iff succ_rel_exact [OF IH(2)])
  moreover have "edge_source e \<noteq> edge_target e" using nr by (auto simp: is_reachable_def)
  moreover have "i \<notin> set (js_keys es)" using snoc.prems(1) by (simp add: p)
  ultimately have "add_edge e ?g = Inr ?g'"
    using e assms(1) by (simp add: add_edge_def js_has_iff graph_of_def p js_put_fresh add_to_exact_index
        flip: set_map)
  then show ?case using IH add_edge_wf [OF IH(2)] by (simp add: foldE_append p)
qed

lemma graph_wf_nodes_only:
  assumes "graph_wf g" and "index_exact g" and "a = (if g_nodes g = [] then None else Some (fst (last (g_nodes g))))"
  shows "graph_wf (graph_of (g_nodes g) [] a)"
proof -
  have "js_keys (exact_index ks end es) = ks" for ks "end" es by (simp add: exact_index_def comp_def)
  moreover have "active_ok (graph_of (g_nodes g) [] a)"
    using assms(3) by (simp add: active_ok_def graph_of_def node_ids_def)
  ultimately show ?thesis
    using graph_wfD(1,5) [OF assms(1)]
    by (simp add: graph_wf_def graph_of_def edge_pairs_def acyclic_def)
qed

text \<open>Histories in which no edge id is used twice.\<close>

fun fresh_edge_op :: "graph \<Rightarrow> graph_op \<Rightarrow> bool" where
  "fresh_edge_op g (AddEdge e) = (\<not> js_has (g_edges g) (edge_id e))"
| "fresh_edge_op g (Connect s t r i) = (\<not> js_has (g_edges g) (edge_id (connect_edge s t r i)))"
| "fresh_edge_op g op = True"

fun fresh_edge_ids :: "graph \<Rightarrow> graph_op list \<Rightarrow> bool" where
  "fresh_edge_ids g [] = True"
| "fresh_edge_ids g (op # ops) = (fresh_edge_op g op \<and> fresh_edge_ids (graph_step g op) ops)"

lemma set_active_exact: "index_exact g \<Longrightarrow> index_exact (snd (set_active_node i g))"
  by (simp add: set_active_node_def index_exact_def)

lemma graph_step_exact:
  assumes "graph_wf g" and "index_exact g" and "fresh_edge_op g op"
  shows "index_exact (graph_step g op)"
proof (cases op)
  case (AddNode n)
  with assms add_node_exact [OF assms(1,2)] show ?thesis
    by (cases "add_node n g") (simp_all add: keep_on_error_def)
next
  case (AddEdge e)
  with assms add_edge_exact [OF assms(1,2)] show ?thesis
    by (cases "add_edge e g") (simp_all add: keep_on_error_def)
next
  case (Connect s t r i)
  with assms add_edge_exact [OF assms(1,2)] show ?thesis
    by (cases "add_edge (connect_edge s t r i) g") (simp_all add: keep_on_error_def connect_def)
next
  case (SetActive i)
  with assms show ?thesis by (simp add: set_active_exact)
next
  case ResetGraph
  then show ?thesis by (simp add: reset_graph_def empty_graph_def index_exact_def exact_index_def)
qed

lemma fresh_run_exact:
  "graph_wf g \<Longrightarrow> index_exact g \<Longrightarrow> fresh_edge_ids g ops \<Longrightarrow> index_exact (run graph_step g ops)"
  by (induction ops arbitrary: g) (simp_all add: graph_step_wf graph_step_exact)

lemma json_roundtrip_exact:
  assumes wf: "graph_wf g" and ix: "index_exact g"
  shows "graph_from_json (graph_to_json g) = Inr g"
proof -
  let ?a = "if g_nodes g = [] then None else Some (fst (last (g_nodes g)))"
  let ?g = "graph_of (g_nodes g) (g_edges g)"
  have g: "g = ?g (g_active g)" by (rule index_exact_eq [OF ix])
  have nodes: "foldE (\<lambda>g n. add_node n g) empty_graph (js_values (g_nodes g)) = Inr (graph_of (g_nodes g) [] ?a)"
    using graph_wfD(1,5) [OF wf] by (rule rebuild_nodes)
  have "foldE (\<lambda>g e. add_edge e g) (graph_of (g_nodes g) [] ?a) (js_values (g_edges g)) = Inr (?g ?a)
      \<and> graph_wf (?g ?a)"
  proof (rule rebuild_edges)
    show "acyclic (edge_pairs (?g ?a))"
      using graph_wfD(7) [OF wf] by (simp add: edge_pairs_def graph_of_def)
    show "edge_id e = i \<and> i \<noteq> [] \<and> edge_source e \<in> set (js_keys (g_nodes g)) \<and>
        edge_target e \<in> set (js_keys (g_nodes g))" if "(i, e) \<in> set (g_edges g)" for i e
      using graph_wfD(6) [OF wf that] by (simp add: edge_ok_def node_ids_def)
    show "graph_wf (graph_of (g_nodes g) [] ?a)" by (rule graph_wf_nodes_only [OF wf ix refl])
  qed (rule graph_wfD(1,2) [OF wf])+
  then have from_json: "graph_from_json (graph_to_json g) = Inr (case g_active g of
      Some a \<Rightarrow> (if a = [] then ?g ?a else snd (set_active_node a (?g ?a))) | None \<Rightarrow> ?g ?a)"
    by (simp add: graph_from_json_def graph_to_json_def nodes)
  show ?thesis
  proof (cases "g_active g")
    case None
    then have "g_nodes g = []" using graph_wfD(8) [OF wf] by (simp add: active_ok_def)
    with None from_json g show ?thesis by simp
  next
    case (Some a)
    then have a: "a \<in> node_ids g" using graph_wfD(8) [OF wf] by (simp add: active_ok_def)
    then obtain n where "(a, n) \<in> set (g_nodes g)" by (auto simp: node_ids_def)
    then have "a \<noteq> []" using graph_wfD(5) [OF wf] by (auto simp: node_ok_def)
    moreover have "js_has (g_nodes g) a" using a by (simp add: js_has_iff node_ids_def)
    ultimately have "graph_from_json (graph_to_json g) = Inr (?g (Some a))"
      using from_json Some by (simp add: set_active_node_def graph_of_def)
    with g Some show ?thesis by simp
  qed
qed

section \<open>Properties\<close>

text \<open>
  C1: whatever nodes are added and whatever edges are attempted, through \<open>addEdge\<close> or
  \<open>connect\<close>, with fresh or reused ids, the stored edges never form a cycle and join stored nodes.
\<close>

theorem graph_stays_acyclic:
  "let g = run graph_step empty_graph ops
   in acyclic (edge_pairs g) \<and> edge_pairs g \<subseteq> node_ids g \<times> node_ids g"
proof -
  let ?g = "run graph_step empty_graph ops"
  have wf: "graph_wf ?g" by (rule graph_machine.run_inv [OF empty_graph_wf])
  have "edge_pairs ?g \<subseteq> node_ids ?g \<times> node_ids ?g"
    using graph_wfD(6) [OF wf] by (auto simp: edge_pairs_def edge_ok_def)
  with graph_wfD(7) [OF wf] show ?thesis by (simp add: Let_def)
qed

text \<open>
  C16: the iterative depth-first search terminates and returns true exactly when a path of
  indexed edges leads from the first node to the second.
\<close>

theorem search_is_reachability: "is_reachable g a b \<longleftrightarrow> (a, b) \<in> (succ_rel g)\<^sup>*"
  by (rule is_reachable_iff)

text \<open>
  C17: after any history in which every edge used a fresh id, \<open>getOutgoingEdges\<close> returns exactly
  the edges that start at the node, in insertion order, and \<open>fromJSON\<close> rebuilds from \<open>toJSON\<close>
  the identical graph: nodes, edges, both indexes and the active node.
\<close>

theorem fresh_history_roundtrip:
  assumes "fresh_edge_ids empty_graph ops"
  shows "let g = run graph_step empty_graph ops
         in graph_from_json (graph_to_json g) = Inr g \<and>
            get_outgoing_edges g n = filter (\<lambda>e. edge_source e = n) (js_values (g_edges g))"
proof -
  let ?g = "run graph_step empty_graph ops"
  have wf: "graph_wf ?g" by (rule graph_machine.run_inv [OF empty_graph_wf])
  have "index_exact empty_graph" by (simp add: empty_graph_def index_exact_def exact_index_def)
  then have ix: "index_exact ?g" using empty_graph_wf assms by (intro fresh_run_exact)
  from json_roundtrip_exact [OF wf ix] outgoing_exact [OF wf ix] show ?thesis by (simp add: Let_def)
qed

definition sample_node :: "string \<Rightarrow> inv_node" where
  "sample_node i = \<lparr>node_id = i, node_kind = None, node_parent = None, node_version = 0,
     node_fingerprint = ''fp'', node_label = i, node_timestamp = 0, node_operation = None,
     node_findings = None, node_meta = []\<rparr>"

definition sample_history :: "graph_op list" where
  "sample_history = [AddNode (sample_node ''a''), AddNode (sample_node ''b''),
     Connect ''a'' ''b'' Motivates None, Connect ''b'' ''a'' Supports None]"

theorem fresh_history_roundtrip_witness:
  "let g = run graph_step empty_graph sample_history
   in graph_from_json (graph_to_json g) = Inr g \<and>
      get_outgoing_edges g ''a'' = filter (\<lambda>e. edge_source e = ''a'') (js_values (g_edges g))"
proof (rule fresh_history_roundtrip)
  show "fresh_edge_ids empty_graph sample_history" by code_simp
qed

text \<open>
  The id \<open>connect\<close> makes up when none is given is ambiguous: with the nodes \<open>a-b\<close>, \<open>c\<close>,
  \<open>a\<close> and \<open>b-c\<close> a second relation replaces the first one without an error, and
  \<open>getOutgoingEdges\<close> of \<open>a-b\<close> then returns an edge that starts at another node.
\<close>

definition clash_history :: "graph_op list" where
  "clash_history = [AddNode (sample_node ''a-b''), AddNode (sample_node ''c''),
     AddNode (sample_node ''a''), AddNode (sample_node ''b-c''),
     Connect ''a-b'' ''c'' Supports None, Connect ''a'' ''b-c'' Supports None]"

theorem default_edge_ids_clash:
  "default_edge_id ''a-b'' ''c'' Supports = default_edge_id ''a'' ''b-c'' Supports \<and>
   (let g = run graph_step empty_graph clash_history
    in length (g_edges g) = 1 \<and>
       map edge_source (get_outgoing_edges g ''a-b'') = [''a''])"
  by code_simp

end
