(* ===== verification/Js_Number.thy ===== *)
theory Js_Number
  imports Js_Prelude Complex_Main
begin

text \<open>
  JavaScript numbers. A value read from outside the program is a \<open>js_number\<close>, which may be NaN or
  infinite. Arithmetic on finite values is IEEE 754 binary64: the exact rational result, rounded
  to the nearest representable value with ties to even (\<open>rnd64\<close>, subnormals included). The
  operations modelled here stay far below the overflow threshold, so a finite result never becomes
  infinite; the sign of zero is not represented.
\<close>

section \<open>Values\<close>

datatype js_number = Fin rat | NaN | PosInf | NegInf

definition max_safe_integer :: int where
  "max_safe_integer = 9007199254740991"

fun is_finite_num :: "js_number \<Rightarrow> bool" where
  "is_finite_num (Fin x) = True"
| "is_finite_num _ = False"

fun is_integer_num :: "js_number \<Rightarrow> bool" where
  "is_integer_num (Fin x) = (of_int \<lfloor>x\<rfloor> = x)"
| "is_integer_num _ = False"

fun is_safe_integer :: "js_number \<Rightarrow> bool" where
  "is_safe_integer (Fin x) = (of_int \<lfloor>x\<rfloor> = x \<and> \<bar>\<lfloor>x\<rfloor>\<bar> \<le> max_safe_integer)"
| "is_safe_integer _ = False"

text \<open>\<open>a < b\<close> and \<open>a <= b\<close>: every comparison with NaN is false.\<close>

fun num_le :: "js_number \<Rightarrow> js_number \<Rightarrow> bool" where
  "num_le (Fin x) (Fin y) = (x \<le> y)"
| "num_le NaN _ = False"
| "num_le _ NaN = False"
| "num_le NegInf _ = True"
| "num_le _ PosInf = True"
| "num_le PosInf _ = False"
| "num_le _ NegInf = False"

fun num_lt :: "js_number \<Rightarrow> js_number \<Rightarrow> bool" where
  "num_lt (Fin x) (Fin y) = (x < y)"
| "num_lt NaN _ = False"
| "num_lt _ NaN = False"
| "num_lt PosInf _ = False"
| "num_lt _ NegInf = False"
| "num_lt NegInf _ = True"
| "num_lt _ PosInf = True"

section \<open>Rounding to binary64\<close>

text \<open>The number of binary digits of a positive integer.\<close>

fun bit_len :: "int \<Rightarrow> int" where
  "bit_len n = (if n \<le> 0 then 0 else 1 + bit_len (n div 2))"

declare bit_len.simps [simp del]

text \<open>The exponent \<open>e\<close> with \<open>2 ^ e \<le> x < 2 ^ (e + 1)\<close>, for positive \<open>x\<close>.\<close>

definition ilog2 :: "rat \<Rightarrow> int" where
  "ilog2 x = (let (p, q) = quotient_of x; k = bit_len p - bit_len q
              in if 2 powi k \<le> x then k else k - 1)"

text \<open>Round to the nearest integer, ties to even.\<close>

definition rne :: "rat \<Rightarrow> int" where
  "rne x = (let f = \<lfloor>x\<rfloor>; d = x - of_int f
            in if d < 1 / 2 then f else if d > 1 / 2 then f + 1 else if even f then f else f + 1)"

definition ulp_exp :: "rat \<Rightarrow> int" where
  "ulp_exp x = max (ilog2 \<bar>x\<bar> - 52) (- 1074)"

definition rnd64 :: "rat \<Rightarrow> rat" where
  "rnd64 x = (if x = 0 then 0 else of_int (rne (x / 2 powi ulp_exp x)) * 2 powi ulp_exp x)"

lemma bit_len_pos: "0 < n \<Longrightarrow> 0 < bit_len n"
proof (induction n rule: bit_len.induct)
  case (1 n)
  show ?case
  proof (cases "n div 2 = 0")
    case True
    with "1.prems" show ?thesis by (simp add: bit_len.simps [of n] bit_len.simps [of 0])
  next
    case False
    with "1.prems" have "0 < n div 2" by linarith
    with "1.IH" "1.prems" show ?thesis by (simp add: bit_len.simps [of n])
  qed
qed

lemma bit_len_bounds:
  "0 < n \<Longrightarrow> 2 powi (bit_len n - 1) \<le> (of_int n :: rat) \<and> (of_int n :: rat) < 2 powi bit_len n"
proof (induction n rule: bit_len.induct)
  case (1 n)
  show ?case
  proof (cases "n = 1")
    case True
    then show ?thesis by (simp add: bit_len.simps [of 1] bit_len.simps [of 0])
  next
    case False
    let ?m = "n div 2"
    have m: "0 < ?m" "2 * ?m \<le> n" "n < 2 * ?m + 2" using "1.prems" False by linarith+
    have len: "bit_len n = 1 + bit_len ?m" using "1.prems" by (simp add: bit_len.simps [of n])
    have IH: "2 powi (bit_len ?m - 1) \<le> (of_int ?m :: rat)" "(of_int ?m :: rat) < 2 powi bit_len ?m"
      using "1.IH" "1.prems" m(1) by simp_all
    have nat: "bit_len ?m = int (nat (bit_len ?m))" using bit_len_pos [OF m(1)] by simp
    have int_bound: "?m + 1 \<le> 2 ^ nat (bit_len ?m)"
    proof -
      have "(of_int ?m :: rat) < of_int (2 ^ nat (bit_len ?m))"
        using IH(2) by (subst (asm) nat) (simp only: power_int_of_nat of_int_power of_int_numeral)
      then show ?thesis by (simp only: of_int_less_iff)
    qed
    have "2 * 2 powi (bit_len ?m - 1) = (2 :: rat) powi (bit_len ?m)"
      by (simp add: power_int_diff)
    then have "2 powi bit_len ?m \<le> (of_int (2 * ?m) :: rat)" using IH(1) by simp
    also have "\<dots> \<le> of_int n" using m(2) by (simp only: of_int_le_iff)
    finally have lower: "2 powi bit_len ?m \<le> (of_int n :: rat)" .
    have "n < 2 * 2 ^ nat (bit_len ?m)" using m(3) int_bound by linarith
    then have "(of_int n :: rat) < of_int (2 * 2 ^ nat (bit_len ?m))" by (simp only: of_int_less_iff)
    also have "\<dots> = 2 * 2 powi bit_len ?m"
      by (subst (2) nat) (simp only: power_int_of_nat of_int_power of_int_mult of_int_numeral)
    finally have "(of_int n :: rat) < 2 * 2 powi bit_len ?m" .
    with lower show ?thesis by (simp add: len power_int_add)
  qed
qed

lemma ilog2_bounds:
  assumes "0 < x"
  shows "2 powi ilog2 x \<le> x" and "x < 2 powi (ilog2 x + 1)"
proof -
  obtain p q where pq: "quotient_of x = (p, q)" by (cases "quotient_of x")
  have q: "0 < q" using quotient_of_denom_pos [OF pq] .
  have x: "x = of_int p / of_int q" using quotient_of_div [OF pq] .
  have p: "0 < p" using assms q by (simp add: x zero_less_divide_iff)
  define k where "k = bit_len p - bit_len q"
  note A = bit_len_bounds [OF p] and B = bit_len_bounds [OF q]
  have "2 powi (k - 1) = (2 powi (bit_len p - 1) :: rat) / 2 powi bit_len q"
    by (simp add: k_def power_int_diff divide_divide_eq_left mult.commute)
  also have "\<dots> \<le> of_int p / of_int q"
    using A B p q by (intro frac_le) auto
  finally have lo: "2 powi (k - 1) \<le> x" by (simp add: x)
  have "of_int p / of_int q < (2 powi bit_len p :: rat) / 2 powi (bit_len q - 1)"
    using A B p q by (intro frac_less) auto
  also have "\<dots> = 2 powi (k + 1)"
    by (simp add: k_def power_int_diff power_int_add algebra_simps)
  finally have hi: "x < 2 powi (k + 1)" by (simp add: x)
  have "ilog2 x = (if 2 powi k \<le> x then k else k - 1)"
    by (simp add: ilog2_def pq Let_def k_def)
  with lo hi show "2 powi ilog2 x \<le> x" "x < 2 powi (ilog2 x + 1)" by (auto split: if_splits)
qed

lemma ilog2_mono:
  assumes "0 < x" and "x \<le> y"
  shows "ilog2 x \<le> ilog2 y"
proof (rule ccontr)
  assume "\<not> ilog2 x \<le> ilog2 y"
  then have "(2 :: rat) powi (ilog2 y + 1) \<le> 2 powi ilog2 x"
    by (intro power_int_increasing) auto
  with ilog2_bounds [of x] ilog2_bounds [of y] assms show False by simp
qed

lemma rne_mono:
  assumes "x \<le> y"
  shows "rne x \<le> rne y"
proof (cases "\<lfloor>x\<rfloor> = \<lfloor>y\<rfloor>")
  case True
  with assms show ?thesis by (auto simp: rne_def Let_def)
next
  case False
  then have less: "\<lfloor>x\<rfloor> + 1 \<le> \<lfloor>y\<rfloor>" using floor_mono [OF assms] by simp
  have "rne x \<le> \<lfloor>x\<rfloor> + 1" and "\<lfloor>y\<rfloor> \<le> rne y" by (auto simp: rne_def Let_def)
  with less show ?thesis by simp
qed

lemma rne_of_int [simp]: "rne (of_int i) = i"
  by (simp add: rne_def Let_def)

lemma rne_uminus: "rne (- x) = - rne x"
proof (cases "x = of_int \<lfloor>x\<rfloor>")
  case True
  then have "rne (- x) = rne (of_int (- \<lfloor>x\<rfloor>))" "rne x = rne (of_int \<lfloor>x\<rfloor>)" by simp_all
  then show ?thesis by (simp only: rne_of_int)
next
  case False
  then have "\<lfloor>- x\<rfloor> = - \<lfloor>x\<rfloor> - 1" by (simp add: floor_minus ceiling_altdef)
  then show ?thesis by (auto simp: rne_def Let_def)
qed

lemma rnd64_uminus: "rnd64 (- x) = - rnd64 x"
  by (simp add: rnd64_def ulp_exp_def rne_uminus)

lemma rnd64_0 [simp]: "rnd64 0 = 0"
  by (simp add: rnd64_def)

lemma rnd64_nonneg: "0 \<le> x \<Longrightarrow> 0 \<le> rnd64 x"
proof -
  assume "0 \<le> x"
  then have "rne 0 \<le> rne (x / 2 powi ulp_exp x)" by (intro rne_mono) simp
  moreover have "rne 0 = 0" using rne_of_int [of 0] by simp
  ultimately show ?thesis by (simp add: rnd64_def)
qed

lemma powi_int_of_int:
  assumes "u \<le> e"
  shows "\<exists>m :: int. (2 :: rat) powi e / 2 powi u = of_int m"
proof -
  have "(2 :: rat) powi e / 2 powi u = 2 powi (e - u)" by (simp add: power_int_diff)
  also have "\<dots> = of_int (2 ^ nat (e - u))" using assms by (simp add: power_int_def)
  finally show ?thesis by blast
qed

lemma rnd64_mono_pos:
  assumes "0 < x" and "x \<le> y"
  shows "rnd64 x \<le> rnd64 y"
proof -
  let ?u = "ulp_exp x" and ?v = "ulp_exp y"
  have pos: "0 < y" using assms by simp
  have uv: "?u \<le> ?v" using ilog2_mono [OF assms] assms pos by (simp add: ulp_exp_def)
  show ?thesis
  proof (cases "?u = ?v")
    case True
    have "rne (x / 2 powi ?u) \<le> rne (y / 2 powi ?u)"
      using assms(2) by (intro rne_mono divide_right_mono) auto
    then show ?thesis using True assms pos by (simp add: rnd64_def)
  next
    case False
    with uv have less: "?u < ?v" by simp
    let ?e = "ilog2 y"
    have v: "?v = ?e - 52" and exp: "ilog2 x + 1 \<le> ?e" and ue: "?u \<le> ?e" and ve: "?v \<le> ?e"
      using less assms pos by (auto simp: ulp_exp_def max_def split: if_splits)
    obtain m where m: "(2 :: rat) powi ?e / 2 powi ?u = of_int m" using powi_int_of_int [OF ue] by blast
    obtain n where n: "(2 :: rat) powi ?e / 2 powi ?v = of_int n" using powi_int_of_int [OF ve] by blast
    have "x \<le> 2 powi ?e"
      using ilog2_bounds(2) [OF assms(1)] power_int_increasing [OF exp, of "2 :: rat"] by simp
    then have "x / 2 powi ?u \<le> of_int m" unfolding m [symmetric] by (intro divide_right_mono) auto
    then have "rne (x / 2 powi ?u) \<le> m" using rne_mono [of _ "of_int m"] by simp
    then have "rnd64 x \<le> of_int m * 2 powi ?u" using assms(1) by (simp add: rnd64_def)
    also have "\<dots> = 2 powi ?e" by (simp add: m [symmetric])
    also have "\<dots> = of_int n * 2 powi ?v" by (simp add: n [symmetric])
    also have "\<dots> \<le> rnd64 y"
    proof -
      have "of_int n \<le> y / 2 powi ?v"
        unfolding n [symmetric] using ilog2_bounds(1) [OF pos] by (intro divide_right_mono) auto
      then have "n \<le> rne (y / 2 powi ?v)" using rne_mono [of "of_int n"] by simp
      then show ?thesis using pos by (simp add: rnd64_def)
    qed
    finally show ?thesis .
  qed
qed

lemma rnd64_mono: "x \<le> y \<Longrightarrow> rnd64 x \<le> rnd64 y"
proof -
  assume le: "x \<le> y"
  consider "0 < x" | "x \<le> 0" "0 \<le> y" | "y < 0" using le by linarith
  then show ?thesis
  proof cases
    case 1
    then show ?thesis using le by (rule rnd64_mono_pos)
  next
    case 2
    have "rnd64 x = - rnd64 (- x)" using rnd64_uminus [of "- x"] by simp
    then show ?thesis using rnd64_nonneg [of "- x"] rnd64_nonneg [of y] 2 by simp
  next
    case 3
    then have "rnd64 (- y) \<le> rnd64 (- x)" using le by (intro rnd64_mono_pos) auto
    then show ?thesis by (simp add: rnd64_uminus)
  qed
qed

lemma rnd64_1 [simp]: "rnd64 1 = 1"
  by code_simp

lemma powi_less_imp: "(2 :: rat) powi a < 2 powi b \<Longrightarrow> a < b"
  using power_int_increasing [of b a "2 :: rat"] by (rule_tac ccontr) simp

lemma rnd64_fix:
  assumes "0 < m" and "m \<le> 2 ^ 53" and "- 1074 \<le> u"
  shows "rnd64 (of_int m * 2 powi u) = of_int m * 2 powi u"
proof -
  let ?y = "of_int m * 2 powi u :: rat"
  have pos: "0 < ?y" using assms(1) by simp
  have exact: "rnd64 ?y = ?y" if i: "\<exists>i :: int. ?y / 2 powi ulp_exp ?y = of_int i"
  proof -
    obtain i :: int where "?y / 2 powi ulp_exp ?y = of_int i" using i by blast
    moreover from this have "?y = of_int i * 2 powi ulp_exp ?y" by (simp add: field_simps)
    ultimately show ?thesis using pos by (simp add: rnd64_def)
  qed
  show ?thesis
  proof (cases "m = 2 ^ 53")
    case False
    then have "(of_int m :: rat) < of_int (2 ^ 53)" using assms(2) by (simp only: of_int_less_iff)
    then have "(of_int m :: rat) * 2 powi u < 2 ^ 53 * 2 powi u" by simp
    also have "\<dots> = 2 powi (u + 53)" by (simp add: power_int_add)
    finally have "(2 :: rat) powi ilog2 ?y < 2 powi (u + 53)"
      using ilog2_bounds(1) [OF pos] by linarith
    then have "ilog2 ?y < u + 53" by (rule powi_less_imp)
    then have "ulp_exp ?y \<le> u" using assms(3) pos by (simp add: ulp_exp_def)
    then obtain i :: int where "(2 :: rat) powi u / 2 powi ulp_exp ?y = of_int i" using powi_int_of_int by blast
    then have "?y / 2 powi ulp_exp ?y = of_int (m * i)"
      by (metis of_int_mult times_divide_eq_right)
    then show ?thesis using exact by blast
  next
    case True
    then have y: "?y = 2 powi (u + 53)" by (simp add: power_int_add)
    have "(2 :: rat) powi ilog2 ?y < 2 powi (u + 54)"
      using ilog2_bounds(1) [OF pos] power_int_strict_increasing [of "u + 53" "u + 54" "2 :: rat"]
      unfolding y by linarith
    then have "ilog2 ?y < u + 54" by (rule powi_less_imp)
    then have "ulp_exp ?y \<le> u + 53" using assms(3) pos by (simp add: ulp_exp_def)
    then obtain i :: int where "(2 :: rat) powi (u + 53) / 2 powi ulp_exp ?y = of_int i"
      using powi_int_of_int by blast
    then show ?thesis using exact y by metis
  qed
qed

lemma rnd64_idem_pos: "0 < x \<Longrightarrow> rnd64 (rnd64 x) = rnd64 x"
proof -
  assume x: "0 < x"
  define m where "m = rne (x / 2 powi ulp_exp x)"
  have r: "rnd64 x = of_int m * 2 powi ulp_exp x" using x by (simp add: rnd64_def m_def)
  have "(0 :: rat) < 2 powi ulp_exp x" by simp
  then have "0 \<le> m" using rnd64_nonneg [of x] x unfolding r by (metis less_le_not_le less_eq_rat_def mult_neg_pos not_le of_int_0_le_iff)
  have "x < 2 powi (ilog2 x + 1)" using ilog2_bounds(2) [OF x] .
  also have "\<dots> \<le> 2 powi (ulp_exp x + 53)" using x by (intro power_int_increasing) (auto simp: ulp_exp_def)
  also have "\<dots> = of_int (2 ^ 53) * 2 powi ulp_exp x" by (simp add: power_int_add)
  finally have "x / 2 powi ulp_exp x \<le> of_int (2 ^ 53)" by (simp add: divide_le_eq)
  then have "m \<le> 2 ^ 53" unfolding m_def using rne_mono rne_of_int by metis
  moreover have "- 1074 \<le> ulp_exp x" by (simp add: ulp_exp_def)
  ultimately show ?thesis using rnd64_fix \<open>0 \<le> m\<close> by (cases "m = 0") (auto simp: r)
qed

lemma rnd64_idem [simp]: "rnd64 (rnd64 x) = rnd64 x"
proof -
  consider "0 < x" | "x = 0" | "0 < - x" by linarith
  then show ?thesis
  proof cases
    case 1
    then show ?thesis by (rule rnd64_idem_pos)
  next
    case 2
    then show ?thesis by simp
  next
    case 3
    from rnd64_idem_pos [OF this] show ?thesis by (simp only: rnd64_uminus neg_equal_iff_equal)
  qed
qed

section \<open>Arithmetic\<close>

definition fadd :: "rat \<Rightarrow> rat \<Rightarrow> rat" where
  "fadd a b = rnd64 (a + b)"

definition fsub :: "rat \<Rightarrow> rat \<Rightarrow> rat" where
  "fsub a b = rnd64 (a - b)"

definition fmul :: "rat \<Rightarrow> rat \<Rightarrow> rat" where
  "fmul a b = rnd64 (a * b)"

definition fdiv :: "rat \<Rightarrow> rat \<Rightarrow> rat" where
  "fdiv a b = rnd64 (a / b)"

text \<open>A decimal literal denotes the representable value nearest to it.\<close>

abbreviation lit :: "rat \<Rightarrow> rat" where
  "lit x \<equiv> rnd64 x"

text \<open>
  What the program relies on of rounding: it is monotone, odd, and exact at 0 and 1. The lemmas
  say what the rounded result of an operation still tells about its operands.
\<close>

locale rounding =
  fixes rnd :: "rat \<Rightarrow> rat"
  assumes rnd_mono: "x \<le> y \<Longrightarrow> rnd x \<le> rnd y"
    and rnd_odd: "rnd (- x) = - rnd x"
    and rnd_0: "rnd 0 = 0"
    and rnd_1: "rnd 1 = 1"
    and rnd_idem: "rnd (rnd x) = rnd x"
begin

lemma rnd_nonneg: "0 \<le> x \<Longrightarrow> 0 \<le> rnd x"
  using rnd_mono [of 0 x] by (simp add: rnd_0)

lemma rnd_le_1: "x \<le> 1 \<Longrightarrow> rnd x \<le> 1"
  using rnd_mono [of x 1] by (simp add: rnd_1)

lemma rnd_pos_imp: "0 < rnd x \<Longrightarrow> 0 < x"
  using rnd_mono [of x 0] by (force simp: rnd_0 not_le)

lemma sub_pos_imp: "0 < rnd (a - b) \<Longrightarrow> b < a"
  using rnd_pos_imp by fastforce

lemma sub_nonneg: "b \<le> a \<Longrightarrow> 0 \<le> rnd (a - b)"
  by (simp add: rnd_nonneg)

lemma sub_mono: "a \<le> a' \<Longrightarrow> b' \<le> b \<Longrightarrow> rnd (a - b) \<le> rnd (a' - b')"
  by (rule rnd_mono) simp

lemma add_nonneg: "0 \<le> a \<Longrightarrow> 0 \<le> b \<Longrightarrow> 0 \<le> rnd (a + b)"
  by (simp add: rnd_nonneg)

lemma mul_unit: "0 \<le> a \<Longrightarrow> a \<le> 1 \<Longrightarrow> 0 \<le> b \<Longrightarrow> b \<le> 1 \<Longrightarrow> 0 \<le> rnd (a * b) \<and> rnd (a * b) \<le> 1"
  by (simp add: rnd_nonneg rnd_le_1 mult_le_one)

lemma div_unit: "0 \<le> a \<Longrightarrow> a \<le> b \<Longrightarrow> 0 < b \<Longrightarrow> 0 \<le> rnd (a / b) \<and> rnd (a / b) \<le> 1"
  by (simp add: rnd_nonneg rnd_le_1)

lemma mul_le_left: "rnd a = a \<Longrightarrow> 0 \<le> a \<Longrightarrow> b \<le> 1 \<Longrightarrow> rnd (a * b) \<le> a"
  using rnd_mono [of "a * b" a] by (simp add: mult_left_le)

text \<open>Adding a term that is not negative to a representable number loses nothing.\<close>

lemma add_ge_left: "rnd a = a \<Longrightarrow> 0 \<le> b \<Longrightarrow> a \<le> rnd (a + b)"
  using rnd_mono [of a "a + b"] by simp

lemma add_ge_right: "rnd b = b \<Longrightarrow> 0 \<le> a \<Longrightarrow> b \<le> rnd (a + b)"
  using rnd_mono [of b "a + b"] by simp

definition sum_from :: "rat \<Rightarrow> rat list \<Rightarrow> rat" where
  "sum_from acc xs = foldl (\<lambda>s x. rnd (s + x)) acc xs"

lemma sum_from_simps [simp]:
  "sum_from acc [] = acc" "sum_from acc (x # xs) = sum_from (rnd (acc + x)) xs"
  by (simp_all add: sum_from_def)

lemma sum_from_mono: "a \<le> a' \<Longrightarrow> list_all2 (\<le>) xs ys \<Longrightarrow> sum_from a xs \<le> sum_from a' ys"
proof (induction xs arbitrary: a a' ys)
  case (Cons x xs)
  then obtain y ys' where "ys = y # ys'" "x \<le> y" "list_all2 (\<le>) xs ys'" by (auto simp: list_all2_Cons1)
  with Cons show ?case by (auto intro!: Cons.IH rnd_mono add_mono)
qed simp

lemma sum_from_ge: "rnd a = a \<Longrightarrow> \<forall>x\<in>set xs. 0 \<le> x \<Longrightarrow> a \<le> sum_from a xs"
proof (induction xs arbitrary: a)
  case (Cons x xs)
  then have "a \<le> rnd (a + x)" "rnd (a + x) \<le> sum_from (rnd (a + x)) xs"
    by (auto intro!: add_ge_left Cons.IH simp: rnd_idem)
  then show ?case by simp
qed simp

text \<open>A rounded sum of terms that are not negative is at least every representable term.\<close>

lemma sum_from_ge_term:
  "0 \<le> a \<Longrightarrow> \<forall>x\<in>set xs. 0 \<le> x \<Longrightarrow> x \<in> set xs \<Longrightarrow> rnd x = x \<Longrightarrow> x \<le> sum_from a xs"
proof (induction xs arbitrary: a)
  case (Cons y ys)
  have nonneg: "0 \<le> rnd (a + y)" using Cons.prems by (simp add: rnd_nonneg)
  show ?case
  proof (cases "x = y")
    case True
    then have "x \<le> rnd (a + y)" using Cons.prems by (simp add: add_ge_right)
    also have "\<dots> \<le> sum_from (rnd (a + y)) ys" using Cons.prems by (intro sum_from_ge) (simp_all add: rnd_idem)
    finally show ?thesis by simp
  next
    case False
    then show ?thesis using Cons nonneg by simp
  qed
qed simp

end

interpretation f64: rounding rnd64
  by unfold_locales (simp_all add: rnd64_mono rnd64_uminus)

lemmas float_defs = fadd_def fsub_def fmul_def fdiv_def

definition clamp01 :: "rat \<Rightarrow> rat" where
  "clamp01 x = max 0 (min 1 x)"

lemma clamp01_range [simp]: "0 \<le> clamp01 x" "clamp01 x \<le> 1"
  by (simp_all add: clamp01_def)

lemma clamp01_id: "0 \<le> x \<Longrightarrow> x \<le> 1 \<Longrightarrow> clamp01 x = x"
  by (simp add: clamp01_def)

section \<open>The error of a rounding\<close>

definition round_error :: rat where
  "round_error = 1 / 4503599627370496"

lemma rne_error: "\<bar>of_int (rne y) - y\<bar> \<le> 1 / 2"
proof -
  define f :: rat where "f = of_int \<lfloor>y\<rfloor>"
  have "f \<le> y" "y < f + 1" using floor_correct [of y] by (simp_all add: f_def)
  moreover have "of_int (rne y) = (if y - f < 1 / 2 then f else if y - f > 1 / 2 then f + 1
      else if even \<lfloor>y\<rfloor> then f else f + 1)"
    by (simp add: rne_def Let_def f_def)
  ultimately show ?thesis by (auto split: if_splits)
qed

lemma rnd64_error:
  assumes "\<bar>x\<bar> \<le> 2"
  shows "\<bar>rnd64 x - x\<bar> \<le> round_error"
proof (cases "x = 0")
  case True
  then show ?thesis by (simp add: round_error_def)
next
  case False
  let ?u = "ulp_exp x"
  have pos: "0 < \<bar>x\<bar>" using False by simp
  have "(2 :: rat) powi ilog2 \<bar>x\<bar> \<le> 2" using ilog2_bounds(1) [OF pos] assms by linarith
  then have "(2 :: rat) powi ilog2 \<bar>x\<bar> < 2 powi 2" by simp
  then have "ilog2 \<bar>x\<bar> < 2" by (rule powi_less_imp)
  then have "?u \<le> - 51" by (simp add: ulp_exp_def)
  then have u: "(2 :: rat) powi ?u \<le> 2 powi (- 51)" by (intro power_int_increasing) simp_all
  have "rnd64 x - x = (of_int (rne (x / 2 powi ?u)) - x / 2 powi ?u) * 2 powi ?u"
    using False by (simp add: rnd64_def algebra_simps)
  then have "\<bar>rnd64 x - x\<bar> = \<bar>of_int (rne (x / 2 powi ?u)) - x / 2 powi ?u\<bar> * 2 powi ?u"
    by (simp add: abs_mult)
  also have "\<dots> \<le> 1 / 2 * 2 powi (- 51)"
    using rne_error u by (intro mult_mono) simp_all
  also have "\<dots> = round_error" by (simp add: round_error_def power_int_minus)
  finally show ?thesis .
qed

text \<open>The error of a short rounded sum whose exact value is known to be small.\<close>

lemma sum_from_error:
  assumes "\<bar>acc - r\<bar> \<le> of_nat k * round_error" and "0 \<le> r" and "\<forall>x\<in>set xs. 0 \<le> x"
    and "r + sum_list xs \<le> 3 / 2" and "k + length xs \<le> 100"
  shows "\<bar>f64.sum_from acc xs - (r + sum_list xs)\<bar> \<le> of_nat (k + length xs) * round_error"
  using assms
proof (induction xs arbitrary: acc r k)
  case (Cons x xs)
  have nonneg: "0 \<le> sum_list xs" using Cons.prems(3) by (simp add: sum_list_nonneg)
  have "of_nat k * round_error \<le> 100 * round_error"
    using Cons.prems(5) by (intro mult_right_mono) (simp_all add: round_error_def)
  then have small: "of_nat k * round_error \<le> 1 / 4" by (simp add: round_error_def)
  have "\<bar>acc + x\<bar> \<le> 2"
    using Cons.prems(1,2,3,4) nonneg small by (simp add: abs_le_iff)
  then have "\<bar>rnd64 (acc + x) - (acc + x)\<bar> \<le> round_error" by (rule rnd64_error)
  then have "\<bar>rnd64 (acc + x) - (r + x)\<bar> \<le> of_nat (Suc k) * round_error"
    using Cons.prems(1) by (simp add: algebra_simps)
  then have "\<bar>f64.sum_from (rnd64 (acc + x)) xs - ((r + x) + sum_list xs)\<bar> \<le> of_nat (Suc k + length xs) * round_error"
    using Cons.prems by (intro Cons.IH) simp_all
  then show ?case by (simp add: algebra_simps)
qed simp

lemma rnd64_lt_2: "rnd64 x < 2 \<Longrightarrow> x < 2"
proof (rule ccontr)
  assume "rnd64 x < 2" and "\<not> x < 2"
  then have "rnd64 2 \<le> rnd64 x" by (intro rnd64_mono) simp
  moreover have "rnd64 2 = 2" by code_simp
  ultimately show False using \<open>rnd64 x < 2\<close> by simp
qed

lemma sum_from_error_result:
  assumes "0 \<le> acc" and "rnd64 acc = acc" and "\<forall>x\<in>set xs. 0 \<le> x" and "f64.sum_from acc xs < 2"
  shows "\<bar>f64.sum_from acc xs - (acc + sum_list xs)\<bar> \<le> of_nat (length xs) * round_error"
  using assms
proof (induction xs arbitrary: acc)
  case (Cons x xs)
  have "rnd64 (acc + x) \<le> f64.sum_from (rnd64 (acc + x)) xs"
    using Cons.prems(3) by (intro f64.sum_from_ge) simp_all
  then have "rnd64 (acc + x) < 2" using Cons.prems(4) by simp
  then have "acc + x < 2" by (rule rnd64_lt_2)
  then have "\<bar>rnd64 (acc + x) - (acc + x)\<bar> \<le> round_error"
    using Cons.prems(1,3) by (intro rnd64_error) simp
  moreover have "\<bar>f64.sum_from (rnd64 (acc + x)) xs - (rnd64 (acc + x) + sum_list xs)\<bar> \<le> of_nat (length xs) * round_error"
    using Cons.prems by (intro Cons.IH) (simp_all add: rnd64_nonneg)
  ultimately show ?case by (simp add: algebra_simps)
qed simp

end
