(* ===== verification/Keyed_Store.thy ===== *)
theory Keyed_Store
  imports Js_Prelude
begin

text \<open>
  The contract shared by the program's durable collections (discovery episodes, infeasible
  outcomes): a Map from each record's own id to the record, filled only with records that passed
  validation, and restored from a snapshot only as a whole. The lemmas of the locale hold for every
  store that keeps the contract; \<open>Discovery_Episode\<close> and \<open>Moneta_Nil\<close> interpret it.
\<close>

definition keyed :: "('r \<Rightarrow> 'k) \<Rightarrow> 'r list \<Rightarrow> ('k, 'r) js_map" where
  "keyed key rs = map (\<lambda>r. (key r, r)) rs"

definition store_ok :: "('r \<Rightarrow> 'k) \<Rightarrow> ('r \<Rightarrow> bool) \<Rightarrow> ('k, 'r) js_map \<Rightarrow> bool" where
  "store_ok key valid m \<longleftrightarrow>
     distinct (js_keys m) \<and> (\<forall>p \<in> set m. key (snd p) = fst p \<and> valid (snd p))"

lemma store_ok_Nil [simp]: "store_ok key valid []"
  by (simp add: store_ok_def)

lemma store_ok_put:
  assumes "store_ok key valid m" and "valid r"
  shows "store_ok key valid (js_put (key r) r m)"
  using assms in_js_put [of _ "key r" r m]
  by (fastforce simp: store_ok_def intro: distinct_put)

lemma js_keys_keyed: "js_keys (keyed key rs) = map key rs"
  by (simp add: keyed_def)

lemma keyed_values:
  assumes "store_ok key valid m"
  shows "keyed key (js_values m) = m" and "map key (js_values m) = js_keys m"
proof -
  have "(key (snd p), snd p) = p" if "p \<in> set m" for p
    using assms that by (cases p) (auto simp: store_ok_def)
  then have "map (\<lambda>p. (key (snd p), snd p)) m = m" by (intro map_idI) auto
  then show "keyed key (js_values m) = m" by (simp add: keyed_def comp_def)
  show "map key (js_values m) = js_keys m"
    using assms by (auto simp: store_ok_def)
qed

lemma store_ok_get:
  assumes "store_ok key valid m" and "js_get m k = Some r"
  shows "key r = k" and "valid r"
  using assms map_of_SomeD [OF assms(2)] by (auto simp: store_ok_def)

locale keyed_store =
  fixes key :: "'r \<Rightarrow> 'k"
    and valid :: "'r \<Rightarrow> bool"
    and record_op :: "'r \<Rightarrow> ('k, 'r) js_map \<Rightarrow> 'e + ('k, 'r) js_map"
    and restore_op :: "'r list \<Rightarrow> 'e + ('k, 'r) js_map"
  assumes record_Inr: "record_op r m = Inr m' \<longleftrightarrow> valid r \<and> \<not> js_has m (key r) \<and> m' = js_put (key r) r m"
    and restore_Inr: "restore_op rs = Inr m \<longleftrightarrow>
      (\<forall>r \<in> set rs. valid r) \<and> distinct (map key rs) \<and> m = keyed key rs"
begin

lemma record_keeps_ok: "store_ok key valid m \<Longrightarrow> record_op r m = Inr m' \<Longrightarrow> store_ok key valid m'"
  by (auto simp: record_Inr store_ok_put)

lemma record_appends: "record_op r m = Inr m' \<Longrightarrow> m' = m @ [(key r, r)]"
  by (simp add: record_Inr js_has_iff js_put_fresh)

lemma record_lookup:
  "record_op r m = Inr m' \<Longrightarrow> js_get m' k = (if k = key r then Some r else js_get m k)"
  by (simp add: record_Inr js_get_put)

lemma restore_ok: "restore_op rs = Inr m \<Longrightarrow> store_ok key valid m"
  by (auto simp: restore_Inr store_ok_def keyed_def comp_def)

lemma restore_snapshot:
  assumes "store_ok key valid m"
  shows "restore_op (js_values m) = Inr m"
  using assms unfolding restore_Inr keyed_values [OF assms] by (auto simp: store_ok_def)

lemma restore_Inl:
  assumes "restore_op rs = Inl e"
  shows "(\<exists>r \<in> set rs. \<not> valid r) \<or> \<not> distinct (map key rs)"
  using restore_Inr [of rs "keyed key rs"] assms by auto

end

text \<open>A store whose records may also be replaced under the same id.\<close>

locale replaceable_store = keyed_store +
  fixes replace_op :: "'b \<Rightarrow> ('a, 'b) js_map \<Rightarrow> 'c + ('a, 'b) js_map"
  assumes replace_Inr: "replace_op r m = Inr m' \<longleftrightarrow> valid r \<and> js_has m (key r) \<and> m' = js_put (key r) r m"
begin

lemma replace_keeps_ok: "store_ok key valid m \<Longrightarrow> replace_op r m = Inr m' \<Longrightarrow> store_ok key valid m'"
  by (auto simp: replace_Inr store_ok_put)

lemma replace_keeps_keys: "replace_op r m = Inr m' \<Longrightarrow> js_keys m' = js_keys m"
  by (simp add: replace_Inr js_has_iff js_keys_put)

lemma replace_lookup:
  "replace_op r m = Inr m' \<Longrightarrow> js_get m' k = (if k = key r then Some r else js_get m k)"
  by (simp add: replace_Inr js_get_put)

end

text \<open>
  The body both stores share: a loop that validates, rejects a repeated id and collects into a
  fresh Map has the whole-snapshot behaviour the contract asks for.
\<close>

lemma foldE_collect:
  assumes body: "\<And>m r m'. f m r = Inr m' \<longleftrightarrow> valid r \<and> \<not> js_has m (key r) \<and> m' = js_put (key r) r m"
    and dist: "distinct (js_keys m0)"
  shows "foldE f m0 rs = Inr m \<longleftrightarrow>
    (\<forall>r \<in> set rs. valid r) \<and> distinct (js_keys m0 @ map key rs) \<and> m = m0 @ keyed key rs"
  using dist
proof (induction rs arbitrary: m0)
  case Nil
  then show ?case by (auto simp: keyed_def)
next
  case (Cons r rs)
  let ?ok = "valid r \<and> \<not> js_has m0 (key r)"
  have step: "f m0 r = Inr m1 \<longleftrightarrow> ?ok \<and> m1 = m0 @ [(key r, r)]" for m1
    using body by (auto simp: js_has_iff js_put_fresh)
  show ?case
  proof (cases ?ok)
    case True
    then have d: "distinct (js_keys (m0 @ [(key r, r)]))" using Cons.prems by (simp add: js_has_iff)
    from True step have "f m0 r = Inr (m0 @ [(key r, r)])" by blast
    then have "foldE f m0 (r # rs) = foldE f (m0 @ [(key r, r)]) rs" by simp
    then show ?thesis using Cons.IH [OF d] True by (auto simp: keyed_def)
  next
    case False
    then have "foldE f m0 (r # rs) \<noteq> Inr m" using step by (auto simp: bindE_Inr_iff)
    then show ?thesis using False by (auto simp: js_has_iff)
  qed
qed

end
