(* ===== verification/Discovery_Episode.thy ===== *)
theory Discovery_Episode
  imports Js_Number Keyed_Store
begin

text \<open>
  Discovery episodes: the record and its validator (\<open>src/investigation/DiscoveryEpisode.ts\<close>) and
  the durable collection of them (\<open>src/investigation/DiscoveryEpisodeStore.ts\<close>). The lemmas show
  that the validator's loop accepts exactly the episodes described declaratively by
  \<open>episode_ok\<close>, and that the store keeps the contract of \<open>Keyed_Store\<close>.
\<close>

section \<open>Data\<close>

datatype validation_status =
  Untested | UnderInvestigation | Supported | Refuted | Inconclusive | ExternallyValidated

datatype test_outcome = SupportsHypothesis | RefutesHypothesis | InconclusiveTest

record analytical_test =
  test_id :: string
  test_method :: string
  test_evidence :: "string list"
  test_result :: test_outcome
  test_note :: "string option"

text \<open>\<open>fitnessModelArtifactHash\<close> may be absent, null or a string: \<open>None\<close>, \<open>Some None\<close>, \<open>Some (Some h)\<close>.\<close>

record representation_context =
  rc_graph_id :: "string option"
  rc_decision_id :: "string option"
  rc_model_version :: "string option"
  rc_artifact_hash :: "string option option"
  rc_decision_fingerprint :: "string option"
  rc_decision_evidence :: "string list option"
  rc_ontology_version :: "string option"

record researcher_judgement =
  rj_relevance :: "js_number option"
  rj_novelty :: "js_number option"
  rj_confidence :: "js_number option"
  rj_rationale :: "string option"

record episode_provenance =
  ep_fingerprint :: string
  ep_version :: "js_number option"
  ep_kernel :: string
  ep_investigation :: string
  ep_language :: "string option"
  ep_seeds :: "(string, js_number) js_map"

record episode =
  e_schema :: string
  e_id :: string
  e_investigation :: string
  e_notice :: string
  e_question :: "string option"
  e_hypothesis :: "string option"
  e_path :: "string list"
  e_tests :: "analytical_test list"
  e_evidence :: "string list"
  e_conclusion :: "string option"
  e_status :: validation_status
  e_context :: representation_context
  e_judgement :: "researcher_judgement option"
  e_provenance :: episode_provenance

type_synonym issue = "string \<times> string"

definition episode_schema_version :: string where
  "episode_schema_version = ''1.0.0''"

section \<open>Validation\<close>

fun terminal_status :: "validation_status \<Rightarrow> bool" where
  "terminal_status Supported = True"
| "terminal_status Refuted = True"
| "terminal_status Inconclusive = True"
| "terminal_status ExternallyValidated = True"
| "terminal_status _ = False"

definition non_empty :: "string \<Rightarrow> bool" where
  "non_empty s \<longleftrightarrow> js_trim s \<noteq> []"

fun non_empty_opt :: "string option \<Rightarrow> bool" where
  "non_empty_opt None = False"
| "non_empty_opt (Some s) = non_empty s"

fun unit_score :: "js_number option \<Rightarrow> bool" where
  "unit_score None = True"
| "unit_score (Some v) = (is_finite_num v \<and> num_le (Fin 0) v \<and> num_le v (Fin 1))"

definition issue_if :: "bool \<Rightarrow> string \<Rightarrow> string \<Rightarrow> issue list" where
  "issue_if bad path msg = (if bad then [(path, msg)] else [])"

lemma issue_if_Nil [simp]: "issue_if bad path msg = [] \<longleftrightarrow> \<not> bad"
  by (simp add: issue_if_def)

text \<open>The loop over the analytical tests, with the ids seen so far.\<close>

fun test_issues :: "nat \<Rightarrow> string js_set \<Rightarrow> analytical_test list \<Rightarrow> issue list" where
  "test_issues i seen [] = []"
| "test_issues i seen (t # ts) =
     (let path = ''analyticalTests['' @ show_nat i @ '']'';
          id_issues =
            (if \<not> non_empty (test_id t) then [(path @ ''.id'', ''must be non-empty'')]
             else if test_id t \<in> set seen
               then [(path @ ''.id'', ''duplicate analytical test id: '' @ test_id t)]
             else []);
          seen' = (if non_empty (test_id t) then js_add (test_id t) seen else seen)
      in id_issues
         @ issue_if (\<not> non_empty (test_method t)) (path @ ''.method'') ''must be non-empty''
         @ issue_if (test_evidence t = []) (path @ ''.evidenceIds'') ''analytical tests must cite evidence''
         @ test_issues (Suc i) seen' ts)"

definition judgement_issues :: "researcher_judgement option \<Rightarrow> issue list" where
  "judgement_issues j = (case j of None \<Rightarrow> [] | Some r \<Rightarrow>
     issue_if (\<not> unit_score (rj_relevance r)) ''researcherJudgement.relevance'' ''must be between 0 and 1''
     @ issue_if (\<not> unit_score (rj_novelty r)) ''researcherJudgement.novelty'' ''must be between 0 and 1''
     @ issue_if (\<not> unit_score (rj_confidence r)) ''researcherJudgement.confidence'' ''must be between 0 and 1'')"

definition present_but_empty :: "string option \<Rightarrow> bool" where
  "present_but_empty v \<longleftrightarrow> (\<exists>s. v = Some s \<and> \<not> non_empty s)"

lemma present_but_empty_code [code]:
  "present_but_empty v = (case v of None \<Rightarrow> False | Some s \<Rightarrow> \<not> non_empty s)"
  by (auto simp: present_but_empty_def split: option.split)

definition context_issues :: "representation_context \<Rightarrow> issue list" where
  "context_issues c =
     issue_if (present_but_empty (rc_decision_id c))
       ''representationContext.representationDecisionId'' ''must be non-empty when present''
     @ issue_if (present_but_empty (rc_model_version c))
       ''representationContext.fitnessModelVersion'' ''must be non-empty when present''
     @ issue_if (case rc_artifact_hash c of None \<Rightarrow> False | Some h \<Rightarrow> present_but_empty h)
       ''representationContext.fitnessModelArtifactHash'' ''must be non-empty when present''
     @ issue_if (present_but_empty (rc_decision_fingerprint c))
       ''representationContext.decisionDatasetFingerprint'' ''must be non-empty when present''
     @ issue_if (case rc_decision_evidence c of None \<Rightarrow> False | Some ids \<Rightarrow> \<exists>i \<in> set ids. \<not> non_empty i)
       ''representationContext.decisionEvidenceIds'' ''must contain only non-empty ids''"

definition provenance_issues :: "episode_provenance \<Rightarrow> issue list" where
  "provenance_issues p =
     issue_if (\<not> non_empty (ep_fingerprint p)) ''provenance.datasetFingerprint'' ''must be non-empty''
     @ issue_if (case ep_version p of None \<Rightarrow> False
                 | Some v \<Rightarrow> \<not> is_integer_num v \<or> num_lt v (Fin 0))
       ''provenance.datasetVersion'' ''must be a non-negative integer when present''
     @ issue_if (\<not> non_empty (ep_kernel p)) ''provenance.kernelVersion'' ''must be non-empty''
     @ issue_if (\<not> non_empty (ep_investigation p)) ''provenance.investigationVersion'' ''must be non-empty''"

definition validate_episode :: "episode \<Rightarrow> issue list" where
  "validate_episode e =
     issue_if (e_schema e \<noteq> episode_schema_version) ''schemaVersion''
       (''unsupported schema version: '' @ e_schema e)
     @ issue_if (\<not> non_empty (e_id e)) ''discoveryId'' ''must be non-empty''
     @ issue_if (\<not> non_empty (e_investigation e)) ''investigationId'' ''must be non-empty''
     @ issue_if (\<not> non_empty (e_notice e)) ''notice'' ''must be non-empty''
     @ issue_if (e_status e \<noteq> Untested \<and> \<not> non_empty_opt (e_hypothesis e)) ''hypothesis''
       ''a hypothesis is required once an episode enters investigation or validation''
     @ issue_if (terminal_status (e_status e) \<and> e_tests e = []) ''analyticalTests''
       ''terminal validation states require at least one analytical test''
     @ issue_if (terminal_status (e_status e) \<and> \<not> non_empty_opt (e_conclusion e)) ''conclusion''
       ''terminal validation states require a conclusion''
     @ test_issues 0 [] (e_tests e)
     @ judgement_issues (e_judgement e)
     @ context_issues (e_context e)
     @ provenance_issues (e_provenance e)"

definition assert_episode :: "episode \<Rightarrow> issue list + unit" where
  "assert_episode e = (let is = validate_episode e in if is \<noteq> [] then Inl is else Inr ())"

section \<open>The store\<close>

datatype store_error =
  InvalidEpisode "issue list" | EpisodeExists string | UnknownEpisode string
  | UnsupportedStoreSchema string | DuplicateInSnapshot string

type_synonym episode_store = "(string, episode) js_map"

record store_snapshot =
  snap_schema :: string
  snap_episodes :: "episode list"

definition store_schema_version :: string where
  "store_schema_version = ''1.0.0''"

text \<open>\<open>structuredClone\<close> copies a value; on immutable values it is the identity.\<close>

definition check_episode :: "episode \<Rightarrow> store_error + unit" where
  "check_episode e = (case assert_episode e of Inl is \<Rightarrow> Inl (InvalidEpisode is) | Inr u \<Rightarrow> Inr u)"

definition store_all :: "episode_store \<Rightarrow> episode list" where
  "store_all m = js_values m"

definition store_get :: "episode_store \<Rightarrow> string \<Rightarrow> episode option" where
  "store_get m i = js_get m i"

definition store_record :: "episode \<Rightarrow> episode_store \<Rightarrow> store_error + episode_store" where
  "store_record e m = bindE (check_episode e) (\<lambda>_.
     if js_has m (e_id e) then Inl (EpisodeExists (e_id e)) else Inr (js_put (e_id e) e m))"

definition store_replace :: "episode \<Rightarrow> episode_store \<Rightarrow> store_error + episode_store" where
  "store_replace e m = bindE (check_episode e) (\<lambda>_.
     if \<not> js_has m (e_id e) then Inl (UnknownEpisode (e_id e)) else Inr (js_put (e_id e) e m))"

definition store_reset :: "episode_store \<Rightarrow> episode_store" where
  "store_reset m = []"

definition store_to_json :: "episode_store \<Rightarrow> store_snapshot" where
  "store_to_json m = \<lparr>snap_schema = store_schema_version, snap_episodes = store_all m\<rparr>"

definition collect_episode :: "episode_store \<Rightarrow> episode \<Rightarrow> store_error + episode_store" where
  "collect_episode next e = bindE (check_episode e) (\<lambda>_.
     if js_has next (e_id e) then Inl (DuplicateInSnapshot (e_id e)) else Inr (js_put (e_id e) e next))"

definition store_restore :: "store_snapshot \<Rightarrow> episode_store \<Rightarrow> store_error + episode_store" where
  "store_restore s m =
     (if snap_schema s \<noteq> store_schema_version then Inl (UnsupportedStoreSchema (snap_schema s))
      else foldE collect_episode [] (snap_episodes s))"

section \<open>What the validator accepts\<close>

text \<open>The episodes the store may hold, stated without the loop or the issue list.\<close>

definition tests_ok :: "analytical_test list \<Rightarrow> bool" where
  "tests_ok ts \<longleftrightarrow> distinct (map test_id ts) \<and>
     (\<forall>t \<in> set ts. non_empty (test_id t) \<and> non_empty (test_method t) \<and> test_evidence t \<noteq> [])"

definition judgement_ok :: "researcher_judgement option \<Rightarrow> bool" where
  "judgement_ok j \<longleftrightarrow> (\<forall>r. j = Some r \<longrightarrow>
     unit_score (rj_relevance r) \<and> unit_score (rj_novelty r) \<and> unit_score (rj_confidence r))"

definition context_ok :: "representation_context \<Rightarrow> bool" where
  "context_ok c \<longleftrightarrow>
     (\<forall>s. rc_decision_id c = Some s \<longrightarrow> non_empty s) \<and>
     (\<forall>s. rc_model_version c = Some s \<longrightarrow> non_empty s) \<and>
     (\<forall>s. rc_artifact_hash c = Some (Some s) \<longrightarrow> non_empty s) \<and>
     (\<forall>s. rc_decision_fingerprint c = Some s \<longrightarrow> non_empty s) \<and>
     (\<forall>ids. rc_decision_evidence c = Some ids \<longrightarrow> (\<forall>i \<in> set ids. non_empty i))"

definition provenance_ok :: "episode_provenance \<Rightarrow> bool" where
  "provenance_ok p \<longleftrightarrow>
     non_empty (ep_fingerprint p) \<and> non_empty (ep_kernel p) \<and> non_empty (ep_investigation p) \<and>
     (\<forall>v. ep_version p = Some v \<longrightarrow> (\<exists>n. v = Fin (of_nat n)))"

definition episode_lifecycle_ok :: "episode \<Rightarrow> bool" where
  "episode_lifecycle_ok e \<longleftrightarrow>
     (case e_status e of
        Untested \<Rightarrow> True
      | UnderInvestigation \<Rightarrow> non_empty_opt (e_hypothesis e)
      | _ \<Rightarrow> non_empty_opt (e_hypothesis e) \<and> non_empty_opt (e_conclusion e) \<and> e_tests e \<noteq> [])"

definition episode_ok :: "episode \<Rightarrow> bool" where
  "episode_ok e \<longleftrightarrow>
     e_schema e = episode_schema_version \<and> non_empty (e_id e) \<and> non_empty (e_investigation e) \<and>
     non_empty (e_notice e) \<and> episode_lifecycle_ok e \<and> tests_ok (e_tests e) \<and> judgement_ok (e_judgement e) \<and>
     context_ok (e_context e) \<and> provenance_ok (e_provenance e)"

lemma non_empty_Nil [simp]: "\<not> non_empty []"
  by (simp add: non_empty_def)

lemma test_issues_Nil_iff:
  "test_issues i seen ts = [] \<longleftrightarrow>
     (\<forall>t \<in> set ts. non_empty (test_id t) \<and> non_empty (test_method t) \<and> test_evidence t \<noteq> []) \<and>
     distinct (map test_id ts) \<and> set (map test_id ts) \<inter> set seen = {}"
  by (induction ts arbitrary: i seen) (auto simp: Let_def)

lemma judgement_issues_Nil_iff: "judgement_issues j = [] \<longleftrightarrow> judgement_ok j"
  by (simp add: judgement_issues_def judgement_ok_def split: option.split)

lemma context_issues_Nil_iff: "context_issues c = [] \<longleftrightarrow> context_ok c"
  by (auto simp: context_issues_def context_ok_def present_but_empty_def split: option.split)

lemma nat_valued_num:
  "is_integer_num v \<and> \<not> num_lt v (Fin 0) \<longleftrightarrow> (\<exists>n. v = Fin (of_nat n))"
proof
  assume v: "is_integer_num v \<and> \<not> num_lt v (Fin 0)"
  then obtain x where x: "v = Fin x" "of_int \<lfloor>x\<rfloor> = x" "0 \<le> x" by (cases v) auto
  then have "0 \<le> \<lfloor>x\<rfloor>" by simp
  with x(2) have "x = of_nat (nat \<lfloor>x\<rfloor>)" by (metis of_int_of_nat_eq of_nat_nat)
  with x(1) show "\<exists>n. v = Fin (of_nat n)" by blast
qed auto

lemma provenance_issues_Nil_iff: "provenance_issues p = [] \<longleftrightarrow> provenance_ok p"
proof -
  have "(case ep_version p of None \<Rightarrow> False | Some v \<Rightarrow> \<not> is_integer_num v \<or> num_lt v (Fin 0))
      \<longleftrightarrow> \<not> (\<forall>v. ep_version p = Some v \<longrightarrow> (\<exists>n. v = Fin (of_nat n)))"
    by (cases "ep_version p") (auto simp flip: nat_valued_num)
  then show ?thesis by (simp add: provenance_issues_def provenance_ok_def) blast
qed

lemma lifecycle_issues_iff:
  "episode_lifecycle_ok e \<longleftrightarrow>
     (e_status e = Untested \<or> non_empty_opt (e_hypothesis e)) \<and>
     (terminal_status (e_status e) \<longrightarrow> e_tests e \<noteq> []) \<and>
     (terminal_status (e_status e) \<longrightarrow> non_empty_opt (e_conclusion e))"
  by (cases "e_status e") (auto simp: episode_lifecycle_ok_def)

lemma validate_episode_Nil_iff: "validate_episode e = [] \<longleftrightarrow> episode_ok e"
  by (simp add: validate_episode_def episode_ok_def test_issues_Nil_iff judgement_issues_Nil_iff
      context_issues_Nil_iff provenance_issues_Nil_iff lifecycle_issues_iff tests_ok_def) blast

lemma check_episode_Inr_iff [simp]: "check_episode e = Inr u \<longleftrightarrow> episode_ok e"
  by (auto simp: check_episode_def assert_episode_def Let_def validate_episode_Nil_iff)

section \<open>The store keeps its contract\<close>

definition restore_episodes :: "episode list \<Rightarrow> store_error + episode_store" where
  "restore_episodes es = foldE collect_episode [] es"

lemma store_record_Inr:
  "store_record e m = Inr m' \<longleftrightarrow> episode_ok e \<and> \<not> js_has m (e_id e) \<and> m' = js_put (e_id e) e m"
  by (auto simp: store_record_def bindE_Inr_iff)

lemma store_replace_Inr:
  "store_replace e m = Inr m' \<longleftrightarrow> episode_ok e \<and> js_has m (e_id e) \<and> m' = js_put (e_id e) e m"
  by (auto simp: store_replace_def bindE_Inr_iff)

lemma collect_episode_Inr:
  "collect_episode m e = Inr m' \<longleftrightarrow> episode_ok e \<and> \<not> js_has m (e_id e) \<and> m' = js_put (e_id e) e m"
  by (auto simp: collect_episode_def bindE_Inr_iff)

interpretation episodes: replaceable_store e_id episode_ok store_record restore_episodes store_replace
proof
  show "restore_episodes rs = Inr m \<longleftrightarrow>
      (\<forall>r \<in> set rs. episode_ok r) \<and> distinct (map e_id rs) \<and> m = keyed e_id rs" for rs m
    unfolding restore_episodes_def
    using foldE_collect [of collect_episode episode_ok e_id "[]" rs m] collect_episode_Inr by simp
qed (auto simp: store_record_Inr store_replace_Inr)

datatype store_op =
  RecordEpisode episode | ReplaceEpisode episode | ResetStore | RestoreStore store_snapshot

fun store_step :: "episode_store \<Rightarrow> store_op \<Rightarrow> episode_store" where
  "store_step m (RecordEpisode e) = (case store_record e m of Inl _ \<Rightarrow> m | Inr m' \<Rightarrow> m')"
| "store_step m (ReplaceEpisode e) = (case store_replace e m of Inl _ \<Rightarrow> m | Inr m' \<Rightarrow> m')"
| "store_step m ResetStore = store_reset m"
| "store_step m (RestoreStore s) = (case store_restore s m of Inl _ \<Rightarrow> m | Inr m' \<Rightarrow> m')"

abbreviation episodes_ok :: "episode_store \<Rightarrow> bool" where
  "episodes_ok \<equiv> store_ok e_id episode_ok"

lemma store_restore_ok: "store_restore s m = Inr m' \<Longrightarrow> episodes_ok m'"
  using episodes.restore_ok [of "snap_episodes s" m']
  by (simp add: store_restore_def restore_episodes_def split: if_splits)

lemma store_step_ok: "episodes_ok m \<Longrightarrow> episodes_ok (store_step m op)"
  by (cases op) (auto simp: store_reset_def split: sum.split
      intro: episodes.record_keeps_ok episodes.replace_keeps_ok store_restore_ok)

interpretation store_machine: invariant_system store_step episodes_ok
  by unfold_locales (rule store_step_ok)

section \<open>Properties\<close>

text \<open>
  C25: an episode passes the validator exactly when it meets the declarative contract: identities
  and notice non-blank, a hypothesis from the start of investigation on, a conclusion and at least
  one test in a terminal state, analytical tests with pairwise distinct non-blank ids that cite
  evidence, judgement scores in the unit interval, and a natural-number dataset version.
\<close>

theorem validator_accepts_exactly: "assert_episode e = Inr () \<longleftrightarrow> episode_ok e"
  by (auto simp: assert_episode_def Let_def validate_episode_Nil_iff)

text \<open>
  C26: after any sequence of record, replace, reset and restore calls, failed ones included, every
  stored episode is filed under its own id and satisfies the contract, and restoring the store's own
  snapshot reproduces the store exactly, from any other state.
\<close>

theorem episode_store_history:
  "let m = run store_step [] ops
   in store_restore (store_to_json m) other = Inr m \<and>
      (\<forall>i e. store_get m i = Some e \<longrightarrow> e_id e = i \<and> episode_ok e)"
proof -
  let ?m = "run store_step [] ops"
  have ok: "episodes_ok ?m" by (rule store_machine.run_inv) simp
  have "restore_episodes (js_values ?m) = Inr ?m" by (rule episodes.restore_snapshot [OF ok])
  then have "store_restore (store_to_json ?m) other = Inr ?m"
    by (simp add: store_restore_def store_to_json_def store_all_def restore_episodes_def)
  with store_ok_get [OF ok] show ?thesis by (auto simp: Let_def store_get_def)
qed

definition sample_test :: "string \<Rightarrow> analytical_test" where
  "sample_test i = \<lparr>test_id = i, test_method = ''correlation'', test_evidence = [''obs-1''],
     test_result = SupportsHypothesis, test_note = None\<rparr>"

definition sample_episode :: "string \<Rightarrow> episode" where
  "sample_episode i = \<lparr>e_schema = episode_schema_version, e_id = i, e_investigation = ''inv'',
     e_notice = ''a cluster'', e_question = None, e_hypothesis = Some ''two groups'',
     e_path = [], e_tests = [sample_test ''t1''], e_evidence = [''obs-1''],
     e_conclusion = Some ''supported'', e_status = Supported,
     e_context = \<lparr>rc_graph_id = None, rc_decision_id = None, rc_model_version = None,
       rc_artifact_hash = None, rc_decision_fingerprint = None, rc_decision_evidence = None,
       rc_ontology_version = None\<rparr>,
     e_judgement = None,
     e_provenance = \<lparr>ep_fingerprint = ''fp'', ep_version = Some (Fin 1), ep_kernel = ''k1'',
       ep_investigation = ''i1'', ep_language = None, ep_seeds = []\<rparr>\<rparr>"

theorem episode_store_history_witness:
  "store_get (run store_step [] [RecordEpisode (sample_episode ''d1'')]) ''d1'' = Some (sample_episode ''d1'') \<and>
   e_id (sample_episode ''d1'') = ''d1'' \<and> episode_ok (sample_episode ''d1'')"
proof -
  let ?m = "run store_step [] [RecordEpisode (sample_episode ''d1'')]"
  have "store_get ?m ''d1'' = Some (sample_episode ''d1'')" by code_simp
  with episode_store_history [of "[RecordEpisode (sample_episode ''d1'')]" "[]"] show ?thesis
    by (simp only: Let_def)
qed

text \<open>
  Restoring is atomic. It succeeds exactly when the snapshot has the supported schema, all its
  episodes are valid and their ids are distinct, and then holds exactly those episodes; any other
  snapshot is refused as a whole.
\<close>

theorem restore_all_or_nothing:
  "store_restore s m = Inr m' \<longleftrightarrow>
     snap_schema s = store_schema_version \<and> (\<forall>e \<in> set (snap_episodes s). episode_ok e) \<and>
     distinct (map e_id (snap_episodes s)) \<and> m' = map (\<lambda>e. (e_id e, e)) (snap_episodes s)"
  using episodes.restore_Inr [of "snap_episodes s" m']
  by (simp add: store_restore_def restore_episodes_def keyed_def)

theorem restore_all_or_nothing_witness:
  "store_restore (store_to_json [(''d1'', sample_episode ''d1'')]) []
     = Inr [(''d1'', sample_episode ''d1'')] \<and> episode_ok (sample_episode ''d1'')"
proof -
  have r: "store_restore (store_to_json [(''d1'', sample_episode ''d1'')]) []
      = Inr [(''d1'', sample_episode ''d1'')]" by code_simp
  with restore_all_or_nothing [of "store_to_json [(''d1'', sample_episode ''d1'')]" "[]"
      "[(''d1'', sample_episode ''d1'')]"]
  have "episode_ok (sample_episode ''d1'')" by (simp add: store_to_json_def store_all_def)
  with r show ?thesis by simp
qed

end
