(* ===== verification/Discovery_Reasoning.thy ===== *)
theory Discovery_Reasoning
  imports Effects Investigation_Graph Discovery_Episode
begin

text \<open>
  The authoring service of \<open>src/app/investigation/DiscoveryReasoningService.ts\<close>: notice, question,
  hypothesis, understanding, validation, and the older combined calls, over the investigation graph
  and the episode store of the Atlas aggregate. A method that throws keeps the graph nodes it had
  already added and the ids it had drawn. The id factory and the clock, which the constructor is
  given, are parameters: functions of the number of ids drawn and of clock readings so far.
\<close>

section \<open>Data\<close>

text \<open>The fields of Atlas' observations, results, findings and decision that the service reads.\<close>

record observation =
  obs_id :: string
  obs_time :: int
  obs_notes :: string
  obs_fingerprint :: string
  obs_version :: nat

record analysis_result =
  res_id :: string
  res_fingerprint :: string
  res_version :: nat
  res_op :: string

record finding =
  fnd_id :: string
  fnd_time :: int
  fnd_description :: string
  fnd_observations :: "string list"
  fnd_results :: "string list"
  fnd_fingerprint :: string
  fnd_version :: nat

record active_decision =
  dec_id :: "string option"
  dec_model_version :: "string option"
  dec_artifact_hash :: "string option option"
  dec_fingerprint :: "string option"
  dec_source_fingerprint :: string

record atlas =
  at_observations :: "observation list"
  at_results :: "analysis_result list"
  at_findings :: "finding list"
  at_fingerprint :: "string option"
  at_version :: nat
  at_session :: string
  at_decision :: "active_decision option"
  at_kernel :: "string option"
  at_graph :: graph
  at_discoveries :: episode_store
  at_ids :: nat
  at_ticks :: nat

record services =
  id_factory :: "nat \<Rightarrow> string \<Rightarrow> string"
  clock :: "nat \<Rightarrow> int"
  investigation_version :: string

datatype reasoning_error =
    ObservationNotFound string | DatasetRequired | NoticeOfOtherDataset | FieldRequired string
  | DiscoveryNotFound string | ValidationBegun | QuestionMissing | HypothesisPresent
  | NoLineageNode string | HypothesisMissing | UnderstandingPresent | FindingNotFound string
  | UnderstandingOfOtherDataset | NoResultCited | NoticeNotCited | EvidenceNotFound string
  | EvidenceOfOtherDataset string | AlreadyTerminal string | UnderstandingMissing
  | EvidenceNotCited | ResultIdBlank | NodeUnavailable string
  | GraphRefused graph_error | StoreRefused store_error

type_synonym 'a service = "(atlas, reasoning_error, 'a) effect"

section \<open>Helpers of the service\<close>

definition required_text :: "string \<Rightarrow> string \<Rightarrow> reasoning_error + string" where
  "required_text v label =
     (let n = js_trim v in if n = [] then Inl (FieldRequired label) else Inr n)"

fun status_of_outcome :: "test_outcome \<Rightarrow> validation_status" where
  "status_of_outcome SupportsHypothesis = Supported"
| "status_of_outcome RefutesHypothesis = Refuted"
| "status_of_outcome InconclusiveTest = Inconclusive"

fun outcome_text :: "test_outcome \<Rightarrow> string" where
  "outcome_text SupportsHypothesis = ''SUPPORTS''"
| "outcome_text RefutesHypothesis = ''REFUTES''"
| "outcome_text InconclusiveTest = ''INCONCLUSIVE''"

fun status_text :: "validation_status \<Rightarrow> string" where
  "status_text Untested = ''UNTESTED''"
| "status_text UnderInvestigation = ''UNDER_INVESTIGATION''"
| "status_text Supported = ''SUPPORTED''"
| "status_text Refuted = ''REFUTED''"
| "status_text Inconclusive = ''INCONCLUSIVE''"
| "status_text ExternallyValidated = ''EXTERNALLY_VALIDATED''"

definition has_role :: "string \<Rightarrow> string \<Rightarrow> inv_node \<Rightarrow> bool" where
  "has_role d role n \<longleftrightarrow>
     js_get (node_meta n) ''discoveryId'' = Some (MStr d) \<and>
     js_get (node_meta n) ''discoveryRole'' = Some (MStr role)"

text \<open>The last node of the graph with the role, the source scanning from the end.\<close>

definition graph_node_for_role :: "inv_node list \<Rightarrow> string \<Rightarrow> string \<Rightarrow> inv_node option" where
  "graph_node_for_role nodes d role = find (has_role d role) (rev nodes)"

definition same_dataset :: "episode \<Rightarrow> string \<Rightarrow> bool" where
  "same_dataset e fp \<longleftrightarrow> fp = ep_fingerprint (e_provenance e)"

definition graph_nodes :: "graph \<Rightarrow> inv_node list" where
  "graph_nodes g = js_values (g_nodes g)"

definition conclusion_node :: "graph \<Rightarrow> string \<Rightarrow> inv_node option" where
  "conclusion_node g d =
     (case graph_node_for_role (graph_nodes g) d ''validation'' of
        Some n \<Rightarrow> Some n
      | None \<Rightarrow>
          (case graph_node_for_role (graph_nodes g) d ''understanding'' of
             Some n \<Rightarrow> Some n
           | None \<Rightarrow> graph_node_for_role (graph_nodes g) d ''conclusion''))"

definition understanding_node :: "graph \<Rightarrow> string \<Rightarrow> inv_node option" where
  "understanding_node g d =
     (case graph_node_for_role (graph_nodes g) d ''understanding'' of
        Some n \<Rightarrow> Some n
      | None \<Rightarrow> graph_node_for_role (graph_nodes g) d ''conclusion'')"

definition fresh_id :: "services \<Rightarrow> string \<Rightarrow> string service" where
  "fresh_id sv p =
     bindS (readS (\<lambda>s. id_factory sv (at_ids s) p)) (\<lambda>i.
     bindS (writeS (\<lambda>s. s\<lparr>at_ids := Suc (at_ids s)\<rparr>)) (\<lambda>_. retS i))"

definition read_clock :: "services \<Rightarrow> int service" where
  "read_clock sv =
     bindS (readS (\<lambda>s. clock sv (at_ticks s))) (\<lambda>t.
     bindS (writeS (\<lambda>s. s\<lparr>at_ticks := Suc (at_ticks s)\<rparr>)) (\<lambda>_. retS t))"

definition on_graph :: "(graph \<Rightarrow> graph_error + graph) \<Rightarrow> unit service" where
  "on_graph f s = (case f (at_graph s) of
     Inl e \<Rightarrow> (Inl (GraphRefused e), s) | Inr g \<Rightarrow> (Inr (), s\<lparr>at_graph := g\<rparr>))"

definition on_store :: "(episode_store \<Rightarrow> store_error + episode_store) \<Rightarrow> unit service" where
  "on_store f s = (case f (at_discoveries s) of
     Inl e \<Rightarrow> (Inl (StoreRefused e), s) | Inr m \<Rightarrow> (Inr (), s\<lparr>at_discoveries := m\<rparr>))"

definition link :: "services \<Rightarrow> string \<Rightarrow> string \<Rightarrow> relationship \<Rightarrow> unit service" where
  "link sv a b r = bindS (fresh_id sv ''edge'') (\<lambda>i. on_graph (connect a b r (Some i)))"

definition reasoning_node ::
  "string \<Rightarrow> node_kind \<Rightarrow> string option \<Rightarrow> nat \<Rightarrow> string \<Rightarrow> string \<Rightarrow> int \<Rightarrow> string option \<Rightarrow>
   (string, meta_value) js_map \<Rightarrow> inv_node" where
  "reasoning_node i k parent v fp label t op meta =
     \<lparr>node_id = i, node_kind = Some k, node_parent = parent, node_version = v,
      node_fingerprint = fp, node_label = label, node_timestamp = t, node_operation = op,
      node_findings = None, node_meta = meta\<rparr>"

definition middle_dot :: string where
  "middle_dot = [CHR '' '', CHR 0xB7, CHR '' '']"

definition classified_note :: "test_outcome \<Rightarrow> string" where
  "classified_note out = ''Researcher classified the cited analytical result as '' @ outcome_text out @ ''.''"

fun outcome_relation :: "test_outcome \<Rightarrow> relationship" where
  "outcome_relation SupportsHypothesis = Supports"
| "outcome_relation RefutesHypothesis = Refutes"
| "outcome_relation InconclusiveTest = Produces"

definition outcome_kind :: "test_outcome \<Rightarrow> string" where
  "outcome_kind out = (if out = RefutesHypothesis then ''contradiction'' else ''finding'')"

definition decision_context :: "active_decision option \<Rightarrow> representation_context" where
  "decision_context d = (case d of
     None \<Rightarrow> \<lparr>rc_graph_id = None, rc_decision_id = None, rc_model_version = None,
               rc_artifact_hash = None, rc_decision_fingerprint = None,
               rc_decision_evidence = None, rc_ontology_version = None\<rparr>
   | Some x \<Rightarrow> \<lparr>rc_graph_id = None, rc_decision_id = dec_id x,
               rc_model_version = dec_model_version x, rc_artifact_hash = dec_artifact_hash x,
               rc_decision_fingerprint =
                 Some (case dec_fingerprint x of Some f \<Rightarrow> f | None \<Rightarrow> dec_source_fingerprint x),
               rc_decision_evidence = None, rc_ontology_version = None\<rparr>)"

section \<open>Operations\<close>

definition notice_node :: "observation \<Rightarrow> string \<Rightarrow> string option \<Rightarrow> inv_node" where
  "notice_node ob d parent =
     reasoning_node (obs_id ob) KObservation parent (obs_version ob) (obs_fingerprint ob) ''Notice''
       (obs_time ob) None
       [(''epistemicKind'', MStr ''notice''), (''description'', MStr (obs_notes ob)),
        (''discoveryId'', MStr d), (''discoveryRole'', MStr ''notice'')]"

text \<open>Adds the notice's own node when the graph has none, joined to the node that was active.\<close>

definition ensure_notice :: "services \<Rightarrow> observation \<Rightarrow> string \<Rightarrow> unit service" where
  "ensure_notice sv ob d =
     bindS (readS at_graph) (\<lambda>g.
     if get_node g (obs_id ob) \<noteq> None then retS ()
     else bindS (on_graph (add_node (notice_node ob d (g_active g)))) (\<lambda>_.
       case g_active g of
         None \<Rightarrow> retS ()
       | Some a \<Rightarrow>
           bindS (readS at_graph) (\<lambda>g'.
           if a \<noteq> [] \<and> a \<noteq> obs_id ob \<and> get_node g' a \<noteq> None
           then link sv a (obs_id ob) Observes else retS ())))"

definition question_node :: "string \<Rightarrow> observation \<Rightarrow> atlas \<Rightarrow> string \<Rightarrow> int \<Rightarrow> string \<Rightarrow> string \<Rightarrow> inv_node" where
  "question_node i ob s fp t question d =
     reasoning_node i KQuestion (Some (obs_id ob)) (at_version s) fp ''Research question'' t None
       [(''epistemicKind'', MStr ''question''), (''description'', MStr question),
        (''discoveryId'', MStr d), (''discoveryRole'', MStr ''question'')]"

definition asked_episode ::
  "services \<Rightarrow> atlas \<Rightarrow> string \<Rightarrow> observation \<Rightarrow> string \<Rightarrow> string \<Rightarrow> string \<Rightarrow> episode" where
  "asked_episode sv s d ob fp question q =
     \<lparr>e_schema = episode_schema_version, e_id = d, e_investigation = at_session s,
      e_notice = obs_notes ob, e_question = Some question, e_hypothesis = None,
      e_path = [obs_id ob, q], e_tests = [], e_evidence = [obs_id ob], e_conclusion = None,
      e_status = Untested, e_context = decision_context (at_decision s), e_judgement = None,
      e_provenance = \<lparr>ep_fingerprint = fp, ep_version = Some (Fin (of_nat (at_version s))),
        ep_kernel = (case at_kernel s of Some k \<Rightarrow> k | None \<Rightarrow> ''unknown''),
        ep_investigation = investigation_version sv, ep_language = None, ep_seeds = []\<rparr>\<rparr>"

definition ask :: "services \<Rightarrow> string \<Rightarrow> string \<Rightarrow> episode service" where
  "ask sv observation_id question =
     bindS (readS (\<lambda>s. find (\<lambda>ob. obs_id ob = observation_id) (at_observations s))) (\<lambda>found.
     bindS (needS found (ObservationNotFound observation_id)) (\<lambda>ob.
     bindS (readS at_fingerprint) (\<lambda>loaded.
     bindS (needS loaded DatasetRequired) (\<lambda>fp.
     bindS (guardS (fp \<noteq> []) DatasetRequired) (\<lambda>_.
     bindS (guardS (obs_fingerprint ob = fp) NoticeOfOtherDataset) (\<lambda>_.
     bindS (liftS (required_text question ''Question'')) (\<lambda>q.
     bindS (fresh_id sv ''discovery'') (\<lambda>d.
     bindS (ensure_notice sv ob d) (\<lambda>_.
     bindS (fresh_id sv ''question'') (\<lambda>qid.
     bindS (read_clock sv) (\<lambda>t.
     bindS (readS (\<lambda>s. s)) (\<lambda>s.
     bindS (on_graph (add_node (question_node qid ob s fp t q d))) (\<lambda>_.
     bindS (link sv (obs_id ob) qid Motivates) (\<lambda>_.
     bindS (readS (\<lambda>s. asked_episode sv s d ob fp q qid)) (\<lambda>e.
     bindS (on_store (store_record e)) (\<lambda>_. retS e))))))))))))))))"

definition find_episode :: "string \<Rightarrow> episode service" where
  "find_episode d =
     bindS (readS (\<lambda>s. store_get (at_discoveries s) d)) (\<lambda>x. needS x (DiscoveryNotFound d))"

definition save_episode :: "episode \<Rightarrow> episode service" where
  "save_episode e = bindS (on_store (store_replace e)) (\<lambda>_. retS e)"

definition role_node :: "string \<Rightarrow> string \<Rightarrow> inv_node service" where
  "role_node d role =
     bindS (readS (\<lambda>s. graph_node_for_role (graph_nodes (at_graph s)) d role)) (\<lambda>x.
       needS x (NoLineageNode role))"

definition hypothesis_node :: "string \<Rightarrow> inv_node \<Rightarrow> atlas \<Rightarrow> episode \<Rightarrow> int \<Rightarrow> string \<Rightarrow> inv_node" where
  "hypothesis_node i parent s e t h =
     reasoning_node i KQuestion (Some (node_id parent)) (at_version s)
       (ep_fingerprint (e_provenance e)) ''Hypothesis'' t None
       [(''epistemicKind'', MStr ''hypothesis''), (''description'', MStr h),
        (''discoveryId'', MStr (e_id e)), (''discoveryRole'', MStr ''hypothesis'')]"

definition hypothesise :: "services \<Rightarrow> string \<Rightarrow> string \<Rightarrow> episode service" where
  "hypothesise sv discovery hypothesis =
     bindS (find_episode discovery) (\<lambda>e.
     bindS (guardS (e_status e = Untested) ValidationBegun) (\<lambda>_.
     bindS (guardS (non_empty_opt (e_question e)) QuestionMissing) (\<lambda>_.
     bindS (guardS (\<not> non_empty_opt (e_hypothesis e)) HypothesisPresent) (\<lambda>_.
     bindS (role_node (e_id e) ''question'') (\<lambda>qn.
     bindS (liftS (required_text hypothesis ''Hypothesis'')) (\<lambda>h.
     bindS (fresh_id sv ''hypothesis'') (\<lambda>hid.
     bindS (read_clock sv) (\<lambda>t.
     bindS (readS (\<lambda>s. s)) (\<lambda>s.
     bindS (on_graph (add_node (hypothesis_node hid qn s e t h))) (\<lambda>_.
     bindS (link sv (node_id qn) hid Motivates) (\<lambda>_.
     save_episode (e\<lparr>e_hypothesis := Some h, e_status := UnderInvestigation,
                     e_path := e_path e @ [hid]\<rparr>))))))))))))"

text \<open>The first result of the ledger with the id, of the episode's own dataset.\<close>

definition cited_result :: "atlas \<Rightarrow> episode \<Rightarrow> string \<Rightarrow> reasoning_error + analysis_result" where
  "cited_result s e i = (case find (\<lambda>r. res_id r = i) (at_results s) of
     None \<Rightarrow> Inl (EvidenceNotFound i)
   | Some r \<Rightarrow> if same_dataset e (res_fingerprint r) then Inr r else Inl (EvidenceOfOtherDataset i))"

definition evidence_node :: "string \<Rightarrow> inv_node \<Rightarrow> episode \<Rightarrow> finding \<Rightarrow> string \<Rightarrow> string \<Rightarrow> inv_node" where
  "evidence_node i parent e f op ids =
     reasoning_node i KOperation (Some (node_id parent)) (fnd_version f) (fnd_fingerprint f)
       (''Evidence'' @ middle_dot @ op) (fnd_time f) (Some op)
       [(''epistemicKind'', MStr ''test''),
        (''description'', MStr (''Analytical evidence'' @ middle_dot @ ids)),
        (''discoveryId'', MStr (e_id e)), (''discoveryRole'', MStr ''test''),
        (''findingId'', MStr (fnd_id f)), (''resultIds'', MStrs (fnd_results f))]"

definition insight_node :: "string \<Rightarrow> string \<Rightarrow> episode \<Rightarrow> finding \<Rightarrow> inv_node" where
  "insight_node i parent e f =
     reasoning_node i KConclusion (Some parent) (fnd_version f) (fnd_fingerprint f)
       ''Understanding'' (fnd_time f) None
       [(''epistemicKind'', MStr ''finding''), (''description'', MStr (fnd_description f)),
        (''discoveryId'', MStr (e_id e)), (''discoveryRole'', MStr ''understanding''),
        (''findingId'', MStr (fnd_id f)), (''humanJudgement'', MBool True)]"

fun join_ids :: "string list \<Rightarrow> string" where
  "join_ids [] = []"
| "join_ids [x] = x"
| "join_ids (x # xs) = x @ '', '' @ join_ids xs"

definition notice_cited :: "episode \<Rightarrow> finding \<Rightarrow> bool" where
  "notice_cited e f = (case e_evidence e of
     [] \<Rightarrow> True | n # _ \<Rightarrow> n = [] \<or> n \<in> set (fnd_observations f))"

definition understood :: "episode \<Rightarrow> finding \<Rightarrow> string list \<Rightarrow> episode" where
  "understood e f ids =
     e\<lparr>e_conclusion := Some (fnd_description f),
       e_evidence := js_uniq (e_evidence e @ [fnd_id f] @ fnd_observations f @ fnd_results f),
       e_path := e_path e @ ids\<rparr>"

definition record_understanding :: "services \<Rightarrow> string \<Rightarrow> string \<Rightarrow> episode service" where
  "record_understanding sv discovery finding_id =
     bindS (find_episode discovery) (\<lambda>e.
     bindS (guardS (e_status e = UnderInvestigation) HypothesisMissing) (\<lambda>_.
     bindS (guardS (\<not> non_empty_opt (e_conclusion e)) UnderstandingPresent) (\<lambda>_.
     bindS (readS (\<lambda>s. find (\<lambda>f. fnd_id f = finding_id) (at_findings s))) (\<lambda>found.
     bindS (needS found (FindingNotFound finding_id)) (\<lambda>f.
     bindS (guardS (same_dataset e (fnd_fingerprint f)) UnderstandingOfOtherDataset) (\<lambda>_.
     bindS (guardS (fnd_results f \<noteq> []) NoResultCited) (\<lambda>_.
     bindS (guardS (notice_cited e f) NoticeNotCited) (\<lambda>_.
     bindS (readS (\<lambda>s. mapE (cited_result s e) (fnd_results f))) (\<lambda>cited.
     bindS (liftS cited) (\<lambda>rs.
     bindS (role_node (e_id e) ''hypothesis'') (\<lambda>hn.
     bindS (fresh_id sv ''reasoning-evidence'') (\<lambda>eid.
     bindS (on_graph (add_node (evidence_node eid hn e f (res_op (hd rs)) (join_ids (fnd_results f))))) (\<lambda>_.
     bindS (link sv (node_id hn) eid Produces) (\<lambda>_.
     bindS (fresh_id sv ''understanding'') (\<lambda>uid.
     bindS (on_graph (add_node (insight_node uid eid e f))) (\<lambda>_.
     bindS (link sv eid uid Produces) (\<lambda>_.
     save_episode (understood e f [eid, uid]))))))))))))))))))"

fun verdict_label :: "test_outcome \<Rightarrow> string" where
  "verdict_label SupportsHypothesis = ''Supported''"
| "verdict_label RefutesHypothesis = ''Refuted''"
| "verdict_label InconclusiveTest = ''Qualified''"

definition classified_test :: "string \<Rightarrow> analysis_result \<Rightarrow> test_outcome \<Rightarrow> analytical_test" where
  "classified_test i r out =
     \<lparr>test_id = i, test_method = res_op r, test_evidence = [res_id r], test_result = out,
      test_note = Some (classified_note out)\<rparr>"

definition validation_node ::
  "string \<Rightarrow> inv_node \<Rightarrow> episode \<Rightarrow> analysis_result \<Rightarrow> test_outcome \<Rightarrow> int \<Rightarrow> inv_node" where
  "validation_node i parent e r out t =
     reasoning_node i KConclusion (Some (node_id parent)) (res_version r) (res_fingerprint r)
       (verdict_label out) t None
       [(''epistemicKind'', MStr (outcome_kind out)),
        (''description'', MStr (status_text (status_of_outcome out) @ '' using '' @ res_id r)),
        (''discoveryId'', MStr (e_id e)), (''discoveryRole'', MStr ''validation''),
        (''resultId'', MStr (res_id r)), (''outcome'', MStr (outcome_text out)),
        (''humanJudgement'', MBool True)]"

definition validated :: "episode \<Rightarrow> analytical_test \<Rightarrow> analysis_result \<Rightarrow> test_outcome \<Rightarrow> string list \<Rightarrow> episode" where
  "validated e t r out ids =
     e\<lparr>e_tests := e_tests e @ [t], e_evidence := js_uniq (e_evidence e @ [res_id r]),
       e_status := status_of_outcome out, e_path := e_path e @ ids\<rparr>"

definition validate :: "services \<Rightarrow> string \<Rightarrow> string \<Rightarrow> test_outcome \<Rightarrow> episode service" where
  "validate sv discovery result_id out =
     bindS (find_episode discovery) (\<lambda>e.
     bindS (guardS (e_status e = UnderInvestigation) (AlreadyTerminal discovery)) (\<lambda>_.
     bindS (guardS (non_empty_opt (e_hypothesis e)) HypothesisMissing) (\<lambda>_.
     bindS (guardS (non_empty_opt (e_conclusion e)) UnderstandingMissing) (\<lambda>_.
     bindS (readS (\<lambda>s. find (\<lambda>r. res_id r = result_id) (at_results s))) (\<lambda>found.
     bindS (needS found (EvidenceNotFound result_id)) (\<lambda>r.
     bindS (guardS (same_dataset e (res_fingerprint r)) (EvidenceOfOtherDataset result_id)) (\<lambda>_.
     bindS (guardS (res_id r \<in> set (e_evidence e)) EvidenceNotCited) (\<lambda>_.
     bindS (fresh_id sv ''test'') (\<lambda>tid.
     bindS (readS (\<lambda>s. understanding_node (at_graph s) (e_id e))) (\<lambda>p.
     bindS (needS p (NoLineageNode ''understanding'')) (\<lambda>parent.
     bindS (fresh_id sv ''validation'') (\<lambda>vid.
     bindS (read_clock sv) (\<lambda>t.
     bindS (on_graph (add_node (validation_node vid parent e r out t))) (\<lambda>_.
     bindS (link sv (node_id parent) vid (outcome_relation out)) (\<lambda>_.
     save_episode (validated e (classified_test tid r out) r out [vid]))))))))))))))))"

definition start :: "services \<Rightarrow> string \<Rightarrow> string \<Rightarrow> string \<Rightarrow> episode service" where
  "start sv observation_id question hypothesis =
     bindS (liftS (required_text question ''Question'')) (\<lambda>_.
     bindS (liftS (required_text hypothesis ''Hypothesis'')) (\<lambda>_.
     bindS (ask sv observation_id question) (\<lambda>e. hypothesise sv (e_id e) hypothesis)))"

definition test_node :: "string \<Rightarrow> inv_node \<Rightarrow> episode \<Rightarrow> analysis_result \<Rightarrow> test_outcome \<Rightarrow> int \<Rightarrow> inv_node" where
  "test_node i parent e r out t =
     reasoning_node i KOperation (Some (node_id parent)) (res_version r) (res_fingerprint r)
       (''Test'' @ middle_dot @ res_op r) t (Some (res_op r))
       [(''epistemicKind'', MStr ''test''),
        (''description'', MStr (''Evidence '' @ res_id r @ middle_dot @ outcome_text out)),
        (''discoveryId'', MStr (e_id e)), (''discoveryRole'', MStr ''test''),
        (''resultId'', MStr (res_id r)), (''outcome'', MStr (outcome_text out))]"

definition verdict_node ::
  "string \<Rightarrow> string \<Rightarrow> atlas \<Rightarrow> episode \<Rightarrow> analysis_result \<Rightarrow> test_outcome \<Rightarrow> string \<Rightarrow> int \<Rightarrow> inv_node" where
  "verdict_node i parent s e r out conclusion t =
     reasoning_node i KConclusion (Some parent) (at_version s)
       (case at_fingerprint s of Some fp \<Rightarrow> fp | None \<Rightarrow> res_fingerprint r)
       (if out = RefutesHypothesis then ''Contradiction'' else ''Conclusion'') t None
       [(''epistemicKind'', MStr (outcome_kind out)), (''description'', MStr conclusion),
        (''discoveryId'', MStr (e_id e)), (''discoveryRole'', MStr ''conclusion''),
        (''resultId'', MStr (res_id r)), (''outcome'', MStr (outcome_text out)),
        (''humanJudgement'', MBool True)]"

definition record_test :: "services \<Rightarrow> string \<Rightarrow> string \<Rightarrow> test_outcome \<Rightarrow> string \<Rightarrow> episode service" where
  "record_test sv discovery result_id out conclusion =
     bindS (find_episode discovery) (\<lambda>e.
     bindS (guardS (e_status e = UnderInvestigation \<or> e_status e = Untested) (AlreadyTerminal discovery)) (\<lambda>_.
     bindS (readS (\<lambda>s. find (\<lambda>r. res_id r = result_id) (at_results s))) (\<lambda>found.
     bindS (needS found (EvidenceNotFound result_id)) (\<lambda>r.
     bindS (guardS (non_empty (res_id r)) ResultIdBlank) (\<lambda>_.
     bindS (liftS (required_text conclusion ''Conclusion'')) (\<lambda>c.
     bindS (role_node (e_id e) ''hypothesis'') (\<lambda>hn.
     bindS (fresh_id sv ''test'') (\<lambda>tid.
     bindS (fresh_id sv ''reasoning-test'') (\<lambda>nid.
     bindS (read_clock sv) (\<lambda>t.
     bindS (on_graph (add_node (test_node nid hn e r out t))) (\<lambda>_.
     bindS (link sv (node_id hn) nid Produces) (\<lambda>_.
     bindS (fresh_id sv ''conclusion'') (\<lambda>cid.
     bindS (read_clock sv) (\<lambda>t'.
     bindS (readS (\<lambda>s. s)) (\<lambda>s.
     bindS (on_graph (add_node (verdict_node cid nid s e r out c t'))) (\<lambda>_.
     bindS (link sv nid cid (outcome_relation out)) (\<lambda>_.
     save_episode ((validated e (classified_test tid r out) r out [nid, cid])
                     \<lparr>e_conclusion := Some c\<rparr>))))))))))))))))))"

definition return_to_conclusion :: "string \<Rightarrow> inv_node service" where
  "return_to_conclusion discovery =
     bindS (find_episode discovery) (\<lambda>_.
     bindS (readS (\<lambda>s. conclusion_node (at_graph s) discovery)) (\<lambda>found.
     bindS (needS found (NoLineageNode ''conclusion'')) (\<lambda>n.
     bindS (readS (\<lambda>s. set_active_node (node_id n) (at_graph s))) (\<lambda>moved.
     bindS (writeS (\<lambda>s. s\<lparr>at_graph := snd moved\<rparr>)) (\<lambda>_.
     bindS (guardS (fst moved) (NodeUnavailable (node_id n))) (\<lambda>_. retS n))))))"

definition branch_label :: "string option \<Rightarrow> string" where
  "branch_label l = (case l of
     None \<Rightarrow> ''Branch from understanding''
   | Some x \<Rightarrow> if js_trim x = [] then ''Branch from understanding'' else js_trim x)"

definition branch_node :: "string \<Rightarrow> inv_node \<Rightarrow> atlas \<Rightarrow> episode \<Rightarrow> string option \<Rightarrow> int \<Rightarrow> inv_node" where
  "branch_node i parent s e label t =
     reasoning_node i KQuestion (Some (node_id parent)) (at_version s)
       (case at_fingerprint s of Some fp \<Rightarrow> fp | None \<Rightarrow> node_fingerprint parent)
       (branch_label label) t None
       [(''epistemicKind'', MStr ''branch_point''),
        (''description'', MStr (''Investigator-created branch from '' @ e_id e)),
        (''discoveryId'', MStr (e_id e)), (''discoveryRole'', MStr ''branch''),
        (''humanJudgement'', MBool True)]"

definition branch :: "services \<Rightarrow> string \<Rightarrow> string option \<Rightarrow> inv_node service" where
  "branch sv discovery label =
     bindS (find_episode discovery) (\<lambda>e.
     bindS (guardS (e_conclusion e \<noteq> None \<and> e_conclusion e \<noteq> Some []) UnderstandingMissing) (\<lambda>_.
     bindS (readS (\<lambda>s. conclusion_node (at_graph s) (e_id e))) (\<lambda>found.
     bindS (needS found (NoLineageNode ''conclusion'')) (\<lambda>n.
     bindS (fresh_id sv ''branch'') (\<lambda>bid.
     bindS (read_clock sv) (\<lambda>t.
     bindS (readS (\<lambda>s. s)) (\<lambda>s.
     bindS (on_graph (add_node (branch_node bid n s e label t))) (\<lambda>_.
     bindS (link sv (node_id n) bid BranchesFrom) (\<lambda>_.
     bindS (readS (\<lambda>s. get_node (at_graph s) bid)) (\<lambda>added. needS added (NodeUnavailable bid)))))))))))"

section \<open>The read-only view\<close>

record branch_summary =
  bs_id :: string
  bs_discovery :: string
  bs_label :: string
  bs_parent :: "string option"
  bs_active :: bool

record reasoning_snapshot =
  rs_discoveries :: "episode list"
  rs_observation :: "observation option"
  rs_result :: "analysis_result option"
  rs_finding :: "finding option"
  rs_active_id :: "string option"
  rs_active_node :: "inv_node option"
  rs_branches :: "branch_summary list"

definition js_last :: "'a list \<Rightarrow> 'a option" where
  "js_last xs = (if xs = [] then None else Some (last xs))"

fun meta_text :: "meta_value option \<Rightarrow> string" where
  "meta_text None = []"
| "meta_text (Some (MStr s)) = s"
| "meta_text (Some (MBool b)) = (if b then ''true'' else ''false'')"
| "meta_text (Some (MStrs xs)) = concat (take 1 xs) @ concat (map (\<lambda>x. CHR '','' # x) (drop 1 xs))"

definition summary :: "graph \<Rightarrow> inv_node \<Rightarrow> branch_summary" where
  "summary g n =
     \<lparr>bs_id = node_id n, bs_discovery = meta_text (js_get (node_meta n) ''discoveryId''),
      bs_label = node_label n, bs_parent = node_parent n, bs_active = (g_active g = Some (node_id n))\<rparr>"

definition snapshot :: "atlas \<Rightarrow> reasoning_snapshot" where
  "snapshot s =
     (let g = at_graph s in
      \<lparr>rs_discoveries = store_all (at_discoveries s), rs_observation = js_last (at_observations s),
       rs_result = js_last (at_results s), rs_finding = js_last (at_findings s),
       rs_active_id = g_active g,
       rs_active_node = (case g_active g of None \<Rightarrow> None | Some a \<Rightarrow> if a = [] then None else get_node g a),
       rs_branches = map (summary g)
         (filter (\<lambda>n. js_get (node_meta n) ''discoveryRole'' = Some (MStr ''branch'')) (graph_nodes g))\<rparr>)"

section \<open>Calls keep the graph and the episodes valid\<close>

datatype service_call =
    Ask string string | Hypothesise string string | Understand string string
  | Validate string string test_outcome | Start string string string
  | RecordTest string string test_outcome string | ReturnToConclusion string
  | Branch string "string option"

fun service_step :: "services \<Rightarrow> atlas \<Rightarrow> service_call \<Rightarrow> atlas" where
  "service_step sv s (Ask o' q) = snd (ask sv o' q s)"
| "service_step sv s (Hypothesise d h) = snd (hypothesise sv d h s)"
| "service_step sv s (Understand d f) = snd (record_understanding sv d f s)"
| "service_step sv s (Validate d r out) = snd (validate sv d r out s)"
| "service_step sv s (Start o' q h) = snd (start sv o' q h s)"
| "service_step sv s (RecordTest d r out c) = snd (record_test sv d r out c s)"
| "service_step sv s (ReturnToConclusion d) = snd (return_to_conclusion d s)"
| "service_step sv s (Branch d l) = snd (branch sv d l s)"

definition atlas_ok :: "atlas \<Rightarrow> bool" where
  "atlas_ok s \<longleftrightarrow> graph_wf (at_graph s) \<and> episodes_ok (at_discoveries s)"

lemma keeps_fresh_id [inv_intros]: "keeps atlas_ok (fresh_id sv p)"
  unfolding fresh_id_def by (intro inv_intros keeps_write) (simp add: atlas_ok_def)

lemma keeps_read_clock [inv_intros]: "keeps atlas_ok (read_clock sv)"
  unfolding read_clock_def by (intro inv_intros keeps_write) (simp add: atlas_ok_def)

lemma keeps_on_graph:
  "(\<And>g g'. graph_wf g \<Longrightarrow> f g = Inr g' \<Longrightarrow> graph_wf g') \<Longrightarrow> keeps atlas_ok (on_graph f)"
  by (auto simp: keeps_def on_graph_def atlas_ok_def split: sum.split)

lemma keeps_add_node [inv_intros]: "keeps atlas_ok (on_graph (add_node n))"
  by (rule keeps_on_graph) (rule add_node_wf)

lemma keeps_connect [inv_intros]: "keeps atlas_ok (on_graph (connect a b r i))"
  by (rule keeps_on_graph) (rule connect_wf)

lemma keeps_link [inv_intros]: "keeps atlas_ok (link sv a b r)"
  unfolding link_def by (intro inv_intros)

lemma keeps_on_store:
  "(\<And>m m'. episodes_ok m \<Longrightarrow> f m = Inr m' \<Longrightarrow> episodes_ok m') \<Longrightarrow> keeps atlas_ok (on_store f)"
  by (auto simp: keeps_def on_store_def atlas_ok_def split: sum.split)

lemma keeps_record [inv_intros]: "keeps atlas_ok (on_store (store_record e))"
  by (rule keeps_on_store) (rule episodes.record_keeps_ok)

lemma keeps_save [inv_intros]: "keeps atlas_ok (save_episode e)"
  unfolding save_episode_def
  by (intro inv_intros keeps_on_store) (rule episodes.replace_keeps_ok)

lemma keeps_find_episode [inv_intros]: "keeps I (find_episode d)"
  unfolding find_episode_def by (intro inv_intros)

lemma keeps_role_node [inv_intros]: "keeps I (role_node d r)"
  unfolding role_node_def by (intro inv_intros)

lemma keeps_case_option [inv_intros]:
  "keeps I m \<Longrightarrow> (\<And>y. keeps I (f y)) \<Longrightarrow> keeps I (case x of None \<Rightarrow> m | Some y \<Rightarrow> f y)"
  by (cases x) auto

lemma keeps_ensure_notice [inv_intros]: "keeps atlas_ok (ensure_notice sv ob d)"
  unfolding ensure_notice_def by (intro inv_intros)

lemma keeps_ask [inv_intros]: "keeps atlas_ok (ask sv i q)"
  unfolding ask_def by (intro inv_intros)

lemma keeps_hypothesise [inv_intros]: "keeps atlas_ok (hypothesise sv d h)"
  unfolding hypothesise_def by (intro inv_intros)

lemma keeps_record_understanding: "keeps atlas_ok (record_understanding sv d f)"
  unfolding record_understanding_def by (intro inv_intros)

lemma keeps_validate: "keeps atlas_ok (validate sv d r out)"
  unfolding validate_def by (intro inv_intros)

lemma keeps_start: "keeps atlas_ok (start sv i q h)"
  unfolding start_def by (intro inv_intros)

lemma keeps_record_test: "keeps atlas_ok (record_test sv d r out c)"
  unfolding record_test_def by (intro inv_intros)

lemma keeps_branch: "keeps atlas_ok (branch sv d l)"
  unfolding branch_def by (intro inv_intros)

lemma keeps_return: "keeps atlas_ok (return_to_conclusion d)"
proof (rule keepsI)
  fix s assume "atlas_ok s"
  then show "wp (return_to_conclusion d) (\<lambda>_. atlas_ok) atlas_ok s"
    by (simp add: return_to_conclusion_def find_episode_def wp_rules atlas_ok_def set_active_wf
        split: option.split)
qed

lemma service_step_ok: "atlas_ok s \<Longrightarrow> atlas_ok (service_step sv s c)"
  by (cases c)
    (simp_all add: keepsD keeps_ask keeps_hypothesise keeps_record_understanding keeps_validate
      keeps_start keeps_record_test keeps_return keeps_branch)

interpretation service_machine: invariant_system "service_step sv" atlas_ok for sv
  by unfold_locales (rule service_step_ok)

section \<open>Episodes only move forward\<close>

fun stage :: "validation_status \<Rightarrow> nat" where
  "stage Untested = 0"
| "stage UnderInvestigation = 1"
| "stage _ = 2"

text \<open>
  What the service may do to an episode: nothing at all once its status is terminal, otherwise
  extend its path, tests and evidence, set a missing hypothesis and raise its stage.
\<close>

definition same_origin :: "episode \<Rightarrow> episode \<Rightarrow> bool" where
  "same_origin e e' \<longleftrightarrow>
     e_id e' = e_id e \<and> e_investigation e' = e_investigation e \<and> e_notice e' = e_notice e \<and>
     e_question e' = e_question e \<and> e_context e' = e_context e \<and> e_provenance e' = e_provenance e"

definition advances :: "episode \<Rightarrow> episode \<Rightarrow> bool" where
  "advances e e' \<longleftrightarrow>
     same_origin e e' \<and> stage (e_status e) \<le> stage (e_status e') \<and>
     (terminal_status (e_status e) \<longrightarrow> e' = e) \<and>
     prefix (e_path e) (e_path e') \<and> prefix (e_tests e) (e_tests e') \<and>
     set (e_evidence e) \<subseteq> set (e_evidence e') \<and>
     (non_empty_opt (e_hypothesis e) \<longrightarrow> e_hypothesis e' = e_hypothesis e)"

lemma advances_refl [simp]: "advances e e"
  by (simp add: advances_def same_origin_def)

lemma advances_trans: "advances a b \<Longrightarrow> advances b c \<Longrightarrow> advances a c"
  by (auto simp: advances_def same_origin_def intro: prefix_order.trans)

definition store_advances :: "episode_store \<Rightarrow> episode_store \<Rightarrow> bool" where
  "store_advances m m' \<longleftrightarrow>
     (\<forall>i e. store_get m i = Some e \<longrightarrow> (\<exists>e'. store_get m' i = Some e' \<and> advances e e'))"

lemma store_advances_refl [simp]: "store_advances m m"
  by (auto simp: store_advances_def)

lemma store_advances_trans: "store_advances a b \<Longrightarrow> store_advances b c \<Longrightarrow> store_advances a c"
  unfolding store_advances_def by (meson advances_trans)

lemma store_advances_record: "store_record e m = Inr m' \<Longrightarrow> store_advances m m'"
  by (auto simp: store_record_Inr store_advances_def store_get_def js_has_def js_get_put)

lemma store_advances_replace:
  "store_replace e' m = Inr m' \<Longrightarrow> store_get m (e_id e') = Some e \<Longrightarrow> advances e e' \<Longrightarrow> store_advances m m'"
  by (auto simp: store_replace_Inr store_advances_def store_get_def js_get_put)

text \<open>Everything but the last call of a method leaves the episode store alone.\<close>

abbreviation stays :: "episode_store \<Rightarrow> 'a service \<Rightarrow> bool" where
  "stays m c \<equiv> keeps (\<lambda>s. at_discoveries s = m) c"

lemma stays_fresh_id [inv_intros]: "stays m (fresh_id sv p)"
  unfolding fresh_id_def by (intro inv_intros keeps_write) simp

lemma stays_read_clock [inv_intros]: "stays m (read_clock sv)"
  unfolding read_clock_def by (intro inv_intros keeps_write) simp

lemma stays_on_graph [inv_intros]: "stays m (on_graph f)"
  by (auto simp: keeps_def on_graph_def split: sum.split)

lemma stays_link [inv_intros]: "stays m (link sv a b r)"
  unfolding link_def by (intro inv_intros)

lemma stays_ensure_notice [inv_intros]: "stays m (ensure_notice sv ob d)"
  unfolding ensure_notice_def by (intro inv_intros)

lemma stays_branch: "stays m (branch sv d l)"
  unfolding branch_def by (intro inv_intros)

lemma stays_return: "stays m (return_to_conclusion d)"
  unfolding return_to_conclusion_def by (intro inv_intros keeps_write) simp

definition progress :: "episode_store \<Rightarrow> 'a service \<Rightarrow> bool" where
  "progress m c \<longleftrightarrow> (\<forall>s. at_discoveries s = m \<longrightarrow> store_advances m (at_discoveries (snd (c s))))"

lemma progress_stays: "stays m c \<Longrightarrow> progress m c"
  by (simp add: progress_def keeps_def)

lemma progress_bind:
  assumes "stays m c" and "\<And>x. progress m (f x)"
  shows "progress m (bindS c f)"
  using assms unfolding progress_def keeps_def bindS_def
  by (fastforce split: prod.split sum.split)

lemma progress_guard: "(b \<Longrightarrow> progress m (f ())) \<Longrightarrow> progress m (bindS (guardS b x) f)"
  by (auto simp: progress_def bindS_def guardS_def retS_def throwS_def)

lemma progress_find:
  "(\<And>e. store_get m d = Some e \<Longrightarrow> progress m (f e)) \<Longrightarrow> progress m (bindS (find_episode d) f)"
  by (auto simp: progress_def bindS_def find_episode_def readS_def needS_def retS_def throwS_def
      split: option.split)

lemma progress_on_store:
  "(\<And>m'. g m = Inr m' \<Longrightarrow> store_advances m m') \<Longrightarrow> progress m (bindS (on_store g) (\<lambda>_. retS x))"
  by (auto simp: progress_def bindS_def on_store_def retS_def split: sum.split)

lemma progress_save:
  "store_get m (e_id e') = Some e \<Longrightarrow> advances e e' \<Longrightarrow> progress m (save_episode e')"
  unfolding save_episode_def by (rule progress_on_store) (rule store_advances_replace)

lemmas progress_rules = progress_find progress_guard progress_bind

lemma progress_ask: "progress m (ask sv i q)"
  unfolding ask_def
  by (intro progress_rules progress_on_store inv_intros) (rule store_advances_record)

lemma progress_hypothesise:
  assumes "episodes_ok m"
  shows "progress m (hypothesise sv d h)"
  unfolding hypothesise_def
proof (intro progress_rules inv_intros)
  fix e h' i
  assume e: "store_get m d = Some e" "e_status e = Untested" "\<not> non_empty_opt (e_hypothesis e)"
  then have "e_id e = d" using store_ok_get [OF assms] by (simp add: store_get_def)
  with e show "progress m (save_episode
      (e\<lparr>e_hypothesis := Some h', e_status := UnderInvestigation, e_path := e_path e @ [i]\<rparr>))"
    by (intro progress_save [of m _ e]) (simp_all add: advances_def same_origin_def)
qed

lemma progress_record_understanding:
  assumes "episodes_ok m"
  shows "progress m (record_understanding sv d f)"
  unfolding record_understanding_def
proof (intro progress_rules inv_intros)
  fix e g i j
  assume e: "store_get m d = Some e" "e_status e = UnderInvestigation"
  then have "e_id e = d" using store_ok_get [OF assms] by (simp add: store_get_def)
  with e show "progress m (save_episode (understood e g [i, j]))"
    by (intro progress_save [of m _ e]) (auto simp: understood_def advances_def same_origin_def)
qed

lemma validated_advances:
  "\<not> terminal_status (e_status e) \<Longrightarrow> advances e (validated e t r out ids)"
  by (cases "e_status e"; cases out) (auto simp: validated_def advances_def same_origin_def)

lemma progress_validate:
  assumes "episodes_ok m"
  shows "progress m (validate sv d r out)"
  unfolding validate_def
proof (intro progress_rules inv_intros)
  fix e t i v
  assume e: "store_get m d = Some e" "e_status e = UnderInvestigation"
  then have "e_id e = d" using store_ok_get [OF assms] by (simp add: store_get_def)
  with e show "progress m (save_episode (validated e (classified_test t i out) i out [v]))"
    by (intro progress_save [of m _ e] validated_advances) (simp_all add: validated_def)
qed

lemma advances_conclusion:
  "\<not> terminal_status (e_status e) \<Longrightarrow> advances e e' \<Longrightarrow> advances e (e'\<lparr>e_conclusion := c\<rparr>)"
  by (simp add: advances_def same_origin_def)

lemma progress_record_test:
  assumes "episodes_ok m"
  shows "progress m (record_test sv d r out c)"
  unfolding record_test_def
proof (intro progress_rules inv_intros)
  fix e t i v w c'
  assume e: "store_get m d = Some e" "e_status e = UnderInvestigation \<or> e_status e = Untested"
  then have id: "e_id e = d" using store_ok_get [OF assms] by (simp add: store_get_def)
  let ?v = "validated e (classified_test t i out) i out [v, w]"
  have "advances e ?v" using e(2) by (intro validated_advances) auto
  then have "advances e (?v\<lparr>e_conclusion := Some c'\<rparr>)"
    using e(2) by (intro advances_conclusion) auto
  with e(1) id show "progress m (save_episode (?v\<lparr>e_conclusion := Some c'\<rparr>))"
    by (intro progress_save [of m _ e]) (simp_all add: validated_def)
qed

text \<open>Two calls in a row, each of which moves the episodes forward.\<close>

lemma progress_then:
  assumes c: "\<And>m. progress m c" "keeps atlas_ok c"
    and f: "\<And>m x. episodes_ok m \<Longrightarrow> progress m (f x)"
    and s: "atlas_ok s"
  shows "store_advances (at_discoveries s) (at_discoveries (snd (bindS c f s)))"
proof -
  obtain r t where r: "c s = (r, t)" by (cases "c s")
  from keepsD [OF c(2) s] r have ok: "episodes_ok (at_discoveries t)" by (simp add: atlas_ok_def)
  have one: "store_advances (at_discoveries s) (at_discoveries t)"
    using c(1) [of "at_discoveries s"] r by (auto simp: progress_def dest: spec [of _ s])
  show ?thesis
  proof (cases r)
    case (Inr x)
    have "store_advances (at_discoveries t) (at_discoveries (snd (f x t)))"
      using f [OF ok, of x] by (simp add: progress_def)
    with store_advances_trans [OF one] Inr r show ?thesis by (simp add: bindS_def)
  qed (use one r in \<open>simp add: bindS_def\<close>)
qed

lemma start_advances:
  assumes s: "atlas_ok s"
  shows "store_advances (at_discoveries s) (at_discoveries (snd (start sv i q h s)))"
proof -
  let ?two = "bindS (ask sv i q) (\<lambda>e. hypothesise sv (e_id e) h)"
  have "start sv i q h s = ?two s \<or> snd (start sv i q h s) = s"
    by (cases "required_text q ''Question''"; cases "required_text h ''Hypothesis''")
      (simp_all add: start_def bindS_def liftS_def)
  moreover have "store_advances (at_discoveries s) (at_discoveries (snd (?two s)))"
    by (rule progress_then [OF progress_ask keeps_ask progress_hypothesise s])
  ultimately show ?thesis by auto
qed

lemma progressD:
  "progress (at_discoveries s) c \<Longrightarrow> store_advances (at_discoveries s) (at_discoveries (snd (c s)))"
  by (simp add: progress_def)

lemma service_step_advances:
  assumes s: "atlas_ok s"
  shows "store_advances (at_discoveries s) (at_discoveries (service_step sv s c))"
proof -
  have ok: "episodes_ok (at_discoveries s)" using s by (simp add: atlas_ok_def)
  show ?thesis
    by (cases c) (simp_all add: progressD progress_ask progress_hypothesise [OF ok]
        progress_record_understanding [OF ok] progress_validate [OF ok] progress_record_test [OF ok]
        start_advances [OF s] progress_stays [OF stays_branch] progress_stays [OF stays_return])
qed

section \<open>Every verdict rests on one test\<close>

text \<open>
  What an episode records at each stage of its lifecycle. A tested episode holds exactly one test; it
  was classified on a result of the ledger, which the evidence cites, and the status is its verdict.
\<close>

fun verdict_ok :: "analysis_result list \<Rightarrow> episode \<Rightarrow> analytical_test list \<Rightarrow> bool" where
  "verdict_ok rs e [t] \<longleftrightarrow> non_empty_opt (e_conclusion e) \<and> e_status e = status_of_outcome (test_result t) \<and>
     list_ex (\<lambda>r. test_evidence t = [res_id r] \<and> test_method t = res_op r \<and> res_id r \<in> set (e_evidence e)) rs"
| "verdict_ok rs e _ \<longleftrightarrow> False"

definition on_record :: "analysis_result list \<Rightarrow> episode \<Rightarrow> bool" where
  "on_record rs e \<longleftrightarrow> (case e_status e of
     Untested \<Rightarrow> \<not> non_empty_opt (e_hypothesis e) \<and> e_tests e = [] \<and> e_conclusion e = None
   | UnderInvestigation \<Rightarrow> non_empty_opt (e_hypothesis e) \<and> e_tests e = []
   | _ \<Rightarrow> verdict_ok rs e (e_tests e))"

definition recorded :: "analysis_result list \<Rightarrow> atlas \<Rightarrow> bool" where
  "recorded rs s \<longleftrightarrow> at_results s = rs \<and> list_all (\<lambda>p. on_record rs (snd p)) (at_discoveries s)"

lemma recorded_fresh_id [inv_intros]: "keeps (recorded rs) (fresh_id sv p)"
  unfolding fresh_id_def by (intro inv_intros keeps_write) (simp add: recorded_def)

lemma recorded_read_clock [inv_intros]: "keeps (recorded rs) (read_clock sv)"
  unfolding read_clock_def by (intro inv_intros keeps_write) (simp add: recorded_def)

lemma recorded_on_graph [inv_intros]: "keeps (recorded rs) (on_graph f)"
  by (auto simp: keeps_def on_graph_def recorded_def split: sum.split)

lemma recorded_link [inv_intros]: "keeps (recorded rs) (link sv a b r)"
  unfolding link_def by (intro inv_intros)

lemma recorded_ensure_notice [inv_intros]: "keeps (recorded rs) (ensure_notice sv ob d)"
  unfolding ensure_notice_def by (intro inv_intros)

lemma recorded_branch: "keeps (recorded rs) (branch sv d l)"
  unfolding branch_def by (intro inv_intros)

lemma recorded_return: "keeps (recorded rs) (return_to_conclusion d)"
  unfolding return_to_conclusion_def by (intro inv_intros keeps_write) (simp add: recorded_def)

lemma recorded_put:
  assumes "recorded rs s" and "on_record rs e"
  shows "recorded rs (s\<lparr>at_discoveries := js_put i e (at_discoveries s)\<rparr>)"
  using assms by (auto simp: recorded_def list_all_iff dest!: in_js_put)

lemma recorded_record: "on_record rs e \<Longrightarrow> keeps (recorded rs) (on_store (store_record e))"
  by (auto simp: keeps_def on_store_def store_record_Inr recorded_put split: sum.split)

lemma recorded_save: "on_record rs e \<Longrightarrow> keeps (recorded rs) (save_episode e)"
  unfolding save_episode_def
  by (intro inv_intros) (auto simp: keeps_def on_store_def store_replace_Inr recorded_put split: sum.split)

text \<open>A guard, a lookup or a read hands what it found to the rest of the method.\<close>

lemma keeps_guard_bind: "(b \<Longrightarrow> keeps I (f ())) \<Longrightarrow> keeps I (bindS (guardS b x) f)"
  by (auto simp: keeps_def bindS_def guardS_def retS_def throwS_def)

lemma keeps_need_bind: "(\<And>y. x = Some y \<Longrightarrow> keeps I (f y)) \<Longrightarrow> keeps I (bindS (needS x e) f)"
  by (auto simp: keeps_def bindS_def needS_def retS_def throwS_def split: option.split)

lemma keeps_lift_bind: "(\<And>y. x = Inr y \<Longrightarrow> keeps I (f y)) \<Longrightarrow> keeps I (bindS (liftS x) f)"
  by (auto simp: keeps_def bindS_def liftS_def split: sum.split)

lemma recorded_find_bind:
  "(\<And>e. on_record rs e \<Longrightarrow> keeps (recorded rs) (f e)) \<Longrightarrow> keeps (recorded rs) (bindS (find_episode d) f)"
  by (fastforce simp: keeps_def bindS_def find_episode_def readS_def needS_def retS_def throwS_def recorded_def
      store_get_def list_all_iff dest: map_of_SomeD split: option.split)

lemma keeps_read_bind: "(\<And>s. keeps I (f (g s))) \<Longrightarrow> keeps I (bindS (readS g) f)"
  by (simp add: keeps_def bindS_def readS_def)

lemma recorded_results_bind:
  "keeps (recorded rs) (f (find (\<lambda>r. res_id r = i) rs)) \<Longrightarrow>
   keeps (recorded rs) (bindS (readS (\<lambda>s. find (\<lambda>r. res_id r = i) (at_results s))) f)"
  by (simp add: keeps_def bindS_def readS_def recorded_def)

lemmas recorded_rules = recorded_find_bind recorded_results_bind keeps_read_bind keeps_guard_bind keeps_need_bind
  keeps_lift_bind recorded_save recorded_record

lemma required_text_non_empty: "required_text v label = Inr t \<Longrightarrow> non_empty t"
proof -
  assume "required_text v label = Inr t"
  then have t: "t = js_trim v" "js_trim v \<noteq> []" by (auto simp: required_text_def Let_def split: if_splits)
  let ?x = "dropWhile js_ws (rev (dropWhile js_ws v))"
  have "?x \<noteq> []" using t(2) by (simp add: js_trim_def)
  then have "\<not> js_ws (hd ?x)" "hd ?x \<in> set t" using hd_dropWhile [of js_ws] by (auto simp: t(1) js_trim_def)
  then show "non_empty t" unfolding non_empty_def js_trim_eq_Nil_iff by blast
qed

lemma on_record_asked: "on_record rs (asked_episode sv s d ob fp q qid)"
  by (simp add: on_record_def asked_episode_def)

lemma on_record_hypothesis:
  assumes "on_record rs e" and "e_status e = Untested" and "non_empty h"
  shows "on_record rs (e\<lparr>e_hypothesis := Some h, e_status := UnderInvestigation, e_path := p\<rparr>)"
  using assms by (simp add: on_record_def)

lemma on_record_understood: "on_record rs e \<Longrightarrow> e_status e = UnderInvestigation \<Longrightarrow> on_record rs (understood e f ids)"
  by (simp add: on_record_def understood_def)

lemma on_record_validated:
  assumes "on_record rs e" and "e_status e = UnderInvestigation \<or> e_status e = Untested"
    and "find (\<lambda>r. res_id r = i) rs = Some r" and "non_empty_opt c"
  shows "on_record rs ((validated e (classified_test t r out) r out ids)\<lparr>e_conclusion := c\<rparr>)"
proof -
  have "r \<in> set rs" using assms(3) by (auto simp: find_Some_iff)
  then show ?thesis using assms(1,2,4)
    by (cases out) (auto simp: on_record_def validated_def classified_test_def list_ex_iff)
qed

lemma recorded_ask [inv_intros]: "keeps (recorded rs) (ask sv i q)"
  unfolding ask_def by (intro recorded_rules inv_intros on_record_asked)

lemma recorded_hypothesise [inv_intros]: "keeps (recorded rs) (hypothesise sv d h)"
  unfolding hypothesise_def
  by (intro recorded_rules inv_intros on_record_hypothesis) (auto dest: required_text_non_empty)

lemma recorded_understanding: "keeps (recorded rs) (record_understanding sv d f)"
  unfolding record_understanding_def by (intro recorded_rules inv_intros on_record_understood)

lemma recorded_validate: "keeps (recorded rs) (validate sv d r out)"
  unfolding validate_def
proof (intro recorded_rules inv_intros)
  fix e a t v
  assume "on_record rs e" "e_status e = UnderInvestigation" "non_empty_opt (e_conclusion e)" "find (\<lambda>x. res_id x = r) rs = Some a"
  from on_record_validated [OF this(1) disjI1 [OF this(2)] this(4,3), of t out "[v]"]
  show "on_record rs (validated e (classified_test t a out) a out [v])" by (simp add: validated_def)
qed

lemma recorded_test: "keeps (recorded rs) (record_test sv d r out c)"
  unfolding record_test_def
  by (intro recorded_rules inv_intros on_record_validated) (auto dest: required_text_non_empty)

lemma recorded_start: "keeps (recorded rs) (start sv i q h)"
  unfolding start_def by (intro inv_intros)

lemma service_step_recorded: "recorded rs s \<Longrightarrow> recorded rs (service_step sv s c)"
  by (cases c)
    (simp_all add: keepsD recorded_ask recorded_hypothesise recorded_understanding recorded_validate
      recorded_start recorded_test recorded_return recorded_branch)

interpretation verdicts: invariant_system "service_step sv" "recorded rs" for sv rs
  by unfold_locales (rule service_step_recorded)

section \<open>What a successful call has recorded\<close>

lemma find_episode_returns:
  "find_episode d s = (Inr e, s') \<longleftrightarrow> store_get (at_discoveries s) d = Some e \<and> s' = s"
  by (auto simp: find_episode_def bindS_Inr_iff returns_simps)

lemma save_episode_returns:
  "save_episode e s = (Inr e', s') \<Longrightarrow>
     e' = e \<and> episode_ok e \<and> store_get (at_discoveries s') (e_id e) = Some e"
  by (auto simp: save_episode_def bindS_Inr_iff returns_simps on_store_def store_replace_Inr
      store_get_def js_get_put split: sum.splits)

text \<open>Every store in which the service ends a call has the episodes filed under their ids.\<close>

lemma stored_id: "episodes_ok m \<Longrightarrow> store_get m d = Some e \<Longrightarrow> e_id e = d"
  using store_ok_get by (simp add: store_get_def)

section \<open>Properties\<close>

definition sample_services :: services where
  "sample_services =
     \<lparr>id_factory = (\<lambda>n p. p @ ''-'' @ show_nat n), clock = int, investigation_version = ''v1''\<rparr>"

definition sample_result :: "string \<Rightarrow> string \<Rightarrow> analysis_result" where
  "sample_result i fp = \<lparr>res_id = i, res_fingerprint = fp, res_version = 1, res_op = ''pca''\<rparr>"

text \<open>A loaded dataset with one notice, one analytical result and a finding that cites both.\<close>

definition sample_atlas :: "string \<Rightarrow> string \<Rightarrow> atlas" where
  "sample_atlas notes result_fp =
     \<lparr>at_observations = [\<lparr>obs_id = ''obs-1'', obs_time = 0, obs_notes = notes,
        obs_fingerprint = ''fp'', obs_version = 1\<rparr>],
      at_results = [sample_result ''res-1'' result_fp],
      at_findings = [\<lparr>fnd_id = ''find-1'', fnd_time = 1, fnd_description = ''two groups'',
        fnd_observations = [''obs-1''], fnd_results = [''res-1''], fnd_fingerprint = ''fp'',
        fnd_version = 1\<rparr>],
      at_fingerprint = Some ''fp'', at_version = 1, at_session = ''s'', at_decision = None,
      at_kernel = Some ''k1'', at_graph = empty_graph, at_discoveries = [], at_ids = 0, at_ticks = 0\<rparr>"

lemma sample_atlas_ok: "atlas_ok (sample_atlas notes fp)"
  by (simp add: atlas_ok_def sample_atlas_def empty_graph_wf)

text \<open>
  The same investigation after a question, a hypothesis and, when \<open>u\<close> is given, the understanding
  \<open>u\<close>: one episode and its two or three lineage nodes.
\<close>

definition role_sample :: "string \<Rightarrow> string \<Rightarrow> inv_node" where
  "role_sample i role = reasoning_node i KQuestion None 1 ''fp'' i 0 None
     [(''discoveryId'', MStr ''d''), (''discoveryRole'', MStr role)]"

definition explored_episode :: "string option \<Rightarrow> episode" where
  "explored_episode u =
     \<lparr>e_schema = episode_schema_version, e_id = ''d'', e_investigation = ''s'', e_notice = ''a gap'',
      e_question = Some ''why'', e_hypothesis = Some ''h'', e_path = [''obs-1'', ''q'', ''h''],
      e_tests = [], e_evidence = [''obs-1'', ''res-1''], e_conclusion = u,
      e_status = UnderInvestigation, e_context = decision_context None, e_judgement = None,
      e_provenance = \<lparr>ep_fingerprint = ''fp'', ep_version = Some (Fin 1), ep_kernel = ''k1'',
        ep_investigation = ''v1'', ep_language = None, ep_seeds = []\<rparr>\<rparr>"

definition explored_ops :: "graph_op list" where
  "explored_ops = [AddNode (role_sample ''q'' ''question''), AddNode (role_sample ''h'' ''hypothesis''),
     AddNode (role_sample ''u'' ''understanding''), Connect ''q'' ''h'' Motivates (Some ''e'')]"

definition explored_atlas :: "string option \<Rightarrow> string \<Rightarrow> atlas" where
  "explored_atlas u result_fp =
     (sample_atlas ''a gap'' result_fp)\<lparr>at_graph := run graph_step empty_graph explored_ops,
       at_discoveries := [(''d'', explored_episode u)]\<rparr>"

text \<open>
  C23: every verdict rests on exactly one recorded test. Whatever calls are made, in any order and with
  calls that throw half-way included, an untested episode has neither hypothesis nor test nor
  conclusion, one under investigation has a hypothesis and no test, and one with a terminal status has a
  conclusion and exactly one test: the test names the operation and cites the id of a result of the
  ledger, the episode's evidence contains that id, and the status is the one the outcome of this test
  stands for. The start may be any state whose episodes are like this, such as one without episodes.
\<close>

theorem verdicts_rest_on_one_test:
  assumes "\<forall>p\<in>set (at_discoveries s). on_record (at_results s) (snd p)"
  shows "\<forall>p\<in>set (at_discoveries (run (service_step sv) s calls)). on_record (at_results s) (snd p)"
proof -
  have "recorded (at_results s) s" using assms by (simp add: recorded_def list_all_iff)
  then have "recorded (at_results s) (run (service_step sv) s calls)" by (rule verdicts.run_inv)
  then show ?thesis by (simp add: recorded_def list_all_iff)
qed

lemma explored_atlas_ok:
  assumes "episode_ok (explored_episode u)"
  shows "atlas_ok (explored_atlas u fp)"
proof -
  have "graph_wf (run graph_step empty_graph explored_ops)"
    by (rule graph_machine.run_inv [OF empty_graph_wf])
  moreover have "episodes_ok [(''d'', explored_episode u)]"
    using assms by (simp add: store_ok_def explored_episode_def)
  ultimately show ?thesis by (simp add: atlas_ok_def explored_atlas_def)
qed

lemma explored_episode_ok: "assert_episode (explored_episode (Some ''two groups'')) = Inr ()"
  by code_simp

lemma understood_atlas_ok: "atlas_ok (explored_atlas (Some ''two groups'') ''fp'')"
  by (rule explored_atlas_ok)
    (use explored_episode_ok in \<open>simp add: assert_episode_def Let_def validate_episode_Nil_iff split: if_splits\<close>)

theorem verdicts_rest_on_one_test_witness:
  "\<exists>e. at_discoveries (run (service_step sample_services) (explored_atlas (Some ''two groups'') ''fp'')
       [Validate ''d'' ''res-1'' RefutesHypothesis]) = [(''d'', e)] \<and>
     e_status e = Refuted \<and> on_record [sample_result ''res-1'' ''fp''] e"
proof -
  let ?s = "explored_atlas (Some ''two groups'') ''fp''"
  let ?t = "run (service_step sample_services) ?s [Validate ''d'' ''res-1'' RefutesHypothesis]"
  have "map (\<lambda>(i, e). (i, e_status e)) (at_discoveries ?t) = [(''d'', Refuted)]" by code_simp
  then obtain e where e: "at_discoveries ?t = [(''d'', e)]" "e_status e = Refuted"
    by (auto simp: map_eq_Cons_conv)
  have rs: "at_results ?s = [sample_result ''res-1'' ''fp'']" by (simp add: explored_atlas_def sample_atlas_def)
  have "non_empty_opt (Some ''h'')" by code_simp
  then have "\<forall>p\<in>set (at_discoveries ?s). on_record (at_results ?s) (snd p)"
    by (simp add: explored_atlas_def explored_episode_def on_record_def)
  from verdicts_rest_on_one_test [OF this, of sample_services "[Validate ''d'' ''res-1'' RefutesHypothesis]"] e rs
  show ?thesis by simp
qed

text \<open>
  C22: no call ever drops an episode, moves it back in its lifecycle, shortens its path, tests or
  evidence, replaces its hypothesis, or touches it once its validation is terminal.
\<close>

theorem episodes_only_move_forward:
  assumes "atlas_ok s" and "store_get (at_discoveries s) i = Some e"
  shows "\<exists>e'. store_get (at_discoveries (run (service_step sv) s calls)) i = Some e' \<and> advances e e'"
proof -
  have "store_advances (at_discoveries s) (at_discoveries (run (service_step sv) s calls))"
    by (rule service_machine.run_preorder [where R = "\<lambda>a b. store_advances (at_discoveries a) (at_discoveries b)"])
      (use assms(1) service_step_advances store_advances_trans in auto)
  with assms(2) show ?thesis by (auto simp: store_advances_def)
qed

theorem episodes_only_move_forward_witness:
  "\<exists>e'. store_get (at_discoveries (run (service_step sample_services)
       (explored_atlas (Some ''two groups'') ''fp'')
       [Validate ''d'' ''res-1'' RefutesHypothesis, Hypothesise ''d'' ''other'']) ) ''d'' = Some e' \<and>
     advances (explored_episode (Some ''two groups'')) e'"
proof (rule episodes_only_move_forward [OF understood_atlas_ok])
  show "store_get (at_discoveries (explored_atlas (Some ''two groups'') ''fp'')) ''d''
      = Some (explored_episode (Some ''two groups''))"
    by (simp add: explored_atlas_def store_get_def)
qed

text \<open>
  C24: \<open>validate\<close> returns only when the recorded understanding cites the analytical result, the
  result belongs to the dataset the episode was captured on, and the episode was under investigation;
  it then stores the outcome's status and one more test that cites exactly that result, and leaves
  the conclusion as the researcher recorded it.
\<close>

theorem validation_is_evidence_backed:
  assumes "episodes_ok (at_discoveries s)" and "validate sv d rid out s = (Inr e', s')"
  shows "\<exists>e r. store_get (at_discoveries s) d = Some e \<and> e_status e = UnderInvestigation \<and>
           non_empty_opt (e_conclusion e) \<and> r \<in> set (at_results s) \<and> res_id r = rid \<and>
           rid \<in> set (e_evidence e) \<and> res_fingerprint r = ep_fingerprint (e_provenance e) \<and>
           e_status e' = status_of_outcome out \<and> e_conclusion e' = e_conclusion e \<and>
           (\<exists>t. e_tests e' = e_tests e @ [t] \<and> test_evidence t = [rid] \<and> test_result t = out) \<and>
           store_get (at_discoveries s') d = Some e'"
proof -
  from assms(2) obtain e r tid vid u where e:
      "store_get (at_discoveries s) d = Some e" "e_status e = UnderInvestigation"
      "non_empty_opt (e_conclusion e)" "find (\<lambda>r. res_id r = rid) (at_results s) = Some r"
      "same_dataset e (res_fingerprint r)" "res_id r \<in> set (e_evidence e)"
      and save: "save_episode (validated e (classified_test tid r out) r out [vid]) u = (Inr e', s')"
    by (auto simp: validate_def bindS_Inr_iff returns_simps find_episode_returns)
  have id: "e_id e = d" by (rule stored_id [OF assms(1) e(1)])
  have r: "r \<in> set (at_results s)" "res_id r = rid" using e(4) by (auto simp: find_Some_iff)
  show ?thesis
    using save_episode_returns [OF save] e(1-3,5,6) id r
    by (intro exI [of _ e] exI [of _ r]) (simp add: same_dataset_def validated_def classified_test_def)
qed

theorem validation_is_evidence_backed_witness:
  "\<exists>e'. fst (validate sample_services ''d'' ''res-1'' RefutesHypothesis
             (explored_atlas (Some ''two groups'') ''fp'')) = Inr e' \<and>
     e_status e' = Refuted \<and> e_conclusion e' = Some ''two groups''"
proof -
  let ?s = "explored_atlas (Some ''two groups'') ''fp''"
  let ?run = "validate sample_services ''d'' ''res-1'' RefutesHypothesis ?s"
  have "isl (fst ?run) = False" by code_simp
  then obtain e' s' where run: "?run = (Inr e', s')" by (cases ?run; cases "fst ?run") auto
  have "episodes_ok (at_discoveries ?s)" using understood_atlas_ok by (simp add: atlas_ok_def)
  from validation_is_evidence_backed [OF this run] run show ?thesis
    by (auto simp: explored_atlas_def store_get_def explored_episode_def)
qed

text \<open>
  The combined \<open>recordTest\<close> accepts what \<open>validate\<close> refuses: a hypothesis about the dataset
  \<open>fp\<close> becomes supported by a result computed on another dataset.
\<close>

theorem combined_test_takes_foreign_evidence:
  "map res_fingerprint (at_results (explored_atlas (Some ''c'') ''other'')) = [''other''] \<and>
   ep_fingerprint (e_provenance (explored_episode (Some ''c''))) = ''fp'' \<and>
   fst (validate sample_services ''d'' ''res-1'' SupportsHypothesis (explored_atlas (Some ''c'') ''other''))
     = Inl (EvidenceOfOtherDataset ''res-1'') \<and>
   (case record_test sample_services ''d'' ''res-1'' SupportsHypothesis ''yes''
           (explored_atlas (Some ''c'') ''other'') of
      (Inr e, t) \<Rightarrow> e_status e = Supported \<and> e_conclusion e = Some ''yes''
    | (Inl x, t) \<Rightarrow> False)"
  by code_simp

text \<open>
  \<open>ask\<close> is not atomic. On a notice whose text is blank it throws when the episode is stored,
  after it has already added the notice and a question node to the graph and made the orphaned
  question the active node.
\<close>

theorem failed_question_stays_in_graph:
  "case ask sample_services ''obs-1'' ''why?'' (sample_atlas '' '' ''fp'') of
     (Inl x, t) \<Rightarrow> at_discoveries t = [] \<and>
       js_keys (g_nodes (at_graph t)) = [''obs-1'', ''question-1''] \<and>
       g_active (at_graph t) = Some ''question-1''
   | (Inr e, t) \<Rightarrow> False"
  by code_simp

end
