(* ===== verification/Identity_Key.thy ===== *)
theory Identity_Key
  imports Js_Prelude
begin

text \<open>
  The composite keys of the two VR resource governors: fields tagged with their type, escaped with
  \<open>encodeURIComponent\<close> and joined with a bar. The escape of the language's library is modelled on
  the code points 0 to 255; the lemmas show it is injective and never produces a bar, so that a
  key determines its fields.
\<close>

definition hex_digit :: "nat \<Rightarrow> char" where
  "hex_digit n = (if n < 10 then char_of (48 + n) else char_of (55 + n))"

definition percent :: "nat \<Rightarrow> string" where
  "percent n = [CHR ''%'', hex_digit (n div 16), hex_digit (n mod 16)]"

text \<open>The characters \<open>encodeURIComponent\<close> leaves alone: letters, digits and a few marks.\<close>

definition uri_unreserved :: "nat \<Rightarrow> bool" where
  "uri_unreserved n \<longleftrightarrow> 48 \<le> n \<and> n \<le> 57 \<or> 65 \<le> n \<and> n \<le> 90 \<or> 97 \<le> n \<and> n \<le> 122 \<or>
     n \<in> {45, 95, 46, 33, 126, 42, 39, 40, 41}"

definition uri_char :: "char \<Rightarrow> string" where
  "uri_char c = (let n = of_char c in
     if uri_unreserved n then [c]
     else if n < 128 then percent n
     else percent (192 + n div 64) @ percent (128 + n mod 64))"

definition encode_uri :: "string \<Rightarrow> string" where
  "encode_uri s = concat (map uri_char s)"

text \<open>The inverse, as \<open>decodeURIComponent\<close> reads one or two escaped bytes.\<close>

definition unhex :: "char \<Rightarrow> nat" where
  "unhex c = (let n = of_char c in if n < 58 then n - 48 else n - 55)"

fun decode_uri :: "string \<Rightarrow> string" where
  "decode_uri [] = []"
| "decode_uri (c # cs) =
     (if c = CHR ''%'' then
        (case cs of
           a # b # rest \<Rightarrow>
             (let n = 16 * unhex a + unhex b in
              if n < 128 then char_of n # decode_uri rest
              else case rest of
                     _ # a' # b' # rest' \<Rightarrow>
                       char_of ((n - 192) * 64 + (16 * unhex a' + unhex b' - 128)) # decode_uri rest'
                   | _ \<Rightarrow> [])
         | _ \<Rightarrow> [])
      else c # decode_uri cs)"

lemma of_char_less: "(of_char c :: nat) < 256"
  by (cases c) (simp add: of_char_def horner_sum_simps)

lemma unhex_hex: "n < 16 \<Longrightarrow> unhex (hex_digit n) = n"
  by (simp add: unhex_def hex_digit_def of_char_of)

lemma decode_percent:
  assumes "n < 128" shows "decode_uri (percent n @ rest) = char_of n # decode_uri rest"
proof -
  have "n div 16 < 16" "n mod 16 < 16" "16 * (n div 16) + n mod 16 = n" using assms by auto
  with assms show ?thesis by (simp add: percent_def unhex_hex)
qed

lemma decode_two_percents:
  assumes "128 \<le> n" "n < 256"
  shows "decode_uri (percent (192 + n div 64) @ percent (128 + n mod 64) @ rest) = char_of n # decode_uri rest"
proof -
  let ?a = "192 + n div 64" and ?b = "128 + n mod 64"
  have "?a div 16 < 16" "?a mod 16 < 16" "?b div 16 < 16" "?b mod 16 < 16"
      "16 * (?a div 16) + ?a mod 16 = ?a" "16 * (?b div 16) + ?b mod 16 = ?b"
      "(?a - 192) * 64 + (?b - 128) = n"
    using assms by auto
  then show ?thesis by (simp add: percent_def unhex_hex)
qed

lemma decode_uri_char: "decode_uri (uri_char c @ rest) = c # decode_uri rest"
proof -
  let ?n = "of_char c :: nat"
  have c: "char_of ?n = c" by simp
  have "c \<noteq> CHR ''%'' \<or> \<not> uri_unreserved ?n" by (auto simp: uri_unreserved_def)
  then show ?thesis
    using decode_percent [of ?n rest] decode_two_percents [of ?n rest] of_char_less [of c] c
    by (cases "uri_unreserved ?n"; cases "?n < 128") (simp_all add: uri_char_def Let_def)
qed

lemma decode_encode: "decode_uri (encode_uri s) = s"
  by (induction s) (simp_all add: encode_uri_def decode_uri_char)

lemma encode_uri_inj [simp]: "encode_uri s = encode_uri t \<longleftrightarrow> s = t"
  by (metis decode_encode)

lemma hex_digit_no_bar: "n < 16 \<Longrightarrow> hex_digit n \<noteq> CHR ''|''"
proof
  assume "n < 16" "hex_digit n = CHR ''|''"
  then have "unhex (CHR ''|'') = n" using unhex_hex [of n] by simp
  with \<open>n < 16\<close> show False by (simp add: unhex_def)
qed

lemma percent_no_bar:
  assumes "n < 256" shows "CHR ''|'' \<notin> set (percent n)"
proof -
  have "n div 16 < 16" "n mod 16 < 16" using assms by auto
  from this [THEN hex_digit_no_bar] have
    "hex_digit (n div 16) \<noteq> CHR ''|''" "hex_digit (n mod 16) \<noteq> CHR ''|''" by auto
  then show ?thesis by (auto simp: percent_def)
qed

lemma encode_uri_no_bar [simp]: "CHR ''|'' \<notin> set (encode_uri s)"
proof -
  have "CHR ''|'' \<notin> set (uri_char c)" for c
  proof -
    let ?n = "of_char c :: nat"
    have "?n < 256" "192 + ?n div 64 < 256" "128 + ?n mod 64 < 256" using of_char_less [of c] by arith+
    from this [THEN percent_no_bar] show ?thesis
      by (auto simp: uri_char_def Let_def uri_unreserved_def)
  qed
  then show ?thesis by (simp add: encode_uri_def)
qed

section \<open>Tagged fields\<close>

text \<open>A field of an identity: null, a string or an integer.\<close>

datatype key_field = FNull | FStr string | FNum int

definition encode_field :: "key_field \<Rightarrow> string" where
  "encode_field f = (case f of
     FNull \<Rightarrow> ''null''
   | FStr s \<Rightarrow> ''string:'' @ encode_uri s
   | FNum i \<Rightarrow> ''number:'' @ encode_uri (show_int i))"

definition str_field :: "string option \<Rightarrow> key_field" where
  "str_field x = (case x of None \<Rightarrow> FNull | Some s \<Rightarrow> FStr s)"

definition num_field :: "int option \<Rightarrow> key_field" where
  "num_field x = (case x of None \<Rightarrow> FNull | Some i \<Rightarrow> FNum i)"

lemma str_field_inj [simp]: "str_field x = str_field y \<longleftrightarrow> x = y"
  by (simp add: str_field_def split: option.split)

lemma num_field_inj [simp]: "num_field x = num_field y \<longleftrightarrow> x = y"
  by (simp add: num_field_def split: option.split)

lemma encode_field_inj [simp]: "encode_field f = encode_field g \<longleftrightarrow> f = g"
  by (cases f; cases g) (simp_all add: encode_field_def)

lemma encode_field_no_bar [simp]: "CHR ''|'' \<notin> set (encode_field f)"
  by (cases f) (simp_all add: encode_field_def)

fun join_bar :: "string list \<Rightarrow> string" where
  "join_bar [] = []"
| "join_bar [x] = x"
| "join_bar (x # y # xs) = x @ CHR ''|'' # join_bar (y # xs)"

lemma join_bar_inj:
  assumes "length xs = length ys"
    and "\<forall>x \<in> set xs. CHR ''|'' \<notin> set x" and "\<forall>y \<in> set ys. CHR ''|'' \<notin> set y"
    and "join_bar xs @ z = join_bar ys @ z"
  shows "xs = ys"
  using assms
proof (induction xs ys rule: list_induct2)
  case (Cons x xs y ys)
  show ?case
  proof (cases xs)
    case Nil
    with Cons show ?thesis by simp
  next
    case (Cons x' xs')
    note xs = this
    with Cons.hyps obtain y' ys' where ys: "ys = y' # ys'" by (cases ys) auto
    from Cons.prems(3) have "x @ CHR ''|'' # join_bar xs = y @ CHR ''|'' # join_bar ys"
      by (simp add: xs ys)
    from append_sep_inj [OF this] Cons.prems(1,2) have "x = y" "join_bar xs = join_bar ys" by auto
    with Cons.IH Cons.prems(1,2) show ?thesis by simp
  qed
qed simp

text \<open>The same, followed by a bar and a tail: how a key with a suffix splits.\<close>

lemma join_bar_split:
  assumes "length xs = length ys" and "xs \<noteq> []"
    and "\<forall>x \<in> set xs. CHR ''|'' \<notin> set x" and "\<forall>y \<in> set ys. CHR ''|'' \<notin> set y"
    and "join_bar xs @ CHR ''|'' # s = join_bar ys @ CHR ''|'' # t"
  shows "xs = ys \<and> s = t"
  using assms
proof (induction xs ys rule: list_induct2)
  case (Cons x xs y ys)
  show ?case
  proof (cases xs)
    case Nil
    with Cons.hyps Cons.prems show ?thesis using append_sep_inj [of x _ s y t] by auto
  next
    case (Cons x' xs')
    note xs = this
    with Cons.hyps obtain y' ys' where ys: "ys = y' # ys'" by (cases ys) auto
    from Cons.prems(4) have "x @ CHR ''|'' # join_bar xs @ CHR ''|'' # s = y @ CHR ''|'' # join_bar ys @ CHR ''|'' # t"
      by (simp add: xs ys)
    from append_sep_inj [OF this] Cons.prems(2,3)
    have "x = y" "join_bar xs @ CHR ''|'' # s = join_bar ys @ CHR ''|'' # t" by auto
    with Cons.IH Cons.prems(2,3) xs show ?thesis by simp
  qed
qed simp

end
