(* ===== verification/Semantic_Governor.thy ===== *)
theory Semantic_Governor
  imports Identity_Key
begin

text \<open>
  The bounded working set of \<open>src/vr/scalability/SemanticMaterialisationGovernor.ts\<close>: requests wait
  in a queue, a tick materialises a few of them, an identity is resident at one level at most, and
  an evicted identity leaves a descriptor from which it can be asked for again. Dataset generations,
  versions, limits and costs are the integers that the validators let through (a fraction or NaN is
  refused by them before it is used); a sum of costs beyond the safe integers is refused, so the
  sums are exact. A materialiser is what it will return or throw when it is called; it does not call
  the governor back.
\<close>

section \<open>Data\<close>

datatype sem_level = Coarse | Refined

record sem_identity =
  si_fingerprint :: string
  si_generation :: "int option"
  si_decision :: "string option"
  si_version :: "int option"
  si_semantic :: string

record sem_cost =
  sc_schema :: string
  sc_bytes :: int
  sc_elements :: int
  sc_batches :: int
  sc_work :: int

record sem_request =
  rq_identity :: sem_identity
  rq_level :: sem_level
  rq_cost :: "sem_cost option"

record sem_policy =
  sp_version :: string
  sp_resident :: int
  sp_queued :: int
  sp_per_tick :: int
  sp_bytes :: "int option"
  sp_elements :: "int option"
  sp_batches :: "int option"
  sp_work :: "int option"

record 'v sem_pending =
  pd_request :: sem_request
  pd_outcome :: "string + 'v"
  pd_reconstruction :: bool

record 'v sem_governor =
  gv_resident :: "(string, 'v) js_map"
  gv_cost :: "(string, sem_cost) js_map"
  gv_queue :: "'v sem_pending list"
  gv_refused :: nat
  gv_materialised :: nat
  gv_promoted :: nat
  gv_collapsed :: nat
  gv_evicted :: nat
  gv_reconstructed :: nat

datatype admission = Accepted | Refusal string
datatype 'v tick_result = Materialised 'v | TickRefused string

definition cost_schema :: string where
  "cost_schema = ''semantic-materialisation-cost/v1''"

definition descriptor_schema :: string where
  "descriptor_schema = ''semantic-materialisation-descriptor/v1''"

definition safe_int :: "int \<Rightarrow> bool" where
  "safe_int n \<longleftrightarrow> \<bar>n\<bar> \<le> 9007199254740991"

definition safe_nat :: "int \<Rightarrow> bool" where
  "safe_nat n \<longleftrightarrow> safe_int n \<and> 0 \<le> n"

fun safe_nat_opt :: "int option \<Rightarrow> bool" where
  "safe_nat_opt None = True"
| "safe_nat_opt (Some n) = safe_nat n"

section \<open>Keys\<close>

fun level_name :: "sem_level \<Rightarrow> string" where
  "level_name Coarse = ''COARSE''"
| "level_name Refined = ''REFINED''"

fun opposite_level :: "sem_level \<Rightarrow> sem_level" where
  "opposite_level Coarse = Refined"
| "opposite_level Refined = Coarse"

definition identity_fields :: "sem_identity \<Rightarrow> key_field list" where
  "identity_fields i = [FStr (si_fingerprint i), num_field (si_generation i),
     num_field (si_version i), str_field (si_decision i), FStr (si_semantic i)]"

definition semantic_identity_key :: "sem_identity \<Rightarrow> string" where
  "semantic_identity_key i = join_bar (map encode_field (identity_fields i))"

definition materialisation_key :: "sem_identity \<Rightarrow> sem_level \<Rightarrow> string" where
  "materialisation_key i l = semantic_identity_key i @ ''|level:'' @ level_name l"

definition request_key :: "sem_request \<Rightarrow> string" where
  "request_key r = materialisation_key (rq_identity r) (rq_level r)"

definition opposite_key :: "sem_request \<Rightarrow> string" where
  "opposite_key r = materialisation_key (rq_identity r) (opposite_level (rq_level r))"

definition pending_key :: "'v sem_pending \<Rightarrow> string" where
  "pending_key q = request_key (pd_request q)"

section \<open>Admission\<close>

definition new_governor :: "sem_policy \<Rightarrow> string + 'v sem_governor" where
  "new_governor p =
     (if sp_version p = [] then Inl ''Semantic materialisation policyVersion is required''
      else if \<not> (safe_nat (sp_resident p) \<and> safe_nat (sp_queued p) \<and> safe_nat (sp_per_tick p) \<and>
                  safe_nat_opt (sp_bytes p) \<and> safe_nat_opt (sp_elements p) \<and>
                  safe_nat_opt (sp_batches p) \<and> safe_nat_opt (sp_work p))
        then Inl ''Semantic materialisation limits must be non-negative integers''
      else Inr \<lparr>gv_resident = [], gv_cost = [], gv_queue = [], gv_refused = 0, gv_materialised = 0,
                gv_promoted = 0, gv_collapsed = 0, gv_evicted = 0, gv_reconstructed = 0\<rparr>)"

definition refuse :: "string \<Rightarrow> 'v sem_governor \<Rightarrow> admission \<times> 'v sem_governor" where
  "refuse reason g = (Refusal reason, g\<lparr>gv_refused := Suc (gv_refused g)\<rparr>)"

definition validate_identity :: "sem_identity \<Rightarrow> string option" where
  "validate_identity i =
     (if js_trim (si_fingerprint i) = [] then Some ''SEMANTIC_DATASET_IDENTITY_REQUIRED''
      else if \<not> safe_nat_opt (si_generation i) \<or> \<not> safe_nat_opt (si_version i)
        then Some ''SEMANTIC_DATASET_VERSION_IDENTITY_INVALID''
      else if js_trim (si_semantic i) = [] then Some ''SEMANTIC_IDENTITY_REQUIRED''
      else None)"

definition validate_cost :: "sem_policy \<Rightarrow> sem_cost option \<Rightarrow> string option" where
  "validate_cost p c = (case c of
     None \<Rightarrow> if sp_bytes p \<noteq> None \<or> sp_elements p \<noteq> None \<or> sp_batches p \<noteq> None \<or> sp_work p \<noteq> None
             then Some ''SEMANTIC_PRESENTATION_COST_REQUIRED'' else None
   | Some k \<Rightarrow>
       if sc_schema k \<noteq> cost_schema then Some ''SEMANTIC_PRESENTATION_COST_INVALID''
       else if safe_nat (sc_bytes k) \<and> safe_nat (sc_elements k) \<and> safe_nat (sc_batches k) \<and> safe_nat (sc_work k)
         then None else Some ''SEMANTIC_PRESENTATION_COST_INVALID'')"

text \<open>The costs of the residents, but for the one stored under the key that would be replaced.\<close>

definition counted_costs :: "string option \<Rightarrow> 'v sem_governor \<Rightarrow> sem_cost list" where
  "counted_costs excluding g = map snd (filter (\<lambda>q. Some (fst q) \<noteq> excluding) (gv_cost g))"

definition total_cost :: "(sem_cost \<Rightarrow> int) \<Rightarrow> string option \<Rightarrow> 'v sem_governor \<Rightarrow> int" where
  "total_cost dim excluding g = sum_list (map dim (counted_costs excluding g))"

fun within :: "int \<Rightarrow> int option \<Rightarrow> bool" where
  "within v None = True"
| "within v (Some limit) = (safe_int v \<and> v \<le> limit)"

definition cost_fits :: "sem_policy \<Rightarrow> sem_cost option \<Rightarrow> string option \<Rightarrow> 'v sem_governor \<Rightarrow> bool" where
  "cost_fits p c excluding g = (case c of
     None \<Rightarrow> True
   | Some k \<Rightarrow>
       within (total_cost sc_bytes excluding g + sc_bytes k) (sp_bytes p) \<and>
       within (total_cost sc_elements excluding g + sc_elements k) (sp_elements p) \<and>
       within (total_cost sc_batches excluding g + sc_batches k) (sp_batches p) \<and>
       within (total_cost sc_work excluding g + sc_work k) (sp_work p))"

definition has_opposite_level :: "'v sem_governor \<Rightarrow> sem_request \<Rightarrow> bool" where
  "has_opposite_level g r = js_has (gv_resident g) (opposite_key r)"

definition enqueue ::
  "sem_policy \<Rightarrow> sem_request \<Rightarrow> string + 'v \<Rightarrow> bool \<Rightarrow> 'v sem_governor \<Rightarrow> admission \<times> 'v sem_governor" where
  "enqueue p r outcome again g =
     (case validate_identity (rq_identity r) of Some e \<Rightarrow> refuse e g | None \<Rightarrow>
      case validate_cost p (rq_cost r) of Some e \<Rightarrow> refuse e g | None \<Rightarrow>
      let key = request_key r in
      if js_has (gv_resident g) key \<or> list_ex (\<lambda>q. pending_key q = key) (gv_queue g) then (Accepted, g)
      else if int (length (gv_queue g)) \<ge> sp_queued p then refuse ''SEMANTIC_BACKPRESSURE_QUEUE_FULL'' g
      else
        let replacing = has_opposite_level g r;
            excluding = (if replacing \<and> js_has (gv_cost g) (opposite_key r) then Some (opposite_key r) else None)
        in if \<not> cost_fits p (rq_cost r) excluding g then refuse ''SEMANTIC_PRESENTATION_COST_BOUND_REACHED'' g
           else if int (length (gv_resident g)) \<ge> sp_resident p \<and> gv_queue g = [] \<and> \<not> replacing
             then refuse ''SEMANTIC_RESIDENCY_BOUND_REACHED'' g
           else (Accepted, g\<lparr>gv_queue := gv_queue g @
                   [\<lparr>pd_request = r, pd_outcome = outcome, pd_reconstruction = again\<rparr>]\<rparr>))"

definition request ::
  "sem_policy \<Rightarrow> sem_request \<Rightarrow> string + 'v \<Rightarrow> 'v sem_governor \<Rightarrow> admission \<times> 'v sem_governor" where
  "request p r outcome g = enqueue p r outcome False g"

section \<open>Descriptors\<close>

text \<open>A field of an untrusted descriptor: null, a string, an integer, or anything else.\<close>

datatype raw_field = RawNull | RawStr string | RawInt int | RawOther

record raw_identity =
  ri_fingerprint :: raw_field
  ri_generation :: raw_field
  ri_decision :: raw_field
  ri_version :: raw_field
  ri_semantic :: raw_field

record raw_descriptor =
  rd_schema :: raw_field
  rd_identity :: "raw_identity option"
  rd_level :: raw_field

fun raw_string :: "raw_field \<Rightarrow> bool" where
  "raw_string (RawStr s) = True"
| "raw_string _ = False"

fun raw_null_or_string :: "raw_field \<Rightarrow> bool" where
  "raw_null_or_string RawNull = True"
| "raw_null_or_string f = raw_string f"

fun raw_null_or_safe :: "raw_field \<Rightarrow> bool" where
  "raw_null_or_safe RawNull = True"
| "raw_null_or_safe (RawInt n) = safe_int n"
| "raw_null_or_safe _ = False"

definition raw_of_string :: "string option \<Rightarrow> raw_field" where
  "raw_of_string x = (case x of None \<Rightarrow> RawNull | Some s \<Rightarrow> RawStr s)"

definition raw_of_int :: "int option \<Rightarrow> raw_field" where
  "raw_of_int x = (case x of None \<Rightarrow> RawNull | Some n \<Rightarrow> RawInt n)"

definition raw_well_typed :: "raw_identity \<Rightarrow> bool" where
  "raw_well_typed i \<longleftrightarrow> raw_string (ri_fingerprint i) \<and> raw_null_or_safe (ri_generation i) \<and>
     raw_null_or_string (ri_decision i) \<and> raw_null_or_safe (ri_version i) \<and> raw_string (ri_semantic i)"

text \<open>\<open>None\<close> is a descriptor that is not an object.\<close>

definition descriptor_matches :: "raw_descriptor option \<Rightarrow> sem_request \<Rightarrow> bool" where
  "descriptor_matches d r = (case d of None \<Rightarrow> False | Some c \<Rightarrow>
     (case rd_identity c of None \<Rightarrow> False | Some i \<Rightarrow>
        raw_well_typed i \<and> rd_schema c = RawStr descriptor_schema \<and>
        rd_level c = RawStr (level_name (rq_level r)) \<and>
        ri_fingerprint i = RawStr (si_fingerprint (rq_identity r)) \<and>
        ri_generation i = raw_of_int (si_generation (rq_identity r)) \<and>
        ri_decision i = raw_of_string (si_decision (rq_identity r)) \<and>
        ri_version i = raw_of_int (si_version (rq_identity r)) \<and>
        ri_semantic i = RawStr (si_semantic (rq_identity r))))"

definition descriptor_of :: "sem_identity \<Rightarrow> sem_level \<Rightarrow> raw_descriptor" where
  "descriptor_of i l = \<lparr>rd_schema = RawStr descriptor_schema,
     rd_identity = Some \<lparr>ri_fingerprint = RawStr (si_fingerprint i), ri_generation = raw_of_int (si_generation i),
       ri_decision = raw_of_string (si_decision i), ri_version = raw_of_int (si_version i),
       ri_semantic = RawStr (si_semantic i)\<rparr>,
     rd_level = RawStr (level_name l)\<rparr>"

definition reconstruct ::
  "sem_policy \<Rightarrow> raw_descriptor option \<Rightarrow> sem_request \<Rightarrow> string + 'v \<Rightarrow> 'v sem_governor \<Rightarrow>
   admission \<times> 'v sem_governor" where
  "reconstruct p d r outcome g =
     (case validate_identity (rq_identity r) of Some e \<Rightarrow> refuse e g | None \<Rightarrow>
      if \<not> descriptor_matches d r then refuse ''SEMANTIC_RECONSTRUCTION_DESCRIPTOR_MISMATCH'' g
      else enqueue p r outcome True g)"

section \<open>Materialisation, release and eviction\<close>

fun find_index :: "('a \<Rightarrow> bool) \<Rightarrow> 'a list \<Rightarrow> nat option" where
  "find_index f [] = None"
| "find_index f (x # xs) = (if f x then Some 0 else map_option Suc (find_index f xs))"

definition next_pending :: "sem_policy \<Rightarrow> 'v sem_governor \<Rightarrow> nat option" where
  "next_pending p g =
     (if int (length (gv_resident g)) \<ge> sp_resident p
      then find_index (\<lambda>q. has_opposite_level g (pd_request q)) (gv_queue g) else Some 0)"

definition admit :: "'v sem_pending \<Rightarrow> 'v \<Rightarrow> 'v sem_governor \<Rightarrow> 'v sem_governor" where
  "admit q v g =
     (let r = pd_request q;
          g1 = (if has_opposite_level g r
                then g\<lparr>gv_resident := js_del (opposite_key r) (gv_resident g),
                       gv_cost := js_del (opposite_key r) (gv_cost g),
                       gv_promoted := gv_promoted g + (if rq_level r = Refined then 1 else 0),
                       gv_collapsed := gv_collapsed g + (if rq_level r = Refined then 0 else 1)\<rparr>
                else g)
      in g1\<lparr>gv_resident := js_put (request_key r) v (gv_resident g1),
            gv_cost := (case rq_cost r of None \<Rightarrow> gv_cost g1 | Some c \<Rightarrow> js_put (request_key r) c (gv_cost g1)),
            gv_materialised := Suc (gv_materialised g1),
            gv_reconstructed := gv_reconstructed g1 + (if pd_reconstruction q then 1 else 0)\<rparr>)"

definition settle :: "'v sem_pending \<Rightarrow> 'v sem_governor \<Rightarrow> 'v tick_result \<times> 'v sem_governor" where
  "settle q g = (case pd_outcome q of
     Inr v \<Rightarrow> (Materialised v, admit q v g)
   | Inl e \<Rightarrow> (TickRefused e, g\<lparr>gv_refused := Suc (gv_refused g)\<rparr>))"

definition dequeue :: "nat \<Rightarrow> 'v sem_governor \<Rightarrow> 'v sem_governor" where
  "dequeue i g = g\<lparr>gv_queue := take i (gv_queue g) @ drop (Suc i) (gv_queue g)\<rparr>"

fun tick_loop :: "sem_policy \<Rightarrow> nat \<Rightarrow> 'v sem_governor \<Rightarrow> 'v tick_result list \<times> 'v sem_governor" where
  "tick_loop p 0 g = ([], g)"
| "tick_loop p (Suc budget) g =
     (if gv_queue g = [] then ([], g)
      else case next_pending p g of
             None \<Rightarrow> ([], g)
           | Some i \<Rightarrow>
               (let (x, g1) = settle (gv_queue g ! i) (dequeue i g);
                    (xs, g2) = tick_loop p budget g1
                in (x # xs, g2)))"

definition tick :: "sem_policy \<Rightarrow> 'v sem_governor \<Rightarrow> 'v tick_result list \<times> 'v sem_governor" where
  "tick p g = tick_loop p (nat (sp_per_tick p)) g"

definition released_key :: "sem_identity \<Rightarrow> sem_level option \<Rightarrow> string \<Rightarrow> bool" where
  "released_key i l key \<longleftrightarrow>
     prefix (semantic_identity_key i @ ''|level:'') key \<and>
     (case l of None \<Rightarrow> True | Some x \<Rightarrow> suffix (''level:'' @ level_name x) key)"

text \<open>
  The loop body: the \<open>if\<close> has no braces, so it governs the first statement only, and the cost of
  every resident key is deleted.
\<close>

definition release_key :: "sem_identity \<Rightarrow> sem_level option \<Rightarrow> string \<Rightarrow> 'v sem_governor \<Rightarrow> 'v sem_governor" where
  "release_key i l key g =
     g\<lparr>gv_resident := (if released_key i l key then js_del key (gv_resident g) else gv_resident g),
       gv_cost := js_del key (gv_cost g)\<rparr>"

definition release :: "sem_identity \<Rightarrow> sem_level option \<Rightarrow> 'v sem_governor \<Rightarrow> 'v sem_governor" where
  "release i l g =
     (let g1 = fold (release_key i l) (js_keys (gv_resident g)) g
      in g1\<lparr>gv_queue := filter (\<lambda>q.
            \<not> (semantic_identity_key (rq_identity (pd_request q)) = semantic_identity_key i \<and>
               (case l of None \<Rightarrow> True | Some x \<Rightarrow> rq_level (pd_request q) = x))) (gv_queue g1)\<rparr>)"

definition evict :: "sem_identity \<Rightarrow> sem_level \<Rightarrow> 'v sem_governor \<Rightarrow> raw_descriptor option \<times> 'v sem_governor" where
  "evict i l g =
     (let key = materialisation_key i l in
      if \<not> js_has (gv_resident g) key then (None, release i (Some l) g)
      else
        let g1 = release i (Some l) (g\<lparr>gv_resident := js_del key (gv_resident g),
                                        gv_cost := js_del key (gv_cost g)\<rparr>)
        in (Some (descriptor_of i l), g1\<lparr>gv_evicted := Suc (gv_evicted g1)\<rparr>))"

definition get_resident :: "sem_identity \<Rightarrow> sem_level \<Rightarrow> 'v sem_governor \<Rightarrow> 'v option" where
  "get_resident i l g = js_get (gv_resident g) (materialisation_key i l)"

record sem_snapshot =
  ss_version :: string
  ss_resident :: nat
  ss_queued :: nat
  ss_counts :: "nat list"
  ss_cost :: "int list"

definition governor_snapshot :: "sem_policy \<Rightarrow> 'v sem_governor \<Rightarrow> sem_snapshot" where
  "governor_snapshot p g =
     \<lparr>ss_version = sp_version p, ss_resident = length (gv_resident g), ss_queued = length (gv_queue g),
      ss_counts = [gv_refused g, gv_materialised g, gv_promoted g, gv_collapsed g, gv_evicted g, gv_reconstructed g],
      ss_cost = map (\<lambda>dim. total_cost dim None g) [sc_bytes, sc_elements, sc_batches, sc_work]\<rparr>"

section \<open>A key determines its identity and level\<close>

lemma level_name_inj [simp]: "level_name a = level_name b \<longleftrightarrow> a = b"
  by (cases a; cases b) simp_all

lemma level_name_no_bar: "CHR ''|'' \<notin> set (level_name l)"
  by (cases l) simp_all

lemma opposite_neq [simp]: "opposite_level l \<noteq> l" "l \<noteq> opposite_level l"
  by (cases l; simp)+

lemma opposite_opposite [simp]: "opposite_level (opposite_level l) = l"
  by (cases l) simp_all

lemma identity_fields_inj [simp]: "identity_fields i = identity_fields j \<longleftrightarrow> i = j"
  by (cases i; cases j) (auto simp: identity_fields_def)

lemma identity_key_split:
  assumes "semantic_identity_key i @ CHR ''|'' # s = semantic_identity_key j @ CHR ''|'' # t"
  shows "i = j \<and> s = t"
proof -
  have "map encode_field (identity_fields i) = map encode_field (identity_fields j) \<and> s = t"
    using assms by (intro join_bar_split) (auto simp: semantic_identity_key_def identity_fields_def)
  moreover have "inj encode_field" by (rule injI) simp
  ultimately show ?thesis by (auto simp: inj_map_eq_map)
qed

lemma identity_key_inj [simp]: "semantic_identity_key i = semantic_identity_key j \<longleftrightarrow> i = j"
  using identity_key_split [of i "[]" j "[]"] by auto

lemma materialisation_key_inj [simp]:
  "materialisation_key i l = materialisation_key j m \<longleftrightarrow> i = j \<and> l = m"
  using identity_key_split [of i "''level:'' @ level_name l" j "''level:'' @ level_name m"]
  by (auto simp: materialisation_key_def)

lemma released_key_iff:
  "released_key i l (materialisation_key j m) \<longleftrightarrow> i = j \<and> (\<forall>x. l = Some x \<longrightarrow> x = m)"
proof -
  have "prefix (semantic_identity_key i @ ''|level:'') (materialisation_key j m) \<longleftrightarrow> i = j"
    using identity_key_split [of i "''level:'' @ s" j "''level:'' @ level_name m" for s]
    by (auto simp: materialisation_key_def prefix_def)
  moreover have "suffix (''level:'' @ level_name x) (materialisation_key j m) \<longleftrightarrow> x = m" for x
  proof
    assume "suffix (''level:'' @ level_name x) (materialisation_key j m)"
    then show "x = m"
      by (cases x; cases m) (auto simp: materialisation_key_def suffix_def)
  qed (auto simp: materialisation_key_def suffix_def)
  ultimately show ?thesis by (auto simp: released_key_def split: option.split)
qed

section \<open>The bounds\<close>

definition resident_keys :: "'v sem_governor \<Rightarrow> string set" where
  "resident_keys g = set (js_keys (gv_resident g))"

definition one_level :: "string set \<Rightarrow> bool" where
  "one_level K \<longleftrightarrow> (\<forall>i. \<not> (materialisation_key i Coarse \<in> K \<and> materialisation_key i Refined \<in> K))"

definition queue_ok :: "sem_policy \<Rightarrow> string set \<Rightarrow> 'v sem_pending list \<Rightarrow> bool" where
  "queue_ok p K q \<longleftrightarrow> int (length q) \<le> sp_queued p \<and> distinct (map pending_key q) \<and>
     (\<forall>x \<in> set q. pending_key x \<notin> K)"

definition resident_ok :: "sem_policy \<Rightarrow> (string, 'v) js_map \<Rightarrow> (string, sem_cost) js_map \<Rightarrow> bool" where
  "resident_ok p m c \<longleftrightarrow> distinct (js_keys m) \<and> int (length m) \<le> sp_resident p \<and>
     one_level (set (js_keys m)) \<and> distinct (js_keys c) \<and> set (js_keys c) \<subseteq> set (js_keys m)"

definition governor_ok :: "sem_policy \<Rightarrow> 'v sem_governor \<Rightarrow> bool" where
  "governor_ok p g \<longleftrightarrow> resident_ok p (gv_resident g) (gv_cost g) \<and>
     queue_ok p (resident_keys g) (gv_queue g)"

lemma one_level_mono: "one_level K \<Longrightarrow> K' \<subseteq> K \<Longrightarrow> one_level K'"
  unfolding one_level_def by blast

lemma one_level_insert:
  assumes "one_level K" and "materialisation_key i (opposite_level l) \<notin> K"
  shows "one_level (insert (materialisation_key i l) K)"
  using assms by (cases l) (auto simp: one_level_def)

lemma queue_ok_mono: "queue_ok p K q \<Longrightarrow> K' \<subseteq> K \<Longrightarrow> queue_ok p K' q"
  unfolding queue_ok_def by blast

lemma queue_ok_filter:
  assumes "queue_ok p K q" shows "queue_ok p K (filter f q)"
proof -
  have "int (length (filter f q)) \<le> int (length q)" by simp
  then have "int (length (filter f q)) \<le> sp_queued p"
    using assms by (simp only: queue_ok_def) linarith
  with assms show ?thesis by (simp add: queue_ok_def distinct_map_filter)
qed

lemma resident_ok_del: "resident_ok p m c \<Longrightarrow> resident_ok p (js_del k m) (js_del k c)"
  unfolding resident_ok_def
  by (auto simp: keys_del length_del simp del: set_map intro: one_level_mono distinct_del)

lemma resident_ok_put:
  assumes "resident_ok p m c" and "materialisation_key i l \<notin> set (js_keys m)"
    and "materialisation_key i (opposite_level l) \<notin> set (js_keys m)"
    and "int (length m) < sp_resident p"
    and "c' = c \<or> c' = js_put (materialisation_key i l) x c"
  shows "resident_ok p (js_put (materialisation_key i l) v m) c'"
proof -
  let ?k = "materialisation_key i l"
  have keys: "set (js_keys (js_put ?k v m)) = insert ?k (set (js_keys m))" by simp
  have "one_level (insert ?k (set (js_keys m)))"
    using assms(1,3) by (intro one_level_insert) (simp add: resident_ok_def)
  moreover have "distinct (js_keys c')" "set (js_keys c') \<subseteq> insert ?k (set (js_keys m))"
    using assms(1,5) by (auto simp: resident_ok_def simp del: set_map intro: distinct_put) auto
  moreover have "int (length (js_put ?k v m)) \<le> sp_resident p"
    using assms(2,4) by (simp add: length_put del: set_map)
  ultimately show ?thesis
    using assms(1) keys by (simp add: resident_ok_def distinct_put del: set_map)
qed

lemma admit_ok:
  assumes ok: "resident_ok p (gv_resident g) (gv_cost g)"
    and fresh: "pending_key q \<notin> resident_keys g"
    and room: "has_opposite_level g (pd_request q) \<or> int (length (gv_resident g)) < sp_resident p"
  shows "resident_ok p (gv_resident (admit q v g)) (gv_cost (admit q v g)) \<and>
     resident_keys (admit q v g) \<subseteq> insert (pending_key q) (resident_keys g) \<and>
     gv_queue (admit q v g) = gv_queue g"
proof -
  let ?r = "pd_request q"
  let ?i = "rq_identity ?r" and ?l = "rq_level ?r"
  let ?o = "materialisation_key ?i (opposite_level ?l)"
  define m where "m = (if has_opposite_level g ?r then js_del ?o (gv_resident g) else gv_resident g)"
  define c where "c = (if has_opposite_level g ?r then js_del ?o (gv_cost g) else gv_cost g)"
  have ok': "resident_ok p m c" using ok resident_ok_del [OF ok, of ?o] by (simp add: m_def c_def)
  have keys: "set (js_keys m) = resident_keys g - {?o}"
    by (auto simp: m_def resident_keys_def keys_del has_opposite_level_def opposite_key_def js_has_iff
        simp del: set_map)
  have d: "distinct (js_keys (gv_resident g))" "int (length (gv_resident g)) \<le> sp_resident p"
    using ok by (auto simp: resident_ok_def)
  have "int (length (gv_resident g) - Suc 0) < int (length (gv_resident g))"
    if "?o \<in> set (js_keys (gv_resident g))"
    using that by (cases "gv_resident g") auto
  with d(2) have "int (length (gv_resident g) - Suc 0) < sp_resident p"
    if "?o \<in> set (js_keys (gv_resident g))"
    using that by fastforce
  then have len: "int (length m) < sp_resident p"
    using room d by (auto simp: m_def length_del has_opposite_level_def opposite_key_def js_has_iff
        simp del: set_map)
  have put: "gv_resident (admit q v g) = js_put (materialisation_key ?i ?l) v m"
    "gv_cost (admit q v g) = (case rq_cost ?r of None \<Rightarrow> c | Some x \<Rightarrow> js_put (materialisation_key ?i ?l) x c)"
    "gv_queue (admit q v g) = gv_queue g"
    by (simp_all add: admit_def Let_def m_def c_def opposite_key_def request_key_def split: option.split)
  have "resident_ok p (js_put (materialisation_key ?i ?l) v m) (gv_cost (admit q v g))"
    unfolding put
  proof (rule resident_ok_put [OF ok' _ _ len, where x = "the (rq_cost ?r)"])
    show "materialisation_key ?i ?l \<notin> set (js_keys m)" "?o \<notin> set (js_keys m)"
      using fresh unfolding keys by (auto simp: pending_key_def request_key_def)
  qed (cases "rq_cost ?r"; simp)
  moreover have "resident_keys (admit q v g) = insert (materialisation_key ?i ?l) (set (js_keys m))"
    unfolding resident_keys_def put(1) by simp
  then have "resident_keys (admit q v g) \<subseteq> insert (pending_key q) (resident_keys g)"
    unfolding keys pending_key_def request_key_def by blast
  ultimately show ?thesis using put by simp
qed

lemma find_index_Some: "find_index f xs = Some i \<Longrightarrow> i < length xs \<and> f (xs ! i)"
  by (induction xs arbitrary: i) (auto split: if_splits)

lemma next_pending_room:
  assumes "next_pending p g = Some i" and "gv_queue g \<noteq> []"
  shows "i < length (gv_queue g)"
    and "has_opposite_level g (pd_request (gv_queue g ! i)) \<or> int (length (gv_resident g)) < sp_resident p"
  using assms find_index_Some by (force simp: next_pending_def split: if_splits)+

lemma settle_ok:
  assumes ok: "governor_ok p g" and next_i: "next_pending p g = Some i" "gv_queue g \<noteq> []"
  shows "governor_ok p (snd (settle (gv_queue g ! i) (dequeue i g)))"
proof -
  let ?q = "gv_queue g ! i" and ?g = "dequeue i g"
  note i = next_pending_room [OF next_i]
  have split: "gv_queue g = take i (gv_queue g) @ ?q # drop (Suc i) (gv_queue g)"
    using i(1) by (rule id_take_nth_drop)
  have q: "queue_ok p (resident_keys g) (take i (gv_queue g) @ ?q # drop (Suc i) (gv_queue g))"
    using ok split by (simp add: governor_ok_def)
  then have rest: "queue_ok p (insert (pending_key ?q) (resident_keys g)) (gv_queue ?g)"
    by (auto simp: queue_ok_def dequeue_def image_iff)
  have fresh: "pending_key ?q \<notin> resident_keys ?g"
    using q by (auto simp: queue_ok_def dequeue_def resident_keys_def)
  have ok': "resident_ok p (gv_resident ?g) (gv_cost ?g)"
    using ok by (simp add: governor_ok_def dequeue_def)
  have room: "has_opposite_level ?g (pd_request ?q) \<or> int (length (gv_resident ?g)) < sp_resident p"
    using i(2) by (simp add: dequeue_def has_opposite_level_def)
  show ?thesis
  proof (cases "pd_outcome ?q")
    case (Inl e)
    then show ?thesis using ok' queue_ok_mono [OF rest]
      by (auto simp: settle_def governor_ok_def resident_keys_def dequeue_def)
  next
    case (Inr v)
    with admit_ok [OF ok' fresh room, of v] queue_ok_mono [OF rest] show ?thesis
      by (auto simp: settle_def governor_ok_def resident_keys_def dequeue_def)
  qed
qed

lemma tick_loop_ok: "governor_ok p g \<Longrightarrow> governor_ok p (snd (tick_loop p n g))"
proof (induction n arbitrary: g)
  case (Suc n)
  then show ?case
    using settle_ok [OF Suc.prems] by (auto split: option.split prod.split) (metis snd_conv)
qed simp

lemma tick_loop_length: "length (fst (tick_loop p n g)) \<le> n"
  by (induction n arbitrary: g) (auto split: option.split prod.split, metis fst_conv)

lemma enqueue_ok:
  assumes "governor_ok p g" shows "governor_ok p (snd (enqueue p r out again g))"
  using assms
  by (auto simp: enqueue_def refuse_def governor_ok_def resident_keys_def queue_ok_def Let_def
      pending_key_def js_has_iff list_ex_iff split: option.split)

lemma reconstruct_ok:
  assumes "governor_ok p g" shows "governor_ok p (snd (reconstruct p d r out g))"
proof -
  have "governor_ok p (g\<lparr>gv_refused := Suc (gv_refused g)\<rparr>)"
    using assms by (simp add: governor_ok_def resident_keys_def)
  with enqueue_ok [OF assms] show ?thesis
    by (auto simp: reconstruct_def refuse_def split: option.split)
qed

lemma release_key_parts:
  "gv_resident (release_key i l k g) = filter (\<lambda>q. \<not> (fst q = k \<and> released_key i l (fst q))) (gv_resident g)"
  "gv_cost (release_key i l k g) = filter (\<lambda>q. fst q \<noteq> k) (gv_cost g)"
  "gv_queue (release_key i l k g) = gv_queue g"
  "gv_evicted (release_key i l k g) = gv_evicted g"
  by (auto simp: release_key_def AList.delete_eq case_prod_unfold intro!: filter_cong filter_True [symmetric])

text \<open>What the loop of \<open>release\<close> leaves, as written: residents that do not match, and no costs.\<close>

lemma release_loop:
  "gv_resident (fold (release_key i l) ks g) = filter (\<lambda>q. \<not> (fst q \<in> set ks \<and> released_key i l (fst q))) (gv_resident g) \<and>
   gv_cost (fold (release_key i l) ks g) = filter (\<lambda>q. fst q \<notin> set ks) (gv_cost g) \<and>
   gv_queue (fold (release_key i l) ks g) = gv_queue g \<and>
   gv_evicted (fold (release_key i l) ks g) = gv_evicted g"
proof (induction ks arbitrary: g)
  case (Cons k ks)
  show ?case
    by (simp add: Cons.IH release_key_parts) (auto intro!: filter_cong)
qed simp

lemma release_parts:
  "gv_resident (release i l g) = filter (\<lambda>q. \<not> released_key i l (fst q)) (gv_resident g)"
  "gv_cost (release i l g) = filter (\<lambda>q. fst q \<notin> resident_keys g) (gv_cost g)"
  "gv_queue (release i l g) = filter (\<lambda>q. \<not> (rq_identity (pd_request q) = i \<and>
      (\<forall>x. l = Some x \<longrightarrow> rq_level (pd_request q) = x))) (gv_queue g)"
  using release_loop [of i l "js_keys (gv_resident g)" g]
  by (auto simp: release_def Let_def resident_keys_def intro!: filter_cong split: option.split)

lemma release_ok:
  assumes "governor_ok p g" shows "governor_ok p (release i l g)"
proof -
  let ?m = "filter (\<lambda>q. \<not> released_key i l (fst q)) (gv_resident g)"
  let ?c = "filter (\<lambda>q. fst q \<notin> resident_keys g) (gv_cost g)"
  have ok: "resident_ok p (gv_resident g) (gv_cost g)" using assms by (simp add: governor_ok_def)
  then have "?c = []" by (force simp: filter_empty_conv resident_ok_def resident_keys_def)
  moreover have "int (length ?m) \<le> int (length (gv_resident g))" by simp
  then have "int (length ?m) \<le> sp_resident p"
    using ok unfolding resident_ok_def by linarith
  moreover have "set (js_keys ?m) \<subseteq> resident_keys g" by (auto simp: resident_keys_def)
  moreover have "distinct (js_keys ?m)" using ok by (simp add: resident_ok_def distinct_map_filter)
  ultimately have "resident_ok p ?m ?c"
    using ok one_level_mono [of "resident_keys g" "set (js_keys ?m)"]
    by (simp add: resident_ok_def resident_keys_def del: set_map)
  moreover have "queue_ok p (set (js_keys ?m)) (gv_queue (release i l g))"
    unfolding release_parts(3)
    by (rule queue_ok_filter, rule queue_ok_mono [of p "resident_keys g"])
      (use assms in \<open>auto simp: governor_ok_def resident_keys_def\<close>)
  ultimately show ?thesis
    by (simp add: governor_ok_def release_parts(1,2) resident_keys_def del: set_map)
qed

lemma evict_ok:
  assumes "governor_ok p g" shows "governor_ok p (snd (evict i l g))"
proof -
  let ?k = "materialisation_key i l"
  let ?g = "g\<lparr>gv_resident := js_del ?k (gv_resident g), gv_cost := js_del ?k (gv_cost g)\<rparr>"
  have "resident_ok p (gv_resident ?g) (gv_cost ?g)"
    using assms by (simp add: governor_ok_def resident_ok_del)
  moreover have "queue_ok p (resident_keys ?g) (gv_queue g)"
    by (rule queue_ok_mono [of p "resident_keys g"])
      (use assms in \<open>auto simp: governor_ok_def resident_keys_def keys_del simp del: set_map\<close>)
  ultimately have "governor_ok p ?g" by (simp add: governor_ok_def)
  from release_ok [OF this, of i "Some l"] release_ok [OF assms, of i "Some l"]
  show ?thesis by (auto simp: evict_def Let_def governor_ok_def resident_keys_def)
qed

section \<open>Histories\<close>

datatype 'v governor_op =
    RequestOp sem_request "string + 'v" | ReconstructOp "raw_descriptor option" sem_request "string + 'v"
  | TickOp | ReleaseOp sem_identity "sem_level option" | EvictOp sem_identity sem_level

fun governor_step :: "sem_policy \<Rightarrow> 'v sem_governor \<Rightarrow> 'v governor_op \<Rightarrow> 'v sem_governor" where
  "governor_step p g (RequestOp r out) = snd (request p r out g)"
| "governor_step p g (ReconstructOp d r out) = snd (reconstruct p d r out g)"
| "governor_step p g TickOp = snd (tick p g)"
| "governor_step p g (ReleaseOp i l) = release i l g"
| "governor_step p g (EvictOp i l) = snd (evict i l g)"

lemma governor_step_ok: "governor_ok p g \<Longrightarrow> governor_ok p (governor_step p g op)"
  by (cases op)
    (simp_all add: request_def enqueue_ok reconstruct_ok tick_def tick_loop_ok release_ok evict_ok)

interpretation governor_machine: invariant_system "governor_step p" "governor_ok p" for p
  by unfold_locales (rule governor_step_ok)

lemma new_governor_ok: "new_governor p = Inr g \<Longrightarrow> governor_ok p g"
  by (auto simp: new_governor_def governor_ok_def resident_ok_def queue_ok_def one_level_def
      safe_nat_def split: if_splits)

section \<open>Properties\<close>

definition sample_identity :: "string \<Rightarrow> sem_identity" where
  "sample_identity n = \<lparr>si_fingerprint = ''fp'', si_generation = Some 1, si_decision = None,
     si_version = Some 2, si_semantic = n\<rparr>"

definition sample_policy :: sem_policy where
  "sample_policy = \<lparr>sp_version = ''v1'', sp_resident = 4, sp_queued = 4, sp_per_tick = 2,
     sp_bytes = Some 10, sp_elements = None, sp_batches = None, sp_work = None\<rparr>"

definition sample_request :: "string \<Rightarrow> sem_level \<Rightarrow> int \<Rightarrow> sem_request" where
  "sample_request n l bytes = \<lparr>rq_identity = sample_identity n, rq_level = l,
     rq_cost = Some \<lparr>sc_schema = cost_schema, sc_bytes = bytes, sc_elements = 1, sc_batches = 1, sc_work = 1\<rparr>\<rparr>"

definition empty_governor :: "nat sem_governor" where
  "empty_governor = \<lparr>gv_resident = [], gv_cost = [], gv_queue = [], gv_refused = 0, gv_materialised = 0,
     gv_promoted = 0, gv_collapsed = 0, gv_evicted = 0, gv_reconstructed = 0\<rparr>"

lemma sample_new: "new_governor sample_policy = Inr empty_governor"
  by (simp add: new_governor_def sample_policy_def empty_governor_def safe_nat_def safe_int_def)

text \<open>
  C20: under any sequence of requests, reconstructions, ticks, releases and evictions, with
  materialisers that throw included, a governor holds at most \<open>maxResident\<close> values and
  \<open>maxQueued\<close> pending requests, a tick settles at most \<open>maxMaterialisationsPerTick\<close> of them, and
  no identity is resident at both levels.
\<close>

theorem governor_stays_bounded:
  assumes "new_governor p = Inr g0"
  shows "let g = run (governor_step p) g0 ops
         in int (length (gv_resident g)) \<le> sp_resident p \<and> int (length (gv_queue g)) \<le> sp_queued p \<and>
            length (fst (tick p g)) \<le> nat (sp_per_tick p) \<and>
            (get_resident i Coarse g = None \<or> get_resident i Refined g = None)"
proof -
  let ?g = "run (governor_step p) g0 ops"
  have ok: "governor_ok p ?g" by (rule governor_machine.run_inv [OF new_governor_ok [OF assms]])
  then have "one_level (set (js_keys (gv_resident ?g)))" by (simp add: governor_ok_def resident_ok_def)
  then have "get_resident i Coarse ?g = None \<or> get_resident i Refined ?g = None"
    unfolding one_level_def get_resident_def map_of_eq_None_iff by (simp add: image_iff)
  with ok show ?thesis
    by (simp add: Let_def tick_def tick_loop_length governor_ok_def resident_ok_def queue_ok_def)
qed

theorem governor_stays_bounded_witness:
  "let g = run (governor_step sample_policy) empty_governor
             [RequestOp (sample_request ''a'' Coarse 3) (Inr 7), TickOp,
              RequestOp (sample_request ''a'' Refined 5) (Inr 8), TickOp]
   in map snd (gv_resident g) = [8] \<and> gv_promoted g = 1 \<and> int (length (gv_resident g)) \<le> 4 \<and>
      get_resident (sample_identity ''a'') Coarse g = None"
proof -
  let ?ops = "[RequestOp (sample_request ''a'' Coarse 3) (Inr 7), TickOp,
              RequestOp (sample_request ''a'' Refined 5) (Inr 8), TickOp]"
  let ?g = "run (governor_step sample_policy) empty_governor ?ops"
  have v: "map snd (gv_resident ?g) = [8] \<and> gv_promoted ?g = 1 \<and>
      get_resident (sample_identity ''a'') Refined ?g = Some 8" by code_simp
  with governor_stays_bounded [OF sample_new, of ?ops "sample_identity ''a''"] show ?thesis
    by (simp add: Let_def sample_policy_def)
qed

text \<open>
  The composite key of an identity and a level determines both: no two requests for different
  things share a key, whatever separators or percent signs their fields contain.
\<close>

theorem key_identifies_request:
  "materialisation_key i l = materialisation_key j m \<longleftrightarrow> i = j \<and> l = m"
  by simp

text \<open>
  Evicting a resident value removes it and yields a descriptor that a later reconstruction
  accepts for exactly the same identity and level.
\<close>

theorem evicted_descriptor_matches:
  assumes "validate_identity i = None" and "evict i l g = (Some d, g')"
  shows "get_resident i l g' = None \<and>
         (descriptor_matches (Some d) r \<longleftrightarrow> rq_identity r = i \<and> rq_level r = l)"
proof -
  have d: "d = descriptor_of i l" and g': "gv_resident g' =
      gv_resident (release i (Some l) (g\<lparr>gv_resident := js_del (materialisation_key i l) (gv_resident g),
        gv_cost := js_del (materialisation_key i l) (gv_cost g)\<rparr>))"
    using assms(2) by (auto simp: evict_def Let_def split: if_splits)
  have inj: "raw_of_int x = raw_of_int y \<longleftrightarrow> x = y" "raw_of_string s = raw_of_string t \<longleftrightarrow> s = t"
    for x y s t by (simp_all add: raw_of_int_def raw_of_string_def split: option.split)
  have typed: "raw_null_or_safe (raw_of_int (si_generation i))" "raw_null_or_safe (raw_of_int (si_version i))"
      "raw_null_or_string (raw_of_string (si_decision i))"
    using assms(1)
    by (auto simp: validate_identity_def raw_of_int_def raw_of_string_def safe_nat_def
        split: if_splits option.splits)
  have "materialisation_key i l \<notin> set (js_keys (gv_resident g'))"
    unfolding g' release_parts(1) by (auto simp: keys_del simp del: set_map) (auto simp: AList.delete_eq)
  then have "get_resident i l g' = None" by (simp add: get_resident_def map_of_eq_None_iff)
  with typed show ?thesis
    by (auto simp: d descriptor_matches_def descriptor_of_def raw_well_typed_def inj)
qed

theorem evicted_descriptor_matches_witness:
  "let g = run (governor_step sample_policy) empty_governor
             [RequestOp (sample_request ''a'' Coarse 3) (Inr 7), TickOp];
       e = evict (sample_identity ''a'') Coarse g
   in get_resident (sample_identity ''a'') Coarse (snd e) = None \<and>
      descriptor_matches (fst e) (sample_request ''a'' Coarse 3) \<and>
      \<not> descriptor_matches (fst e) (sample_request ''a'' Refined 3)"
proof -
  let ?g = "run (governor_step sample_policy) empty_governor
             [RequestOp (sample_request ''a'' Coarse 3) (Inr 7), TickOp]"
  let ?e = "evict (sample_identity ''a'') Coarse ?g"
  have v: "validate_identity (sample_identity ''a'') = None" by code_simp
  have "fst ?e \<noteq> None" by code_simp
  then obtain d g' where e: "?e = (Some d, g')" by (cases ?e; cases "fst ?e") auto
  from evicted_descriptor_matches [OF v e, of "sample_request ''a'' Coarse 3"]
    evicted_descriptor_matches [OF v e, of "sample_request ''a'' Refined 3"]
  show ?thesis unfolding Let_def e by (simp add: sample_request_def)
qed

text \<open>
  Releasing anything, even an identity that is not resident, forgets the presentation cost of
  every resident value, while the values that do not match stay resident; the cost bound then
  admits new values as if nothing were held.
\<close>

theorem release_forgets_all_costs:
  assumes "governor_ok p g"
  shows "gv_cost (release i l g) = [] \<and>
         get_resident j m (release i l g) =
           (if i = j \<and> (l = None \<or> l = Some m) then None else get_resident j m g)"
proof -
  have "resident_ok p (gv_resident g) (gv_cost g)" using assms by (simp add: governor_ok_def)
  then have "gv_cost (release i l g) = []"
    by (force simp: release_parts filter_empty_conv resident_ok_def resident_keys_def)
  moreover have "js_get (filter (\<lambda>q. \<not> released_key i l (fst q)) xs) k =
      (if released_key i l k then None else js_get xs k)" for xs :: "(string, 'a) js_map" and k
    by (induction xs) auto
  ultimately show ?thesis
    by (cases l) (auto simp: get_resident_def release_parts released_key_iff)
qed

theorem release_forgets_all_costs_witness:
  "let g = run (governor_step sample_policy) empty_governor
             [RequestOp (sample_request ''a'' Coarse 9) (Inr 7), TickOp];
       h = release (sample_identity ''z'') None g
   in total_cost sc_bytes None g = 9 \<and> gv_cost h = [] \<and> get_resident (sample_identity ''a'') Coarse h = Some 7"
proof -
  let ?g = "run (governor_step sample_policy) empty_governor
             [RequestOp (sample_request ''a'' Coarse 9) (Inr 7), TickOp]"
  have ok: "governor_ok sample_policy ?g"
    by (rule governor_machine.run_inv [OF new_governor_ok [OF sample_new]])
  have "total_cost sc_bytes None ?g = 9 \<and> get_resident (sample_identity ''a'') Coarse ?g = Some 7"
    by code_simp
  with release_forgets_all_costs [OF ok, of "sample_identity ''z''" None "sample_identity ''a''" Coarse]
  show ?thesis by (simp add: Let_def sample_identity_def)
qed

text \<open>
  The cost bound is checked against resident values only, so requests queued together overrun
  it: two requests of 9 bytes each are both admitted and materialised under a bound of 10 bytes.
\<close>

theorem queued_requests_overrun_cost_bound:
  "let g = run (governor_step sample_policy) empty_governor
             [RequestOp (sample_request ''a'' Coarse 9) (Inr 7), RequestOp (sample_request ''b'' Coarse 9) (Inr 8), TickOp]
   in sp_bytes sample_policy = Some 10 \<and> length (gv_resident g) = 2 \<and> total_cost sc_bytes None g = 18"
  by code_simp

end
