(* ===== verification/Vr_Input.thy ===== *)
theory Vr_Input
  imports Js_Prelude
begin

text \<open>
  Three state machines of the VR input layer (\<open>src/vr/input\<close>): the interaction mode controller with
  its table of legal transitions, its guard and its bounded history; the resolution of the
  both-pinch gesture; and the pointer press, move and release machine. What panels, the HUD and the
  ray test answer is an argument of the operations that ask them.
\<close>

section \<open>Interaction modes\<close>

datatype interaction_mode = Navigate | Interact | Transform | Observe

datatype focus_state = FIdle | Focused | Hovered | Armed | Confirmed | Disabled | Busy

record mode_event =
  me_from :: interaction_mode
  me_to :: interaction_mode
  me_reason :: string
  me_time :: int

record mode_controller =
  mc_mode :: interaction_mode
  mc_history :: "interaction_mode list"
  mc_focus :: "(string, focus_state) js_map"

fun transition_table :: "interaction_mode \<Rightarrow> interaction_mode list" where
  "transition_table Navigate = [Interact, Transform, Observe]"
| "transition_table Interact = [Navigate, Transform, Observe]"
| "transition_table Transform = [Navigate, Interact, Observe]"
| "transition_table Observe = [Navigate, Interact]"

text \<open>
  The transition context: absent, or an object whose \<open>hasSelection\<close> may be missing. Only entering
  \<open>TRANSFORM\<close> has a guard, which refuses an explicit \<open>false\<close>.
\<close>

type_synonym transition_context = "bool option option"

fun guard_permits :: "interaction_mode \<Rightarrow> transition_context \<Rightarrow> bool" where
  "guard_permits Transform (Some (Some False)) = False"
| "guard_permits _ _ = True"

definition validate_transition :: "mode_controller \<Rightarrow> interaction_mode \<Rightarrow> transition_context \<Rightarrow> bool" where
  "validate_transition c target ctx \<longleftrightarrow>
     target \<in> set [Navigate, Interact, Transform, Observe] \<and>
     target \<in> set (transition_table (mc_mode c)) \<and> guard_permits target ctx"

definition new_controller :: "interaction_mode option \<Rightarrow> mode_controller" where
  "new_controller initial =
     \<lparr>mc_mode = (case initial of None \<Rightarrow> Interact | Some m \<Rightarrow> m), mc_history = [], mc_focus = []\<rparr>"

definition push_history :: "interaction_mode \<Rightarrow> interaction_mode list \<Rightarrow> interaction_mode list" where
  "push_history m h = (let h' = h @ [m] in if length h' > 20 then tl h' else h')"

text \<open>The event is the notification of \<open>onModeChange\<close>; \<open>None\<close> is a call that returns false.\<close>

definition set_mode ::
  "int \<Rightarrow> interaction_mode \<Rightarrow> string \<Rightarrow> transition_context \<Rightarrow> mode_controller \<Rightarrow> mode_event option \<times> mode_controller" where
  "set_mode now target reason ctx c =
     (if mc_mode c = target then (None, c)
      else if \<not> validate_transition c target ctx then (None, c)
      else (Some \<lparr>me_from = mc_mode c, me_to = target, me_reason = reason, me_time = now\<rparr>,
            c\<lparr>mc_history := push_history (mc_mode c) (mc_history c), mc_mode := target\<rparr>))"

definition revert_mode :: "int \<Rightarrow> mode_controller \<Rightarrow> mode_event option \<times> mode_controller" where
  "revert_mode now c =
     (if mc_history c = [] then (None, c)
      else let prev = last (mc_history c) in
        (Some \<lparr>me_from = mc_mode c, me_to = prev, me_reason = ''revert'', me_time = now\<rparr>,
         c\<lparr>mc_history := butlast (mc_history c), mc_mode := prev\<rparr>))"

definition set_focus_state :: "string \<Rightarrow> focus_state \<Rightarrow> mode_controller \<Rightarrow> mode_controller" where
  "set_focus_state i f c = c\<lparr>mc_focus := js_put i f (mc_focus c)\<rparr>"

definition get_focus_state :: "mode_controller \<Rightarrow> string \<Rightarrow> focus_state" where
  "get_focus_state c i = (case js_get (mc_focus c) i of None \<Rightarrow> FIdle | Some f \<Rightarrow> f)"

definition clear_focus_states :: "mode_controller \<Rightarrow> mode_controller" where
  "clear_focus_states c = c\<lparr>mc_focus := []\<rparr>"

datatype pinch_action = WorldTransform | CommitSelection | ScaleRotateArtifact | ResumeInteraction

fun resolve_both_pinch_action :: "interaction_mode \<Rightarrow> pinch_action" where
  "resolve_both_pinch_action Navigate = WorldTransform"
| "resolve_both_pinch_action Transform = ScaleRotateArtifact"
| "resolve_both_pinch_action Observe = ResumeInteraction"
| "resolve_both_pinch_action Interact = CommitSelection"

section \<open>Gesture ownership\<close>

fun resolve_both_pinch :: "interaction_mode \<Rightarrow> pinch_action" where
  "resolve_both_pinch Navigate = WorldTransform"
| "resolve_both_pinch Interact = CommitSelection"
| "resolve_both_pinch Transform = ScaleRotateArtifact"
| "resolve_both_pinch Observe = ResumeInteraction"

datatype input_channel = GestureChannel | ControllerChannel | GazeConfirm | Keyboard

definition critical_actions :: "(string \<times> input_channel list) list" where
  "critical_actions =
     [(''toggle_navigation_wheel'', [GestureChannel, ControllerChannel, Keyboard]),
      (''confirm_selection'', [GestureChannel, GazeConfirm, ControllerChannel]),
      (''two_hand_transform'', [GestureChannel, ControllerChannel]),
      (''dismiss_panel'', [GestureChannel, GazeConfirm, ControllerChannel, Keyboard])]"

definition redundancy_channels :: "string \<Rightarrow> input_channel list" where
  "redundancy_channels a =
     (case find (\<lambda>p. fst p = a) critical_actions of
        None \<Rightarrow> [GestureChannel, ControllerChannel] | Some p \<Rightarrow> snd p)"

definition sufficient_redundancy :: "string \<Rightarrow> bool" where
  "sufficient_redundancy a \<longleftrightarrow> 2 \<le> length (redundancy_channels a)"

section \<open>The pointer machine\<close>

datatype pointer_state = PIdle | PDown | PDrag

record pointer_machine =
  pm_state :: pointer_state
  pm_down :: "nat option"
  pm_panel :: "nat option"
  pm_mode :: "string option"

definition new_machine :: pointer_machine where
  "new_machine = \<lparr>pm_state = PIdle, pm_down = None, pm_panel = None, pm_mode = None\<rparr>"

text \<open>
  The panels in registry order with what \<open>handlePointerDown\<close> returns for each; the first answer that
  is not missing or empty captures the pointer.
\<close>

fun first_capture :: "(nat \<times> string option) list \<Rightarrow> (nat \<times> string) option" where
  "first_capture [] = None"
| "first_capture ((p, m) # ps) = (case m of
     None \<Rightarrow> first_capture ps
   | Some x \<Rightarrow> if x = [] then first_capture ps else Some (p, x))"

text \<open>The results are whether the press was consumed and whether the selection callback ran.\<close>

definition press ::
  "nat \<Rightarrow> bool \<Rightarrow> (nat \<times> string option) list \<Rightarrow> bool \<Rightarrow> pointer_machine \<Rightarrow> bool \<times> bool \<times> pointer_machine" where
  "press pointer usable panels hud m =
     (if \<not> usable then (False, False, m)
      else case first_capture panels of
             Some (p, x) \<Rightarrow> (True, False,
               m\<lparr>pm_down := Some pointer, pm_state := (if x = ''drag'' then PDrag else PDown),
                 pm_panel := Some p, pm_mode := Some x\<rparr>)
           | None \<Rightarrow>
               if hud then (True, False, m)
               else (True, True, m\<lparr>pm_down := Some pointer, pm_state := PDown\<rparr>))"

text \<open>The panel to which the move is forwarded, if any; the machine itself does not change.\<close>

definition move_target :: "nat \<Rightarrow> bool \<Rightarrow> pointer_machine \<Rightarrow> nat option" where
  "move_target pointer usable m =
     (if (pm_state m = PDrag \<or> pm_state m = PDown) \<and> pm_panel m \<noteq> None \<and> pm_down m = Some pointer \<and> usable
      then pm_panel m else None)"

definition reset_machine :: "pointer_machine \<Rightarrow> pointer_machine" where
  "reset_machine m = \<lparr>pm_state = PIdle, pm_down = None, pm_panel = None, pm_mode = None\<rparr>"

definition release_pointer :: "nat \<Rightarrow> bool \<Rightarrow> pointer_machine \<Rightarrow> nat option \<times> pointer_machine" where
  "release_pointer pointer usable m =
     ((if usable then pm_panel m else None),
      (if pm_down m = Some pointer \<or> pm_panel m \<noteq> None then reset_machine m else m))"

section \<open>Invariants of the machines\<close>

datatype mode_op =
    SetMode int interaction_mode string transition_context | RevertMode int
  | SetFocus string focus_state | ClearFocus

fun mode_step :: "mode_controller \<Rightarrow> mode_op \<Rightarrow> mode_controller" where
  "mode_step c (SetMode now m r ctx) = snd (set_mode now m r ctx c)"
| "mode_step c (RevertMode now) = snd (revert_mode now c)"
| "mode_step c (SetFocus i f) = set_focus_state i f c"
| "mode_step c ClearFocus = clear_focus_states c"

definition controller_ok :: "mode_controller \<Rightarrow> bool" where
  "controller_ok c \<longleftrightarrow> length (mc_history c) \<le> 20"

lemma mode_step_ok: "controller_ok c \<Longrightarrow> controller_ok (mode_step c op)"
  by (cases op) (auto simp: controller_ok_def set_mode_def revert_mode_def push_history_def
      set_focus_state_def clear_focus_states_def Let_def)

interpretation mode_machine: invariant_system mode_step controller_ok
  by unfold_locales (rule mode_step_ok)

datatype pointer_op =
    Press nat bool "(nat \<times> string option) list" bool | Release nat bool | ResetPointer

fun pointer_step :: "pointer_machine \<Rightarrow> pointer_op \<Rightarrow> pointer_machine" where
  "pointer_step m (Press p u ps h) = snd (snd (press p u ps h m))"
| "pointer_step m (Release p u) = snd (release_pointer p u m)"
| "pointer_step m ResetPointer = reset_machine m"

definition machine_ok :: "pointer_machine \<Rightarrow> bool" where
  "machine_ok m \<longleftrightarrow> (pm_state m = PIdle \<longleftrightarrow> pm_down m = None) \<and>
     (pm_panel m \<noteq> None \<longrightarrow> pm_down m \<noteq> None) \<and> (pm_panel m = None \<longleftrightarrow> pm_mode m = None)"

lemma pointer_step_ok: "machine_ok m \<Longrightarrow> machine_ok (pointer_step m op)"
  by (cases op) (auto simp: machine_ok_def press_def release_pointer_def reset_machine_def
      split: option.split prod.split)

interpretation pointer_runs: invariant_system pointer_step machine_ok
  by unfold_locales (rule pointer_step_ok)

section \<open>Properties\<close>

text \<open>
  A mode change that \<open>setMode\<close> accepts is an edge of the transition table, never enters
  \<open>TRANSFORM\<close> when the caller reports no selection, and, while the history is not full, is undone
  exactly by \<open>revertMode\<close>.
\<close>

theorem accepted_mode_change:
  assumes "set_mode now target reason ctx c = (Some ev, c')"
  shows "target \<in> set (transition_table (mc_mode c)) \<and> mc_mode c' = target \<and>
         (target = Transform \<longrightarrow> ctx \<noteq> Some (Some False)) \<and>
         me_from ev = mc_mode c \<and> me_to ev = target \<and>
         (length (mc_history c) < 20 \<longrightarrow> snd (revert_mode later c') = c)"
  using assms
  by (auto simp: set_mode_def validate_transition_def revert_mode_def push_history_def Let_def
      split: if_splits)

theorem accepted_mode_change_witness:
  "let c = new_controller None; c' = snd (set_mode 1 Transform ''user_action'' (Some (Some True)) c)
   in mc_mode c' = Transform \<and> snd (revert_mode 2 c') = c"
proof -
  have "set_mode 1 Transform ''user_action'' (Some (Some True)) (new_controller None) =
     (Some \<lparr>me_from = Interact, me_to = Transform, me_reason = ''user_action'', me_time = 1\<rparr>,
      \<lparr>mc_mode = Transform, mc_history = [Interact], mc_focus = []\<rparr>)"
    by code_simp
  from accepted_mode_change [OF this, of 2] this show ?thesis
    by (simp add: Let_def new_controller_def)
qed

text \<open>
  C27: the history never exceeds twenty modes and the pointer machine is idle exactly when no pointer
  is down, with a panel captured only while one is, after any sequence of calls.
\<close>

theorem input_machines_invariant:
  "length (mc_history (run mode_step (new_controller m) ops)) \<le> 20 \<and>
   machine_ok (run pointer_step new_machine events)"
proof
  have "controller_ok (run mode_step (new_controller m) ops)"
    by (rule mode_machine.run_inv) (simp add: controller_ok_def new_controller_def)
  then show "length (mc_history (run mode_step (new_controller m) ops)) \<le> 20"
    by (simp add: controller_ok_def)
  show "machine_ok (run pointer_step new_machine events)"
    by (rule pointer_runs.run_inv) (simp add: machine_ok_def new_machine_def)
qed

text \<open>
  \<open>revertMode\<close> does not consult the transition table: from \<open>OBSERVE\<close>, which has no edge to
  \<open>TRANSFORM\<close>, it returns there although \<open>setMode\<close> refuses the same change.
\<close>

theorem revert_bypasses_transition_table:
  "let c = run mode_step (new_controller None)
             [SetMode 1 Transform ''t'' None, SetMode 2 Observe ''o'' None]
   in mc_mode c = Observe \<and> Transform \<notin> set (transition_table Observe) \<and>
      fst (set_mode 3 Transform ''t'' None c) = None \<and>
      mc_mode (snd (revert_mode 3 c)) = Transform"
  by code_simp

text \<open>
  A second pointer that presses on the scene while a first one drags a panel takes over the
  capture: the first pointer's moves are no longer forwarded, the second one's are, and the drag
  state is lost.
\<close>

theorem second_press_steals_drag:
  "let m = run pointer_step new_machine [Press 1 True [(7, Some ''drag'')] False];
       m' = pointer_step m (Press 2 True [(7, None)] False)
   in move_target 1 True m = Some 7 \<and> pm_state m = PDrag \<and>
      move_target 1 True m' = None \<and> move_target 2 True m' = Some 7 \<and> pm_state m' = PDown"
  by code_simp

end
