(* ===== verification/Resource_Lifecycle.thy ===== *)
theory Resource_Lifecycle
  imports Identity_Key
begin

text \<open>
  The residency governor of \<open>src/vr/scalability/ResourceLifecycleGovernor.ts\<close>: registered resources
  are ACTIVE, WARM or COLD, working sets are reconciled as a whole, ticks cool the excess warm ones
  and completed cool steps apply only to the revision they were started for. Adapters are external:
  what \<open>detach\<close>, \<open>coolStep\<close>, \<open>validateDescriptor\<close> and \<open>forceDispose\<close> answer is an argument, and a cool step that
  returns a promise is completed by a later event with any key, revision and answer. Limits and
  identity numbers are the integers the constructor and the callers admit.
\<close>

section \<open>Data\<close>

datatype residency = Active | Warm | Cold
datatype to_residency = ToActive | ToWarm | ToCold | ToEvicted
datatype desired = WantActive | WantWarm

record resource_identity =
  id_family :: string
  id_fingerprint :: "string option"
  id_generation :: "int option"
  id_version :: "int option"
  id_decision :: "string option"
  id_semantic :: string

record ws_declaration =
  dl_identity :: resource_identity
  dl_desired :: desired

record lifecycle_policy =
  lp_version :: string
  lp_declarations :: int
  lp_active :: int
  lp_warm :: int
  lp_cold :: int
  lp_cleanups :: int
  lp_events :: int

record ('r, 'd) resource =
  rr_identity :: resource_identity
  rr_runtime :: "'r option"
  rr_descriptor :: "'d option"
  rr_residency :: residency
  rr_desired :: "desired option"
  rr_revision :: nat
  rr_inflight :: "nat option"
  rr_touched :: nat
  rr_cold_since :: "nat option"

record transition =
  tr_identity :: resource_identity
  tr_from :: residency
  tr_to :: to_residency
  tr_revision :: nat
  tr_reason :: "string option"

record ('r, 'd) lifecycle =
  lc_records :: "(string, ('r, 'd) resource) js_map"
  lc_transitions :: "transition list"
  lc_cooled :: nat
  lc_evicted :: nat
  lc_failed :: nat
  lc_declared :: nat
  lc_epoch :: nat
  lc_disposed :: bool

datatype verdict = Admitted | Rejected string

section \<open>Identity and construction\<close>

definition encode_identity_field :: "string \<Rightarrow> key_field \<Rightarrow> string" where
  "encode_identity_field name f = name @ '':'' @ encode_field f"

definition identity_parts :: "resource_identity \<Rightarrow> (string \<times> key_field) list" where
  "identity_parts i =
     [(''family'', FStr (id_family i)), (''datasetFingerprint'', str_field (id_fingerprint i)),
      (''datasetGeneration'', num_field (id_generation i)), (''datasetVersion'', num_field (id_version i)),
      (''decisionId'', str_field (id_decision i)), (''semanticId'', FStr (id_semantic i))]"

definition resource_identity_key :: "resource_identity \<Rightarrow> string" where
  "resource_identity_key i = join_bar (map (\<lambda>(n, f). encode_identity_field n f) (identity_parts i))"

definition valid_limit :: "int \<Rightarrow> bool" where
  "valid_limit n \<longleftrightarrow> 0 \<le> n \<and> n \<le> 9007199254740991"

definition policy_limits :: "lifecycle_policy \<Rightarrow> (string \<times> int) list" where
  "policy_limits p =
     [(''maxDeclarations'', lp_declarations p), (''maxActiveResources'', lp_active p),
      (''maxWarmResources'', lp_warm p), (''maxColdDescriptors'', lp_cold p),
      (''maxCleanupOperationsPerTick'', lp_cleanups p), (''maxTransitionEvents'', lp_events p)]"

definition new_lifecycle :: "lifecycle_policy \<Rightarrow> string + ('r, 'd) lifecycle" where
  "new_lifecycle p =
     (if lp_version p = [] then Inl ''Resource lifecycle policyVersion must not be empty''
      else case find (\<lambda>l. \<not> valid_limit (snd l)) (policy_limits p) of
        Some l \<Rightarrow> Inl (''Resource lifecycle policy '' @ fst l @ '' must be a non-negative integer'')
      | None \<Rightarrow> Inr \<lparr>lc_records = [], lc_transitions = [], lc_cooled = 0, lc_evicted = 0, lc_failed = 0,
                lc_declared = 0, lc_epoch = 0, lc_disposed = False\<rparr>)"

section \<open>Registration and discarding\<close>

definition register ::
  "resource_identity \<Rightarrow> string \<Rightarrow> 'r option \<Rightarrow> ('r, 'd) lifecycle \<Rightarrow> string + ('r, 'd) lifecycle" where
  "register i family runtime g =
     (let key = resource_identity_key i; epoch = Suc (lc_epoch g) in
      if lc_disposed g then Inl ''Resource lifecycle governor is disposed''
      else if family \<noteq> id_family i
        then Inl ''Resource lifecycle adapter family must match the resource identity family''
      else if js_has (lc_records g) key
        then Inl (''Resource lifecycle identity is already registered: '' @ key)
      else Inr (g\<lparr>lc_records := js_put key
                    \<lparr>rr_identity = i, rr_runtime = runtime, rr_descriptor = None, rr_residency = Warm,
                     rr_desired = None, rr_revision = 0, rr_inflight = None, rr_touched = epoch,
                     rr_cold_since = None\<rparr> (lc_records g),
                  lc_epoch := epoch\<rparr>))"

text \<open>How \<open>forceDispose\<close> ended: normally, by throwing, or with a promise (which may reject later).\<close>

datatype disposal = Disposed | DisposalThrew string

definition discard_unclaimed_warm ::
  "resource_identity \<Rightarrow> disposal \<Rightarrow> ('r, 'd) lifecycle \<Rightarrow> (string + verdict) \<times> ('r, 'd) lifecycle" where
  "discard_unclaimed_warm i disposal g =
     (let key = resource_identity_key i in
      if lc_disposed g then (Inr (Rejected ''Resource lifecycle governor is disposed''), g)
      else case js_get (lc_records g) key of
        None \<Rightarrow> (Inr (Rejected (''Resource lifecycle identity is not registered: '' @ key)), g)
      | Some r \<Rightarrow>
          if rr_residency r \<noteq> Warm \<or> rr_desired r \<noteq> None \<or> rr_inflight r \<noteq> None \<or> rr_runtime r = None
          then (Inr (Rejected (''Resource lifecycle identity is not an unclaimed WARM candidate: '' @ key)), g)
          else
            let g' = g\<lparr>lc_records := js_del key (lc_records g)\<rparr> in
            case disposal of
              Disposed \<Rightarrow> (Inr Admitted, g')
            | DisposalThrew e \<Rightarrow> (Inl e, g'\<lparr>lc_failed := Suc (lc_failed g')\<rparr>))"

text \<open>The rejection of the promise that \<open>forceDispose\<close> returned.\<close>

definition disposal_rejected :: "('r, 'd) lifecycle \<Rightarrow> ('r, 'd) lifecycle" where
  "disposal_rejected g = g\<lparr>lc_failed := Suc (lc_failed g)\<rparr>"

section \<open>Working sets\<close>

definition declared_key :: "ws_declaration \<Rightarrow> string" where
  "declared_key d = resource_identity_key (dl_identity d)"

text \<open>The loop over the declarations: the keys seen and the two counts, or the duplicate key.\<close>

fun count_declarations ::
  "string js_set \<Rightarrow> nat \<Rightarrow> nat \<Rightarrow> ws_declaration list \<Rightarrow> string + nat \<times> nat" where
  "count_declarations seen a w [] = Inr (a, w)"
| "count_declarations seen a w (d # ds) =
     (if declared_key d \<in> set seen then Inl (declared_key d)
      else if dl_desired d = WantActive
        then count_declarations (js_add (declared_key d) seen) (Suc a) w ds
      else count_declarations (js_add (declared_key d) seen) a (Suc w) ds)"

definition validate_working_set :: "lifecycle_policy \<Rightarrow> ws_declaration list \<Rightarrow> verdict" where
  "validate_working_set p ds =
     (if int (length ds) > lp_declarations p then Rejected (''Working set has '' @ show_nat (length ds) @ '' declarations; maximum is '' @ show_int (lp_declarations p))
      else case count_declarations [] 0 0 ds of
        Inl key \<Rightarrow> Rejected (''Working set contains duplicate resource identity: '' @ key)
      | Inr (a, w) \<Rightarrow>
          if int a > lp_active p then Rejected (''Working set has '' @ show_nat a @ '' ACTIVE declarations; maximum is '' @ show_int (lp_active p))
          else if int w > lp_warm p then Rejected (''Working set has '' @ show_nat w @ '' WARM declarations; maximum is '' @ show_int (lp_warm p))
          else Admitted)"

definition desired_by_key :: "ws_declaration list \<Rightarrow> (string, desired) js_map" where
  "desired_by_key ds = fold (\<lambda>d m. js_put (declared_key d) (dl_desired d) m) ds []"

text \<open>The first declared key that is not registered or is cold.\<close>

fun undeclarable :: "(string, ('r, 'd) resource) js_map \<Rightarrow> string list \<Rightarrow> string option" where
  "undeclarable m [] = None"
| "undeclarable m (k # ks) = (case js_get m k of
     None \<Rightarrow> Some (''Working set resource identity is not registered: '' @ k)
   | Some r \<Rightarrow> if rr_residency r = Cold
       then Some (''Working set resource identity requires reconstruction that is not implemented: '' @ k)
       else undeclarable m ks)"

text \<open>The resources to detach, in registration order, and the first detach that throws.\<close>

definition detachments :: "(string, desired) js_map \<Rightarrow> (string, ('r, 'd) resource) js_map \<Rightarrow> string list" where
  "detachments want m =
     map fst (filter (\<lambda>(k, r). rr_residency r = Active \<and> js_get want k \<noteq> Some WantActive) m)"

fun first_detach_error :: "(string \<Rightarrow> string option) \<Rightarrow> string list \<Rightarrow> string option" where
  "first_detach_error detach [] = None"
| "first_detach_error detach (k # ks) =
     (case detach k of Some e \<Rightarrow> Some e | None \<Rightarrow> first_detach_error detach ks)"

definition next_residency :: "residency \<Rightarrow> desired option \<Rightarrow> residency" where
  "next_residency prev want =
     (if want = Some WantActive \<and> prev = Warm then Active
      else if prev = Active \<and> want \<noteq> Some WantActive then Warm else prev)"

fun target_of :: "residency \<Rightarrow> to_residency" where
  "target_of Active = ToActive"
| "target_of Warm = ToWarm"
| "target_of Cold = ToCold"

definition record_transition :: "lifecycle_policy \<Rightarrow> transition \<Rightarrow> transition list \<Rightarrow> transition list" where
  "record_transition p t ts =
     (if lp_events p = 0 then ts
      else let ts' = ts @ [t] in
           if int (length ts') > lp_events p then drop (length ts' - nat (lp_events p)) ts' else ts')"

text \<open>One turn of the loop over the records: the new record, epoch and transitions.\<close>

definition reconcile_record ::
  "lifecycle_policy \<Rightarrow> desired option \<Rightarrow> ('r, 'd) resource \<Rightarrow> nat \<Rightarrow> transition list \<Rightarrow>
   ('r, 'd) resource \<times> nat \<times> transition list" where
  "reconcile_record p want r epoch ts =
     (let residency' = next_residency (rr_residency r) want;
          moved = residency' \<noteq> rr_residency r
      in if rr_desired r \<noteq> want \<or> moved then
           (let r' = r\<lparr>rr_revision := Suc (rr_revision r), rr_desired := want,
                       rr_residency := residency', rr_touched := Suc epoch\<rparr>
            in (r', Suc epoch,
                if moved then record_transition p
                  \<lparr>tr_identity = rr_identity r, tr_from = rr_residency r, tr_to = target_of residency',
                   tr_revision = rr_revision r', tr_reason = None\<rparr> ts else ts))
         else if want \<noteq> None then (r\<lparr>rr_touched := Suc epoch\<rparr>, Suc epoch, ts)
         else (r, epoch, ts))"

fun reconcile_records ::
  "lifecycle_policy \<Rightarrow> (string, desired) js_map \<Rightarrow> (string, ('r, 'd) resource) js_map \<Rightarrow> nat \<Rightarrow>
   transition list \<Rightarrow> (string, ('r, 'd) resource) js_map \<times> nat \<times> transition list" where
  "reconcile_records p want [] epoch ts = ([], epoch, ts)"
| "reconcile_records p want ((k, r) # m) epoch ts =
     (let (r', epoch', ts') = reconcile_record p (js_get want k) r epoch ts;
          (m', epoch'', ts'') = reconcile_records p want m epoch' ts'
      in ((k, r') # m', epoch'', ts''))"

definition reconcile ::
  "lifecycle_policy \<Rightarrow> (string \<Rightarrow> string option) \<Rightarrow> ws_declaration list \<Rightarrow> ('r, 'd) lifecycle \<Rightarrow>
   verdict \<times> ('r, 'd) lifecycle" where
  "reconcile p detach ds g =
     (case validate_working_set p ds of Rejected e \<Rightarrow> (Rejected e, g) | Admitted \<Rightarrow>
        let want = desired_by_key ds in
        case undeclarable (lc_records g) (js_keys want) of Some e \<Rightarrow> (Rejected e, g) | None \<Rightarrow>
        case first_detach_error detach (detachments want (lc_records g)) of Some e \<Rightarrow> (Rejected e, g) | None \<Rightarrow>
        let (m, epoch, ts) = reconcile_records p want (lc_records g) (lc_epoch g) (lc_transitions g)
        in (Admitted, g\<lparr>lc_records := m, lc_epoch := epoch, lc_transitions := ts,
                        lc_declared := length ds\<rparr>))"

section \<open>Cooling\<close>

datatype descriptor_check = DescriptorValid | DescriptorInvalid | CheckThrew string
datatype 'd step_result = StepPending | StepComplete 'd descriptor_check
datatype 'd cool_answer = CoolThrew string | CoolPromised | CoolReturned "'d step_result"

definition warm_records :: "('r, 'd) lifecycle \<Rightarrow> (string \<times> ('r, 'd) resource) list" where
  "warm_records g = filter (\<lambda>q. rr_residency (snd q) = Warm) (lc_records g)"

definition excess_warm :: "lifecycle_policy \<Rightarrow> ('r, 'd) lifecycle \<Rightarrow> nat" where
  "excess_warm p g =
     (let warm = warm_records g;
          scheduled = length (filter (\<lambda>q. rr_desired (snd q) = None \<and>
                        rr_inflight (snd q) = Some (rr_revision (snd q))) warm)
      in nat (int (length warm) - lp_warm p - int scheduled))"

definition queued_warm :: "lifecycle_policy \<Rightarrow> ('r, 'd) lifecycle \<Rightarrow> (string \<times> ('r, 'd) resource) list" where
  "queued_warm p g =
     take (excess_warm p g) (sort_key (\<lambda>q. rr_touched (snd q))
       (filter (\<lambda>q. rr_desired (snd q) = None \<and> rr_inflight (snd q) = None) (warm_records g)))"

definition cleanup_failure :: "lifecycle_policy \<Rightarrow> ('r, 'd) resource \<Rightarrow> string \<Rightarrow> ('r, 'd) lifecycle \<Rightarrow> ('r, 'd) lifecycle" where
  "cleanup_failure p r reason g =
     g\<lparr>lc_failed := Suc (lc_failed g),
       lc_transitions := record_transition p
         \<lparr>tr_identity = rr_identity r, tr_from = Warm, tr_to = ToWarm, tr_revision = rr_revision r,
          tr_reason = Some reason\<rparr> (lc_transitions g)\<rparr>"

definition can_apply :: "('r, 'd) resource \<Rightarrow> nat \<Rightarrow> bool" where
  "can_apply r rv \<longleftrightarrow> rr_revision r = rv \<and> rr_residency r = Warm \<and> rr_desired r = None"

definition settled :: "nat \<Rightarrow> ('r, 'd) resource \<Rightarrow> ('r, 'd) resource" where
  "settled rv r = (if rr_inflight r = Some rv then r\<lparr>rr_inflight := None\<rparr> else r)"

definition put_record :: "string \<Rightarrow> ('r, 'd) resource \<Rightarrow> ('r, 'd) lifecycle \<Rightarrow> ('r, 'd) lifecycle" where
  "put_record k r g = g\<lparr>lc_records := js_put k r (lc_records g)\<rparr>"

text \<open>A cold record without an epoch sorts last, behind the largest safe integer.\<close>

definition cold_records :: "('r, 'd) lifecycle \<Rightarrow> (string \<times> ('r, 'd) resource) list" where
  "cold_records g =
     sort_key (\<lambda>q. case rr_cold_since (snd q) of None \<Rightarrow> 9007199254740991 | Some e \<Rightarrow> int e)
       (filter (\<lambda>q. rr_residency (snd q) = Cold \<and> rr_desired (snd q) = None) (lc_records g))"

definition evict_record :: "lifecycle_policy \<Rightarrow> string \<times> ('r, 'd) resource \<Rightarrow> ('r, 'd) lifecycle \<Rightarrow> ('r, 'd) lifecycle" where
  "evict_record p q g =
     g\<lparr>lc_evicted := Suc (lc_evicted g),
       lc_transitions := record_transition p
         \<lparr>tr_identity = rr_identity (snd q), tr_from = Cold, tr_to = ToEvicted,
          tr_revision = Suc (rr_revision (snd q)), tr_reason = None\<rparr> (lc_transitions g),
       lc_records := js_del (fst q) (lc_records g)\<rparr>"

definition enforce_cold_limit :: "lifecycle_policy \<Rightarrow> ('r, 'd) lifecycle \<Rightarrow> ('r, 'd) lifecycle" where
  "enforce_cold_limit p g =
     (let cold = cold_records g
      in fold (evict_record p) (take (nat (int (length cold) - lp_cold p)) cold) g)"

definition complete_cool_step ::
  "lifecycle_policy \<Rightarrow> string \<Rightarrow> nat \<Rightarrow> 'd step_result \<Rightarrow> ('r, 'd) lifecycle \<Rightarrow> ('r, 'd) lifecycle" where
  "complete_cool_step p k rv res g =
     (case js_get (lc_records g) k of None \<Rightarrow> g | Some r0 \<Rightarrow>
        let r = settled rv r0; g1 = put_record k r g in
        if \<not> can_apply r rv then g1
        else case res of
          StepPending \<Rightarrow> g1
        | StepComplete d (CheckThrew e) \<Rightarrow>
            cleanup_failure p r (''Cold descriptor validation threw: '' @ e) g1
        | StepComplete d DescriptorInvalid \<Rightarrow> cleanup_failure p r ''Cold descriptor validation failed'' g1
        | StepComplete d DescriptorValid \<Rightarrow>
            let epoch = Suc (lc_epoch g1);
                r' = r\<lparr>rr_runtime := None, rr_descriptor := Some d, rr_residency := Cold,
                       rr_revision := Suc (rr_revision r), rr_cold_since := Some epoch, rr_touched := epoch\<rparr>;
                g2 = put_record k r' g1
            in enforce_cold_limit p (g2\<lparr>lc_epoch := epoch, lc_cooled := Suc (lc_cooled g2),
                 lc_transitions := record_transition p
                   \<lparr>tr_identity = rr_identity r', tr_from = Warm, tr_to = ToCold,
                    tr_revision = rr_revision r', tr_reason = None\<rparr> (lc_transitions g2)\<rparr>))"

definition complete_cool_failure ::
  "lifecycle_policy \<Rightarrow> string \<Rightarrow> nat \<Rightarrow> string \<Rightarrow> ('r, 'd) lifecycle \<Rightarrow> ('r, 'd) lifecycle" where
  "complete_cool_failure p k rv e g =
     (case js_get (lc_records g) k of None \<Rightarrow> g | Some r0 \<Rightarrow>
        let r = settled rv r0; g1 = put_record k r g in
        if can_apply r rv then cleanup_failure p r e g1 else g1)"

definition start_cool_step ::
  "lifecycle_policy \<Rightarrow> (string \<Rightarrow> 'd cool_answer) \<Rightarrow> string \<Rightarrow> ('r, 'd) lifecycle \<Rightarrow> ('r, 'd) lifecycle" where
  "start_cool_step p answer k g =
     (case js_get (lc_records g) k of None \<Rightarrow> g | Some r \<Rightarrow>
        if rr_runtime r = None then cleanup_failure p r ''WARM resource has no live runtime to cool'' g
        else
          let rv = rr_revision r; g1 = put_record k (r\<lparr>rr_inflight := Some rv\<rparr>) g in
          case answer k of
            CoolThrew e \<Rightarrow> complete_cool_failure p k rv e g1
          | CoolPromised \<Rightarrow> g1
          | CoolReturned res \<Rightarrow> complete_cool_step p k rv res g1)"

definition lifecycle_tick :: "lifecycle_policy \<Rightarrow> (string \<Rightarrow> 'd cool_answer) \<Rightarrow> ('r, 'd) lifecycle \<Rightarrow> ('r, 'd) lifecycle" where
  "lifecycle_tick p answer g =
     (if lc_disposed g then g
      else fold (start_cool_step p answer) (map fst (take (nat (lp_cleanups p)) (queued_warm p g))) g)"

text \<open>Disposal forgets every record; the runtimes to dispose of are returned. A second call changes nothing.\<close>

definition dispose :: "('r, 'd) lifecycle \<Rightarrow> 'r list \<times> ('r, 'd) lifecycle" where
  "dispose g =
     (if lc_disposed g then ([], g)
      else (List.map_filter (\<lambda>q. rr_runtime (snd q)) (lc_records g),
            g\<lparr>lc_disposed := True, lc_records := [], lc_declared := 0\<rparr>))"

definition count_residency :: "residency \<Rightarrow> ('r, 'd) lifecycle \<Rightarrow> nat" where
  "count_residency x g = length (filter (\<lambda>q. rr_residency (snd q) = x) (lc_records g))"

record lifecycle_snapshot =
  ls_version :: string
  ls_declared :: nat
  ls_counts :: "nat list"
  ls_queued :: nat
  ls_transitions :: "transition list"
  ls_cumulative :: "nat list"

definition get_snapshot :: "lifecycle_policy \<Rightarrow> ('r, 'd) lifecycle \<Rightarrow> lifecycle_snapshot" where
  "get_snapshot p g =
     \<lparr>ls_version = lp_version p, ls_declared = lc_declared g,
      ls_counts = map (\<lambda>x. count_residency x g) [Active, Warm, Cold] @ [0],
      ls_queued = length (queued_warm p g), ls_transitions = lc_transitions g,
      ls_cumulative = [lc_cooled g, lc_evicted g, 0, lc_failed g]\<rparr>"

section \<open>Records that satisfy a predicate\<close>

definition where_keys :: "('v \<Rightarrow> bool) \<Rightarrow> (string, 'v) js_map \<Rightarrow> string set" where
  "where_keys P m = {k. \<exists>r. js_get m k = Some r \<and> P r}"

lemma finite_where [simp]: "finite (where_keys P m)"
  by (rule finite_subset [of _ "dom (js_get m)"]) (auto simp: where_keys_def finite_dom_map_of)

lemma where_put:
  "where_keys P (js_put k r m) = (if P r then insert k (where_keys P m) else where_keys P m - {k})"
  by (auto simp: where_keys_def js_get_put split: if_splits)

lemma where_Nil [simp]: "where_keys P [] = {}"
  by (simp add: where_keys_def)

lemma where_image: "distinct (js_keys m) \<Longrightarrow> where_keys P m = fst ` set (filter (\<lambda>q. P (snd q)) m)"
  by (force simp: where_keys_def)

lemma get_filter:
  "js_get (filter (\<lambda>q. fst q \<notin> S) m) k = (if k \<in> S then None else js_get m k)"
  by (induction m) auto

lemma where_filter: "where_keys P (filter (\<lambda>q. fst q \<notin> S) m) = where_keys P m - S"
  by (auto simp: where_keys_def get_filter)

lemma count_where:
  assumes "distinct (js_keys m)"
  shows "length (filter (\<lambda>q. P (snd q)) m) = card (where_keys P m)"
proof -
  have "distinct (map fst (filter (\<lambda>q. P (snd q)) m))"
    using assms by (rule distinct_map_filter)
  then show ?thesis
    using where_image [OF assms, of P] by (metis distinct_card length_map list.set_map)
qed

section \<open>The residency invariant\<close>

definition resource_ok :: "string \<Rightarrow> ('r, 'd) resource \<Rightarrow> bool" where
  "resource_ok k r \<longleftrightarrow> k = resource_identity_key (rr_identity r) \<and>
     (rr_residency r = Active \<longleftrightarrow> rr_desired r = Some WantActive) \<and>
     (rr_residency r = Cold \<longrightarrow> rr_desired r = None)"

definition records_ok :: "(string, ('r, 'd) resource) js_map \<Rightarrow> bool" where
  "records_ok m \<longleftrightarrow> distinct (js_keys m) \<and> (\<forall>q \<in> set m. resource_ok (fst q) (snd q))"

definition residents :: "residency \<Rightarrow> ('r, 'd) lifecycle \<Rightarrow> string set" where
  "residents x g = where_keys (\<lambda>r. rr_residency r = x) (lc_records g)"

text \<open>Everything but the bound on cold descriptors, which a completed cool step restores last.\<close>

definition almost_ok :: "lifecycle_policy \<Rightarrow> ('r, 'd) lifecycle \<Rightarrow> bool" where
  "almost_ok p g \<longleftrightarrow> records_ok (lc_records g) \<and> int (card (residents Active g)) \<le> lp_active p \<and>
     int (length (lc_transitions g)) \<le> lp_events p \<and> (lc_disposed g \<longrightarrow> lc_records g = []) \<and>
     0 \<le> lp_cold p \<and> 0 \<le> lp_events p"

definition lifecycle_ok :: "lifecycle_policy \<Rightarrow> ('r, 'd) lifecycle \<Rightarrow> bool" where
  "lifecycle_ok p g \<longleftrightarrow> almost_ok p g \<and> int (card (residents Cold g)) \<le> lp_cold p"

lemma count_residency_card: "records_ok (lc_records g) \<Longrightarrow> count_residency x g = card (residents x g)"
  unfolding records_ok_def count_residency_def residents_def
  by (rule count_where) simp

lemma records_ok_get: "records_ok m \<Longrightarrow> js_get m k = Some r \<Longrightarrow> resource_ok k r"
  by (auto simp: records_ok_def dest: map_of_SomeD)

lemma records_ok_put: "records_ok m \<Longrightarrow> resource_ok k r \<Longrightarrow> records_ok (js_put k r m)"
  by (auto simp: records_ok_def distinct_put dest!: in_js_put)

lemma records_ok_filter: "records_ok m \<Longrightarrow> records_ok (filter f m)"
  by (auto simp: records_ok_def distinct_map_filter)

lemma del_filter: "js_del k m = filter (\<lambda>q. fst q \<noteq> k) m"
  by (induction m) auto

lemma records_ok_del: "records_ok m \<Longrightarrow> records_ok (js_del k m)"
  by (simp add: del_filter records_ok_filter)

lemma record_transition_bounded:
  assumes "int (length ts) \<le> lp_events p" and "0 \<le> lp_events p"
  shows "int (length (record_transition p t ts)) \<le> lp_events p"
  using assms by (auto simp: record_transition_def Let_def)

lemma put_same_residency:
  assumes ok: "lifecycle_ok p g" and r: "js_get (lc_records g) k = Some r"
    and r': "resource_ok k r'" "rr_residency r' = rr_residency r"
  shows "lifecycle_ok p (put_record k r' g)" and "residents x (put_record k r' g) = residents x g"
proof -
  show same: "residents x (put_record k r' g) = residents x g" for x
    using r r' by (auto simp: residents_def put_record_def where_put) (auto simp: where_keys_def)
  then show "lifecycle_ok p (put_record k r' g)"
    using ok r r' by (auto simp: lifecycle_ok_def almost_ok_def put_record_def intro: records_ok_put)
qed

lemma settled_same [simp]:
  "rr_residency (settled rv r) = rr_residency r" "rr_desired (settled rv r) = rr_desired r"
  "rr_revision (settled rv r) = rr_revision r" "rr_identity (settled rv r) = rr_identity r"
  "rr_runtime (settled rv r) = rr_runtime r"
  by (simp_all add: settled_def)

lemma resource_ok_settled [simp]: "resource_ok k (settled rv r) = resource_ok k r"
  by (simp add: resource_ok_def)

lemma cleanup_failure_parts [simp]:
  "lc_records (cleanup_failure p r e g) = lc_records g" "lc_disposed (cleanup_failure p r e g) = lc_disposed g"
  "residents x (cleanup_failure p r e g) = residents x g"
  by (simp_all add: cleanup_failure_def residents_def)

lemma cleanup_failure_ok: "lifecycle_ok p g \<Longrightarrow> lifecycle_ok p (cleanup_failure p r e g)"
  by (auto simp: lifecycle_ok_def almost_ok_def)
    (auto simp: cleanup_failure_def intro: record_transition_bounded)

subsection \<open>Eviction\<close>

lemma evictions:
  "lc_records (fold (evict_record p) qs g) = filter (\<lambda>q. fst q \<notin> fst ` set qs) (lc_records g) \<and>
   lc_disposed (fold (evict_record p) qs g) = lc_disposed g \<and>
   (0 \<le> lp_events p \<longrightarrow> int (length (lc_transitions g)) \<le> lp_events p \<longrightarrow>
     int (length (lc_transitions (fold (evict_record p) qs g))) \<le> lp_events p)"
proof (induction qs arbitrary: g)
  case (Cons q qs)
  have "filter (\<lambda>x. fst x \<notin> fst ` set qs) (js_del (fst q) (lc_records g)) =
      filter (\<lambda>x. fst x \<notin> insert (fst q) (fst ` set qs)) (lc_records g)"
    by (simp add: del_filter conj_commute)
  with Cons.IH [of "evict_record p q g"] show ?case
    by (simp add: evict_record_def record_transition_bounded)
qed simp

lemma cold_records_ok:
  assumes "records_ok (lc_records g)"
  shows "fst ` set (cold_records g) = residents Cold g" and "distinct (map fst (cold_records g))"
    and "length (cold_records g) = card (residents Cold g)"
proof -
  let ?f = "filter (\<lambda>q. rr_residency (snd q) = Cold) (lc_records g)"
  have f: "filter (\<lambda>q. rr_residency (snd q) = Cold \<and> rr_desired (snd q) = None) (lc_records g) = ?f"
    using assms by (intro filter_cong) (auto simp: records_ok_def resource_ok_def)
  have d: "distinct (js_keys (lc_records g))" using assms by (simp add: records_ok_def)
  show "fst ` set (cold_records g) = residents Cold g"
    using where_image [OF d] by (simp add: cold_records_def f residents_def)
  show "length (cold_records g) = card (residents Cold g)"
    using count_where [OF d] by (simp add: cold_records_def f residents_def)
  then show "distinct (map fst (cold_records g))"
    by (metis \<open>fst ` set (cold_records g) = residents Cold g\<close> card_distinct length_map list.set_map)
qed

lemma enforce_cold_limit_ok:
  assumes ok: "almost_ok p g"
  shows "lifecycle_ok p (enforce_cold_limit p g)"
proof -
  let ?cold = "cold_records g"
  let ?n = "nat (int (length ?cold) - lp_cold p)"
  let ?out = "fst ` set (take ?n ?cold)"
  let ?g = "enforce_cold_limit p g"
  have rec: "records_ok (lc_records g)" using ok by (simp add: almost_ok_def)
  note ev = evictions [of p "take ?n ?cold" g]
  have m: "lc_records ?g = filter (\<lambda>q. fst q \<notin> ?out) (lc_records g)"
    using ev by (simp add: enforce_cold_limit_def Let_def)
  have d: "distinct (js_keys (lc_records g))" using rec by (simp add: records_ok_def)
  have rec': "records_ok (lc_records ?g)" unfolding m by (rule records_ok_filter [OF rec])
  have sub: "residents x ?g = residents x g - ?out" for x
    unfolding residents_def m by (rule where_filter)
  have "card ?out = min (length ?cold) ?n"
    using cold_records_ok(2) [OF rec]
    by (metis distinct_card distinct_take length_map length_take list.set_map take_map)
  moreover have "?out \<subseteq> residents Cold g"
    using cold_records_ok(1) [OF rec] by (auto dest: in_set_takeD)
  ultimately have "card (residents Cold ?g) = length ?cold - min (length ?cold) ?n"
    using cold_records_ok(3) [OF rec] by (simp add: sub card_Diff_subset)
  moreover have "0 \<le> lp_cold p" using ok by (simp add: almost_ok_def)
  ultimately have "int (card (residents Cold ?g)) \<le> lp_cold p" by (simp split: split_min)
  moreover have "card (residents Active ?g) \<le> card (residents Active g)"
    unfolding sub by (rule card_mono) (auto simp: residents_def)
  ultimately show ?thesis
    using ok ev rec' m by (auto simp: lifecycle_ok_def almost_ok_def enforce_cold_limit_def Let_def)
qed

subsection \<open>Cool steps\<close>

lemma put_put_record [simp]:
  "js_get (lc_records (put_record k r g)) k' = (if k' = k then Some r else js_get (lc_records g) k')"
  by (simp add: put_record_def js_get_put)

lemma complete_cool_step_ok:
  assumes ok: "lifecycle_ok p g"
  shows "lifecycle_ok p (complete_cool_step p k rv res g)"
proof (cases "js_get (lc_records g) k")
  case None
  then show ?thesis using ok by (simp add: complete_cool_step_def)
next
  case (Some r0)
  let ?r = "settled rv r0" and ?g1 = "put_record k (settled rv r0) g"
  have r0: "resource_ok k r0"
    using ok Some by (auto simp: lifecycle_ok_def almost_ok_def dest: records_ok_get)
  have g1: "lifecycle_ok p ?g1"
    by (rule put_same_residency(1) [OF ok Some]) (simp_all add: r0)
  have cooled: "almost_ok p (put_record k r' ?g1\<lparr>lc_epoch := e, lc_cooled := n,
      lc_transitions := record_transition p t (lc_transitions ?g1)\<rparr>)"
    if "can_apply ?r rv" "rr_identity r' = rr_identity ?r" "rr_residency r' = Cold" "rr_desired r' = rr_desired ?r"
    for r' e n t
  proof -
    have r': "resource_ok k r'" using r0 that by (simp add: resource_ok_def can_apply_def)
    moreover have "records_ok (lc_records g)" using ok by (simp add: lifecycle_ok_def almost_ok_def)
    ultimately have rec: "records_ok (js_put k r' (lc_records g))" by (rule records_ok_put [rotated])
    have "residents Active (put_record k r' ?g1) \<subseteq> residents Active ?g1"
      using that by (auto simp: residents_def put_record_def where_put)
    then have "card (residents Active (put_record k r' ?g1)) \<le> card (residents Active ?g1)"
      by (rule card_mono [rotated]) (simp add: residents_def)
    then show ?thesis
      using g1 rec Some
      by (auto simp: lifecycle_ok_def almost_ok_def put_record_def residents_def
          intro: record_transition_bounded)
  qed
  show ?thesis
    using Some g1 enforce_cold_limit_ok [OF cooled]
    by (auto simp: complete_cool_step_def Let_def put_record_def intro!: cleanup_failure_ok
        split: step_result.split descriptor_check.split)
qed

lemma complete_cool_failure_ok:
  assumes ok: "lifecycle_ok p g"
  shows "lifecycle_ok p (complete_cool_failure p k rv e g)"
proof (cases "js_get (lc_records g) k")
  case (Some r0)
  have "resource_ok k r0"
    using ok Some by (auto simp: lifecycle_ok_def almost_ok_def dest: records_ok_get)
  then have "lifecycle_ok p (put_record k (settled rv r0) g)"
    by (intro put_same_residency(1) [OF ok Some]) simp_all
  then show ?thesis using Some by (simp add: complete_cool_failure_def Let_def cleanup_failure_ok)
qed (simp add: ok complete_cool_failure_def)

lemma start_cool_step_ok:
  assumes ok: "lifecycle_ok p g"
  shows "lifecycle_ok p (start_cool_step p answer k g)"
proof (cases "js_get (lc_records g) k")
  case (Some r)
  have "resource_ok k r"
    using ok Some by (auto simp: lifecycle_ok_def almost_ok_def dest: records_ok_get)
  then have "lifecycle_ok p (put_record k (r\<lparr>rr_inflight := Some (rr_revision r)\<rparr>) g)"
    by (intro put_same_residency(1) [OF ok Some]) (simp_all add: resource_ok_def)
  then show ?thesis
    using Some ok
    by (simp add: start_cool_step_def Let_def cleanup_failure_ok complete_cool_step_ok
        complete_cool_failure_ok split: cool_answer.split)
qed (simp add: ok start_cool_step_def)

lemma lifecycle_tick_ok:
  assumes "lifecycle_ok p g" shows "lifecycle_ok p (lifecycle_tick p answer g)"
proof -
  have "lifecycle_ok p (fold (start_cool_step p answer) ks g)" for ks
    using assms by (induction ks arbitrary: g) (simp_all add: start_cool_step_ok)
  then show ?thesis using assms by (simp add: lifecycle_tick_def)
qed

subsection \<open>Reconciliation\<close>

lemma count_declarations_Inr:
  "count_declarations seen a w ds = Inr (a', w') \<longleftrightarrow>
     distinct (map declared_key ds) \<and> set seen \<inter> set (map declared_key ds) = {} \<and>
     a' = a + length (filter (\<lambda>d. dl_desired d = WantActive) ds) \<and>
     w' = w + length (filter (\<lambda>d. dl_desired d \<noteq> WantActive) ds)"
  by (induction ds arbitrary: seen a w) auto

text \<open>What a working set must satisfy on its own.\<close>

definition working_set_ok :: "lifecycle_policy \<Rightarrow> ws_declaration list \<Rightarrow> bool" where
  "working_set_ok p ds \<longleftrightarrow> int (length ds) \<le> lp_declarations p \<and> distinct (map declared_key ds) \<and>
     int (length (filter (\<lambda>d. dl_desired d = WantActive) ds)) \<le> lp_active p \<and>
     int (length (filter (\<lambda>d. dl_desired d \<noteq> WantActive) ds)) \<le> lp_warm p"

lemma validate_working_set_iff: "validate_working_set p ds = Admitted \<longleftrightarrow> working_set_ok p ds"
proof (cases "count_declarations [] 0 0 ds")
  case (Inl k)
  then have "\<not> distinct (map declared_key ds)"
    using count_declarations_Inr [of "[]" 0 0 ds "length (filter (\<lambda>d. dl_desired d = WantActive) ds)"
        "length (filter (\<lambda>d. dl_desired d \<noteq> WantActive) ds)"] by auto
  with Inl show ?thesis by (simp add: validate_working_set_def working_set_ok_def)
next
  case (Inr c)
  obtain a w where c: "c = (a, w)" by (cases c)
  show ?thesis
    using Inr count_declarations_Inr [of "[]" 0 0 ds a w] unfolding c
    by (auto simp: validate_working_set_def working_set_ok_def)
qed

lemma desired_by_key_get:
  assumes "distinct (map declared_key ds)"
  shows "js_get (desired_by_key ds) k = map_of (map (\<lambda>d. (declared_key d, dl_desired d)) ds) k"
proof -
  have "js_get (fold (\<lambda>d m. js_put (declared_key d) (dl_desired d) m) ds m) k =
      (case map_of (map (\<lambda>d. (declared_key d, dl_desired d)) ds) k of Some v \<Rightarrow> Some v | None \<Rightarrow> js_get m k)" for m
    using assms
  proof (induction ds arbitrary: m)
    case (Cons d ds)
    then have "map_of (map (\<lambda>d. (declared_key d, dl_desired d)) ds) (declared_key d) = None"
      by (simp add: map_of_eq_None_iff image_image)
    then show ?case using Cons by (auto simp: js_get_put split: option.split)
  qed simp
  from this [of "[]"] show ?thesis by (simp add: desired_by_key_def split: option.split)
qed

lemma desired_by_key_Some:
  assumes "distinct (map declared_key ds)"
  shows "js_get (desired_by_key ds) k = Some x \<longleftrightarrow> (\<exists>d \<in> set ds. declared_key d = k \<and> dl_desired d = x)"
  unfolding desired_by_key_get [OF assms]
  using assms by (subst map_of_eq_Some_iff) (auto simp: comp_def)

lemma desired_by_key_keys: "set (js_keys (desired_by_key ds)) = declared_key ` set ds"
proof -
  have "set (js_keys (fold (\<lambda>d m. js_put (declared_key d) (dl_desired d) m) ds m)) =
      set (js_keys m) \<union> declared_key ` set ds" for m
    by (induction ds arbitrary: m) auto
  from this [of "[]"] show ?thesis by (simp add: desired_by_key_def)
qed

lemma undeclarable_None:
  "undeclarable m ks = None \<longleftrightarrow> (\<forall>k \<in> set ks. \<exists>r. js_get m k = Some r \<and> rr_residency r \<noteq> Cold)"
  by (induction ks) (auto split: option.split if_splits)

lemma first_detach_error_None:
  "first_detach_error detach ks = None \<longleftrightarrow> (\<forall>k \<in> set ks. detach k = None)"
  by (induction ks) (auto split: option.split)

lemma reconcile_record_parts:
  assumes "reconcile_record p want r e ts = (r', e', ts')"
  shows "rr_identity r' = rr_identity r" "rr_desired r' = want" "rr_inflight r' = rr_inflight r"
    "rr_residency r' = next_residency (rr_residency r) want" "rr_runtime r' = rr_runtime r"
    "rr_revision r' = (if rr_desired r = want \<and> next_residency (rr_residency r) want = rr_residency r
       then rr_revision r else Suc (rr_revision r))"
    "int (length ts) \<le> lp_events p \<Longrightarrow> 0 \<le> lp_events p \<Longrightarrow> int (length ts') \<le> lp_events p"
  using assms by (auto simp: reconcile_record_def Let_def record_transition_bounded split: if_splits)

lemma reconcile_records_parts:
  assumes "reconcile_records p want m e ts = (m', e', ts')"
  shows "js_keys m' = js_keys m \<and>
    list_all2 (\<lambda>q q'. fst q' = fst q \<and> rr_identity (snd q') = rr_identity (snd q) \<and>
      rr_desired (snd q') = js_get want (fst q) \<and> rr_runtime (snd q') = rr_runtime (snd q) \<and>
      rr_residency (snd q') = next_residency (rr_residency (snd q)) (js_get want (fst q))) m m' \<and>
    (int (length ts) \<le> lp_events p \<longrightarrow> 0 \<le> lp_events p \<longrightarrow> int (length ts') \<le> lp_events p)"
  using assms
proof (induction p want m e ts arbitrary: m' e' ts' rule: reconcile_records.induct)
  case (2 p want k r m e ts)
  obtain r1 e1 t1 where r1: "reconcile_record p (js_get want k) r e ts = (r1, e1, t1)" by (metis prod_cases3)
  obtain m2 e2 t2 where m2: "reconcile_records p want m e1 t1 = (m2, e2, t2)" by (metis prod_cases3)
  show ?case
    using 2(1) [OF r1 [symmetric] refl refl m2] 2(2) r1 m2 reconcile_record_parts [OF r1] by auto
qed simp

lemma get_list_all2:
  assumes "list_all2 (\<lambda>q q'. fst q' = fst q \<and> R (fst q) (snd q) (snd q')) m m'"
  shows "rel_option (R k) (js_get m k) (js_get m' k)"
  using assms by (induction rule: list_all2_induct) auto

text \<open>The records after an accepted working set, key by key.\<close>

definition reconciled :: "desired option \<Rightarrow> ('r, 'd) resource \<Rightarrow> ('r, 'd) resource \<Rightarrow> bool" where
  "reconciled want r r' \<longleftrightarrow> rr_identity r' = rr_identity r \<and> rr_desired r' = want \<and>
     rr_runtime r' = rr_runtime r \<and> rr_residency r' = next_residency (rr_residency r) want"

lemma reconcile_cases:
  obtains (refused) e where "reconcile p detach ds g = (Rejected e, g)"
      and "\<not> (working_set_ok p ds \<and>
        (\<forall>d \<in> set ds. \<exists>r. js_get (lc_records g) (declared_key d) = Some r \<and> rr_residency r \<noteq> Cold) \<and>
        (\<forall>k \<in> set (detachments (desired_by_key ds) (lc_records g)). detach k = None))"
  | (accepted) m e ts where "reconcile p detach ds g =
        (Admitted, g\<lparr>lc_records := m, lc_epoch := e, lc_transitions := ts, lc_declared := length ds\<rparr>)"
      and "working_set_ok p ds"
      and "\<forall>d \<in> set ds. \<exists>r. js_get (lc_records g) (declared_key d) = Some r \<and> rr_residency r \<noteq> Cold"
      and "\<forall>k \<in> set (detachments (desired_by_key ds) (lc_records g)). detach k = None"
      and "js_keys m = js_keys (lc_records g)"
      and "\<And>k. rel_option (reconciled (js_get (desired_by_key ds) k)) (js_get (lc_records g) k) (js_get m k)"
      and "int (length (lc_transitions g)) \<le> lp_events p \<Longrightarrow> 0 \<le> lp_events p \<Longrightarrow> int (length ts) \<le> lp_events p"
proof -
  let ?want = "desired_by_key ds"
  let ?known = "\<forall>d \<in> set ds. \<exists>r. js_get (lc_records g) (declared_key d) = Some r \<and> rr_residency r \<noteq> Cold"
  have u: "undeclarable (lc_records g) (js_keys ?want) = None \<longleftrightarrow> ?known"
    by (simp add: undeclarable_None desired_by_key_keys del: set_map)
  obtain m e ts where m: "reconcile_records p ?want (lc_records g) (lc_epoch g) (lc_transitions g) = (m, e, ts)"
    by (metis prod_cases3)
  show thesis
  proof (cases "working_set_ok p ds \<and> ?known \<and>
      first_detach_error detach (detachments ?want (lc_records g)) = None")
    case True
    have rel: "rel_option (reconciled (js_get ?want k)) (js_get (lc_records g) k) (js_get m k)" for k
      by (rule get_list_all2 [of "\<lambda>k. reconciled (js_get ?want k)"])
        (use reconcile_records_parts [OF m] in \<open>simp add: reconciled_def conj_ac\<close>)
    have v: "validate_working_set p ds = Admitted" using True validate_working_set_iff by blast
    have "reconcile p detach ds g =
        (Admitted, g\<lparr>lc_records := m, lc_epoch := e, lc_transitions := ts, lc_declared := length ds\<rparr>)"
      using True u by (simp add: reconcile_def Let_def v m del: set_map)
    then show thesis
      by (rule accepted)
        (use True rel reconcile_records_parts [OF m] in \<open>simp_all add: first_detach_error_None del: set_map\<close>)
  next
    case False
    have "\<exists>e. reconcile p detach ds g = (Rejected e, g)"
      using False u m validate_working_set_iff [of p ds]
      by (auto simp: reconcile_def Let_def split: verdict.split option.split)
    then show thesis using False refused by (auto simp: first_detach_error_None)
  qed
qed

lemma reconciled_ok:
  assumes "resource_ok k r" and "reconciled want r r'" and "want \<noteq> None \<Longrightarrow> rr_residency r \<noteq> Cold"
  shows "resource_ok k r'"
  using assms
  by (cases "rr_residency r"; cases want; cases "the want")
    (auto simp: resource_ok_def reconciled_def next_residency_def)

lemma reconcile_ok:
  assumes ok: "lifecycle_ok p g"
  shows "lifecycle_ok p (snd (reconcile p detach ds g))"
proof (cases rule: reconcile_cases [of p detach ds g])
  case (refused e)
  then show ?thesis using ok by simp
next
  case (accepted m e ts)
  let ?want = "desired_by_key ds"
  have d: "distinct (map declared_key ds)" using accepted(2) by (simp add: working_set_ok_def)
  have rec: "records_ok (lc_records g)" using ok by (simp add: lifecycle_ok_def almost_ok_def)
  have old: "\<exists>r. js_get (lc_records g) k = Some r \<and> reconciled (js_get ?want k) r r' \<and> resource_ok k r'"
    if get: "js_get m k = Some r'" for k r'
  proof -
    obtain r where r: "js_get (lc_records g) k = Some r" "reconciled (js_get ?want k) r r'"
      using accepted(6) [of k] get by (cases "js_get (lc_records g) k") simp_all
    have "js_get ?want k \<noteq> None \<Longrightarrow> rr_residency r \<noteq> Cold"
      using accepted(3) r(1) desired_by_key_Some [OF d, of k] by fastforce
    then have "resource_ok k r'" by (rule reconciled_ok [OF records_ok_get [OF rec r(1)] r(2)])
    with r show ?thesis by blast
  qed
  have dm: "distinct (js_keys m)" using accepted(5) rec by (simp add: records_ok_def)
  have rec': "records_ok m"
    using old dm by (auto simp: records_ok_def) (metis map_of_eq_Some_iff)
  have "where_keys (\<lambda>r. rr_residency r = Active) m \<subseteq> declared_key ` set (filter (\<lambda>d. dl_desired d = WantActive) ds)"
  proof
    fix k assume "k \<in> where_keys (\<lambda>r. rr_residency r = Active) m"
    then obtain r' where "js_get m k = Some r'" "rr_residency r' = Active" by (auto simp: where_keys_def)
    with old [of k r'] have "js_get ?want k = Some WantActive"
      by (auto simp: resource_ok_def reconciled_def)
    then show "k \<in> declared_key ` set (filter (\<lambda>d. dl_desired d = WantActive) ds)"
      unfolding desired_by_key_Some [OF d] by auto
  qed
  then have "card (where_keys (\<lambda>r. rr_residency r = Active) m) \<le> card (set (filter (\<lambda>d. dl_desired d = WantActive) ds))"
    by (rule surj_card_le [rotated]) simp
  also have "\<dots> \<le> length (filter (\<lambda>d. dl_desired d = WantActive) ds)" by (rule card_length)
  finally have act: "int (card (where_keys (\<lambda>r. rr_residency r = Active) m)) \<le> lp_active p"
    using accepted(2) by (simp add: working_set_ok_def)
  have "where_keys (\<lambda>r. rr_residency r = Cold) m \<subseteq> where_keys (\<lambda>r. rr_residency r = Cold) (lc_records g)"
    using old by (force simp: where_keys_def reconciled_def next_residency_def split: if_splits)
  then have "card (where_keys (\<lambda>r. rr_residency r = Cold) m) \<le> card (residents Cold g)"
    unfolding residents_def by (rule card_mono [rotated]) simp
  then show ?thesis
    using ok rec' act accepted(1,5,7)
    by (auto simp: lifecycle_ok_def almost_ok_def residents_def)
qed

subsection \<open>Registration, discarding and disposal\<close>

lemma register_ok:
  assumes ok: "lifecycle_ok p g" and "register i family runtime g = Inr g'"
  shows "lifecycle_ok p g'"
proof -
  let ?r = "\<lparr>rr_identity = i, rr_runtime = runtime, rr_descriptor = None, rr_residency = Warm,
     rr_desired = None, rr_revision = 0, rr_inflight = None, rr_touched = Suc (lc_epoch g),
     rr_cold_since = None\<rparr>"
  have g': "g' = g\<lparr>lc_records := js_put (resource_identity_key i) ?r (lc_records g), lc_epoch := Suc (lc_epoch g)\<rparr>"
    and "\<not> lc_disposed g" and new: "js_get (lc_records g) (resource_identity_key i) = None"
    using assms(2) by (auto simp: register_def Let_def js_has_def split: if_splits)
  moreover have "residents x g' \<subseteq> residents x g" if "x \<noteq> Warm" for x
    using that unfolding g' residents_def by (auto simp: where_put)
  then have "card (residents x g') \<le> card (residents x g)" if "x \<noteq> Warm" for x
    using that by (intro card_mono) (auto simp: residents_def)
  from this [of Active] this [of Cold] have "card (residents Active g') \<le> card (residents Active g)"
    "card (residents Cold g') \<le> card (residents Cold g)" by simp_all
  moreover have "records_ok (lc_records g')"
    unfolding g' using ok by (simp add: lifecycle_ok_def almost_ok_def records_ok_put resource_ok_def)
  ultimately show ?thesis using ok by (auto simp: lifecycle_ok_def almost_ok_def)
qed

lemma delete_ok: "lifecycle_ok p g \<Longrightarrow> lifecycle_ok p (g\<lparr>lc_records := js_del k (lc_records g), lc_failed := n\<rparr>)"
proof -
  assume ok: "lifecycle_ok p g"
  have sub: "where_keys P (js_del k (lc_records g)) = where_keys P (lc_records g) - {k}" for P
    using where_filter [of P "{k}"] by (simp add: del_filter)
  have "card (A - {k}) \<le> card A" if "finite A" for A :: "string set"
    using that by (intro card_mono) auto
  then have c: "card (where_keys P (lc_records g) - {k}) \<le> card (where_keys P (lc_records g))" for P
    by simp
  show ?thesis
    using ok c [of "\<lambda>r. rr_residency r = Active"] c [of "\<lambda>r. rr_residency r = Cold"]
    by (auto simp: lifecycle_ok_def almost_ok_def residents_def sub records_ok_del)
qed

lemma discard_ok: "lifecycle_ok p g \<Longrightarrow> lifecycle_ok p (snd (discard_unclaimed_warm i d g))"
  using delete_ok [of p g "lc_failed g" "resource_identity_key i"]
    delete_ok [of p g "Suc (lc_failed g)" "resource_identity_key i"]
  by (auto simp: discard_unclaimed_warm_def Let_def split: option.split disposal.split)

lemma dispose_ok: "lifecycle_ok p g \<Longrightarrow> lifecycle_ok p (snd (dispose g))"
  by (auto simp: dispose_def lifecycle_ok_def almost_ok_def residents_def records_ok_def)

subsection \<open>Histories\<close>

text \<open>
  Every call of the governor and every answer of an adapter that arrives later: the completion or
  failure of a cool step promise, for any key and revision, and the rejection of a disposal promise.
\<close>

datatype ('r, 'd) lifecycle_event =
  LRegister resource_identity string "'r option"
| LDiscard resource_identity disposal
| LReconcile "string \<Rightarrow> string option" "ws_declaration list"
| LTick "string \<Rightarrow> 'd cool_answer"
| LCooled string nat "'d step_result"
| LCoolFailed string nat string
| LDisposalRejected
| LDispose

fun lifecycle_step :: "lifecycle_policy \<Rightarrow> ('r, 'd) lifecycle \<Rightarrow> ('r, 'd) lifecycle_event \<Rightarrow> ('r, 'd) lifecycle" where
  "lifecycle_step p g (LRegister i f x) = (case register i f x g of Inl e \<Rightarrow> g | Inr g' \<Rightarrow> g')"
| "lifecycle_step p g (LDiscard i d) = snd (discard_unclaimed_warm i d g)"
| "lifecycle_step p g (LReconcile detach ds) = snd (reconcile p detach ds g)"
| "lifecycle_step p g (LTick answer) = lifecycle_tick p answer g"
| "lifecycle_step p g (LCooled k rv res) = complete_cool_step p k rv res g"
| "lifecycle_step p g (LCoolFailed k rv e) = complete_cool_failure p k rv e g"
| "lifecycle_step p g LDisposalRejected = disposal_rejected g"
| "lifecycle_step p g LDispose = snd (dispose g)"

lemma disposal_rejected_ok: "lifecycle_ok p g \<Longrightarrow> lifecycle_ok p (disposal_rejected g)"
  by (auto simp: disposal_rejected_def lifecycle_ok_def almost_ok_def residents_def)

lemma lifecycle_step_ok: "lifecycle_ok p g \<Longrightarrow> lifecycle_ok p (lifecycle_step p g ev)"
  by (cases ev)
    (auto simp: reconcile_ok discard_ok dispose_ok lifecycle_tick_ok complete_cool_step_ok complete_cool_failure_ok
      disposal_rejected_ok intro: register_ok split: sum.split)

interpretation lifecycle_machine: invariant_system "lifecycle_step p" "lifecycle_ok p" for p
  by unfold_locales (rule lifecycle_step_ok)

lemma new_lifecycle_ok: "new_lifecycle p = Inr g \<Longrightarrow> lifecycle_ok p g"
  by (auto simp: new_lifecycle_def lifecycle_ok_def almost_ok_def residents_def records_ok_def
      find_None_iff policy_limits_def valid_limit_def split: if_splits option.splits)

section \<open>Progress of cleanup\<close>

text \<open>A warm record with a live runtime whose adapter completes at once becomes cold.\<close>

definition cools_at_once :: "(string \<Rightarrow> 'd cool_answer) \<Rightarrow> string \<Rightarrow> bool" where
  "cools_at_once answer k \<longleftrightarrow> (\<exists>d. answer k = CoolReturned (StepComplete d DescriptorValid))"

lemma enforce_keeps_warm:
  assumes "records_ok (lc_records g)"
  shows "residents Warm (enforce_cold_limit p g) = residents Warm g"
    and "k \<in> residents Warm g \<Longrightarrow>
      js_get (lc_records (enforce_cold_limit p g)) k = js_get (lc_records g) k"
    and "records_ok (lc_records (enforce_cold_limit p g))"
proof -
  let ?qs = "take (nat (int (length (cold_records g)) - lp_cold p)) (cold_records g)"
  have m: "lc_records (enforce_cold_limit p g) = filter (\<lambda>q. fst q \<notin> fst ` set ?qs) (lc_records g)"
    using evictions [of p ?qs g] by (simp add: enforce_cold_limit_def Let_def)
  have "fst ` set ?qs \<subseteq> residents Cold g"
    using cold_records_ok(1) [OF assms] by (auto dest: in_set_takeD)
  then have cold: "\<And>k. k \<in> fst ` set ?qs \<Longrightarrow> k \<notin> residents Warm g"
    by (force simp: residents_def where_keys_def)
  then show "residents Warm (enforce_cold_limit p g) = residents Warm g"
    unfolding residents_def m where_filter by blast
  show "k \<in> residents Warm g \<Longrightarrow> js_get (lc_records (enforce_cold_limit p g)) k = js_get (lc_records g) k"
    unfolding m get_filter using cold by auto
  show "records_ok (lc_records (enforce_cold_limit p g))"
    unfolding m by (rule records_ok_filter [OF assms])
qed

lemma cool_at_once:
  assumes r: "js_get (lc_records g) k = Some r" "rr_residency r = Warm" "rr_desired r = None" "rr_runtime r \<noteq> None"
    and ok: "records_ok (lc_records g)" and d: "cools_at_once answer k"
  shows "residents Warm (start_cool_step p answer k g) = residents Warm g - {k}"
    and "k' \<in> residents Warm g - {k} \<Longrightarrow>
      js_get (lc_records (start_cool_step p answer k g)) k' = js_get (lc_records g) k'"
    and "records_ok (lc_records (start_cool_step p answer k g))"
proof -
  obtain d where a: "answer k = CoolReturned (StepComplete d DescriptorValid)"
    using d by (auto simp: cools_at_once_def)
  let ?r = "r\<lparr>rr_inflight := None, rr_runtime := None, rr_descriptor := Some d, rr_residency := Cold,
      rr_revision := Suc (rr_revision r), rr_cold_since := Some (Suc (lc_epoch g)), rr_touched := Suc (lc_epoch g)\<rparr>"
  obtain n t where s: "start_cool_step p answer k g = enforce_cold_limit p
      (g\<lparr>lc_records := js_put k ?r (lc_records g), lc_epoch := Suc (lc_epoch g), lc_cooled := n,
         lc_transitions := t\<rparr>)" (is "_ = enforce_cold_limit p ?g")
    using r a
    by (simp add: start_cool_step_def complete_cool_step_def Let_def put_record_def settled_def
        can_apply_def update_conv')
  have rec: "records_ok (lc_records ?g)"
    using r ok by (auto simp: resource_ok_def intro!: records_ok_put dest: records_ok_get)
  have w: "residents Warm ?g = residents Warm g - {k}"
    by (simp add: residents_def where_put)
  show "residents Warm (start_cool_step p answer k g) = residents Warm g - {k}"
    unfolding s enforce_keeps_warm(1) [OF rec] by (rule w)
  show "js_get (lc_records (start_cool_step p answer k g)) k' = js_get (lc_records g) k'"
    if "k' \<in> residents Warm g - {k}" for k'
    unfolding s using that enforce_keeps_warm(2) [OF rec, of k'] w by (simp add: js_get_put)
  show "records_ok (lc_records (start_cool_step p answer k g))"
    unfolding s by (rule enforce_keeps_warm(3) [OF rec])
qed

lemma cool_all_at_once:
  assumes "distinct ks" and "\<forall>k \<in> set ks. cools_at_once answer k \<and>
      (\<exists>r. js_get (lc_records g) k = Some r \<and> rr_residency r = Warm \<and> rr_desired r = None \<and> rr_runtime r \<noteq> None)"
    and "records_ok (lc_records g)"
  shows "residents Warm (fold (start_cool_step p answer) ks g) = residents Warm g - set ks"
  using assms
proof (induction ks arbitrary: g)
  case (Cons k ks)
  let ?g = "start_cool_step p answer k g"
  obtain r where r: "js_get (lc_records g) k = Some r" "rr_residency r = Warm" "rr_desired r = None"
    "rr_runtime r \<noteq> None" "cools_at_once answer k" using Cons.prems(2) by auto
  note step = cool_at_once [OF r(1-4) Cons.prems(3) r(5), where p = p]
  have "js_get (lc_records ?g) k' = js_get (lc_records g) k'" if "k' \<in> set ks" for k'
    using that Cons.prems(1,2) step(2) [where k' = k'] by (force simp: residents_def where_keys_def)
  then have "residents Warm (fold (start_cool_step p answer) ks ?g) = residents Warm ?g - set ks"
    using Cons.prems step(3) by (intro Cons.IH) auto
  then show ?case using step(1) by auto
qed simp

lemma queued_warm_parts:
  assumes "records_ok (lc_records g)" and "q \<in> set (queued_warm p g)"
  shows "js_get (lc_records g) (fst q) = Some (snd q)" "rr_residency (snd q) = Warm" "rr_desired (snd q) = None"
    "rr_inflight (snd q) = None"
  using assms
  by (auto simp: queued_warm_def warm_records_def records_ok_def dest!: in_set_takeD
      intro: map_of_is_SomeI)

lemma queued_warm_distinct:
  assumes "records_ok (lc_records g)" shows "distinct (map fst (queued_warm p g))"
proof -
  have "distinct (map fst (sort_key f (filter P (lc_records g))))" for f :: "string \<times> ('a, 'b) resource \<Rightarrow> nat" and P
  proof -
    have "distinct (map fst (filter P (lc_records g)))"
      using assms by (auto simp: records_ok_def intro: distinct_map_filter)
    then have "inj_on fst (set (filter P (lc_records g)))" "distinct (filter P (lc_records g))"
      by (simp_all add: distinct_map)
    then show ?thesis by (simp add: distinct_map)
  qed
  then show ?thesis
    by (simp add: queued_warm_def warm_records_def take_map [symmetric])
qed

section \<open>Properties\<close>

text \<open>
  C18: from a freshly constructed governor, whatever is registered, discarded, declared, cooled or
  disposed, and whatever cool step and disposal promises answer later, never more resources are
  ACTIVE or COLD than the policy allows, the transition log stays within its bound, every record is
  filed under its own identity key and is ACTIVE exactly when the last working set declared it so.
\<close>

theorem residency_stays_bounded:
  fixes g0 :: "('r, 'd) lifecycle"
  assumes "new_lifecycle p = Inr g0"
  shows "let g = run (lifecycle_step p) g0 evs in
    int (count_residency Active g) \<le> lp_active p \<and> int (count_residency Cold g) \<le> lp_cold p \<and>
    int (length (lc_transitions g)) \<le> lp_events p \<and> distinct (js_keys (lc_records g)) \<and>
    (\<forall>(k, r) \<in> set (lc_records g). k = resource_identity_key (rr_identity r) \<and>
       (rr_residency r = Active \<longleftrightarrow> rr_desired r = Some WantActive)) \<and>
    (lc_disposed g \<longrightarrow> lc_records g = [])"
proof -
  have "lifecycle_ok p (run (lifecycle_step p) g0 evs)"
    by (rule lifecycle_machine.run_inv [OF new_lifecycle_ok [OF assms]])
  then show ?thesis
    by (auto simp: Let_def lifecycle_ok_def almost_ok_def count_residency_card)
      (auto simp: records_ok_def resource_ok_def)
qed

definition sample_resource :: "string \<Rightarrow> resource_identity" where
  "sample_resource s = \<lparr>id_family = ''m'', id_fingerprint = None, id_generation = None,
     id_version = None, id_decision = None, id_semantic = s\<rparr>"

definition sample_lifecycle_policy :: lifecycle_policy where
  "sample_lifecycle_policy = \<lparr>lp_version = ''v1'', lp_declarations = 2, lp_active = 1, lp_warm = 0,
     lp_cold = 1, lp_cleanups = 4, lp_events = 3\<rparr>"

definition sample_events :: "(nat, nat) lifecycle_event list" where
  "sample_events =
     [LRegister (sample_resource ''a'') ''m'' (Some 1), LRegister (sample_resource ''b'') ''m'' (Some 2),
      LReconcile (\<lambda>_. None) [\<lparr>dl_identity = sample_resource ''a'', dl_desired = WantActive\<rparr>],
      LTick (\<lambda>_. CoolReturned (StepComplete 7 DescriptorValid)), LReconcile (\<lambda>_. None) [],
      LTick (\<lambda>_. CoolReturned (StepComplete 8 DescriptorValid))]"

definition empty_lifecycle :: "(nat, nat) lifecycle" where
  "empty_lifecycle = \<lparr>lc_records = [], lc_transitions = [], lc_cooled = 0, lc_evicted = 0, lc_failed = 0,
     lc_declared = 0, lc_epoch = 0, lc_disposed = False\<rparr>"

lemma sample_lifecycle_new: "new_lifecycle sample_lifecycle_policy = Inr empty_lifecycle"
  by (simp add: new_lifecycle_def sample_lifecycle_policy_def empty_lifecycle_def policy_limits_def valid_limit_def)

theorem residency_stays_bounded_witness:
  "(let g = run (lifecycle_step sample_lifecycle_policy) empty_lifecycle sample_events in
    int (count_residency Active g) \<le> 1 \<and> int (count_residency Cold g) \<le> 1) \<and>
   lc_evicted (run (lifecycle_step sample_lifecycle_policy) empty_lifecycle sample_events) = 1"
proof -
  have e: "lc_evicted (run (lifecycle_step sample_lifecycle_policy) empty_lifecycle sample_events) = 1"
    by code_simp
  show ?thesis
    using residency_stays_bounded [OF sample_lifecycle_new, of sample_events] e
    by (auto simp: Let_def sample_lifecycle_policy_def)
qed

text \<open>
  C19: reconcile is atomic. It is admitted exactly when the working set is within the limits without a
  duplicate, every declared resource is registered and not COLD, and no resource that has to give up
  ACTIVE fails to detach; a refused working set changes nothing, an admitted one makes exactly the
  resources declared ACTIVE active and records every resource's declaration.
\<close>

theorem reconcile_all_or_nothing:
  assumes "lifecycle_ok p g" and "reconcile p detach ds g = (v, g')"
  shows "(v = Admitted \<longleftrightarrow> working_set_ok p ds \<and>
      (\<forall>d \<in> set ds. \<exists>r. js_get (lc_records g) (declared_key d) = Some r \<and> rr_residency r \<noteq> Cold) \<and>
      (\<forall>k \<in> set (detachments (desired_by_key ds) (lc_records g)). detach k = None)) \<and>
    (v \<noteq> Admitted \<longrightarrow> g' = g) \<and>
    (v = Admitted \<longrightarrow> js_keys (lc_records g') = js_keys (lc_records g) \<and>
      (\<forall>k r. js_get (lc_records g') k = Some r \<longrightarrow>
        (rr_residency r = Active \<longleftrightarrow> (\<exists>d \<in> set ds. declared_key d = k \<and> dl_desired d = WantActive)) \<and>
        (rr_desired r = None \<longleftrightarrow> (\<forall>d \<in> set ds. declared_key d \<noteq> k))))"
proof (cases rule: reconcile_cases [of p detach ds g])
  case (refused e)
  then show ?thesis using assms(2) by auto
next
  case (accepted m e ts)
  have ok': "records_ok m"
    using reconcile_ok [OF assms(1), of detach ds] accepted(1) by (simp add: lifecycle_ok_def almost_ok_def)
  have d: "distinct (map declared_key ds)" using accepted(2) by (simp add: working_set_ok_def)
  have "(rr_residency r = Active \<longleftrightarrow> (\<exists>d \<in> set ds. declared_key d = k \<and> dl_desired d = WantActive)) \<and>
      (rr_desired r = None \<longleftrightarrow> (\<forall>d \<in> set ds. declared_key d \<noteq> k))" if "js_get m k = Some r" for k r
  proof -
    have "rr_desired r = js_get (desired_by_key ds) k"
      using accepted(6) [of k] that by (cases "js_get (lc_records g) k") (simp_all add: reconciled_def)
    moreover have "js_get (desired_by_key ds) k = None \<longleftrightarrow> (\<forall>d \<in> set ds. declared_key d \<noteq> k)"
      using desired_by_key_keys [of ds] by (auto simp: map_of_eq_None_iff)
    ultimately show ?thesis
      using records_ok_get [OF ok' that] desired_by_key_Some [OF d, of k WantActive]
      by (simp add: resource_ok_def)
  qed
  moreover have "v = Admitted" "lc_records g' = m" using assms(2) accepted(1) by auto
  ultimately show ?thesis using accepted(2-5) by simp
qed

theorem reconcile_all_or_nothing_witness:
  "let g = run (lifecycle_step sample_lifecycle_policy) empty_lifecycle (take 2 sample_events);
       (v, g') = reconcile sample_lifecycle_policy (\<lambda>_. None)
         [\<lparr>dl_identity = sample_resource ''a'', dl_desired = WantActive\<rparr>] g
   in v = Admitted \<and> (\<forall>r. js_get (lc_records g') (resource_identity_key (sample_resource ''a'')) = Some r \<longrightarrow>
        rr_residency r = Active)"
proof -
  let ?p = sample_lifecycle_policy and ?d = "\<lparr>dl_identity = sample_resource ''a'', dl_desired = WantActive\<rparr>"
  define g where "g = run (lifecycle_step ?p) empty_lifecycle (take 2 sample_events)"
  have ok: "lifecycle_ok ?p g"
    unfolding g_def by (rule lifecycle_machine.run_inv [OF new_lifecycle_ok [OF sample_lifecycle_new]])
  obtain v g' where r: "reconcile ?p (\<lambda>_. None) [?d] g = (v, g')" by (metis prod.exhaust)
  have "fst (reconcile ?p (\<lambda>_. None) [?d] g) = Admitted" unfolding g_def by code_simp
  then show ?thesis
    using reconcile_all_or_nothing [OF ok r] r unfolding g_def [symmetric]
    by (auto simp: Let_def declared_key_def)
qed

text \<open>
  A completed cool step that arrives after the record was touched again, was declared, or is no
  longer warm, changes nothing but the mark of the step in flight: runtime, descriptor, residency,
  revision, counters and log stay.
\<close>

theorem stale_completion_is_inert:
  assumes "js_get (lc_records g) k = Some r"
    and "rr_revision r \<noteq> rv \<or> rr_residency r \<noteq> Warm \<or> rr_desired r \<noteq> None"
  shows "complete_cool_step p k rv res g = complete_cool_failure p k rv e g \<and>
    complete_cool_step p k rv res g = g\<lparr>lc_records := js_put k (settled rv r) (lc_records g)\<rparr>"
  using assms
  by (auto simp: complete_cool_step_def complete_cool_failure_def Let_def can_apply_def put_record_def)

theorem stale_completion_is_inert_witness:
  "let g = run (lifecycle_step sample_lifecycle_policy) empty_lifecycle
         [LRegister (sample_resource ''a'') ''m'' (Some 1), LTick (\<lambda>_. CoolPromised),
          LReconcile (\<lambda>_. None) [\<lparr>dl_identity = sample_resource ''a'', dl_desired = WantActive\<rparr>]];
       g' = complete_cool_step sample_lifecycle_policy (resource_identity_key (sample_resource ''a'')) 0
         (StepComplete 9 DescriptorValid) g
   in count_residency Active g' = 1 \<and> lc_cooled g' = 0"
proof -
  let ?k = "resource_identity_key (sample_resource ''a'')"
  define g where "g = run (lifecycle_step sample_lifecycle_policy) empty_lifecycle
         [LRegister (sample_resource ''a'') ''m'' (Some 1), LTick (\<lambda>_. CoolPromised),
          LReconcile (\<lambda>_. None) [\<lparr>dl_identity = sample_resource ''a'', dl_desired = WantActive\<rparr>]]"
  let ?r = "\<lparr>rr_identity = sample_resource ''a'', rr_runtime = Some 1, rr_descriptor = None,
      rr_residency = Active, rr_desired = Some WantActive, rr_revision = 1, rr_inflight = Some 0,
      rr_touched = 2, rr_cold_since = None\<rparr>"
  have g: "lc_records g = [(?k, ?r)]" "lc_cooled g = 0" unfolding g_def by code_simp+
  have "js_get (lc_records g) ?k = Some ?r" "rr_revision ?r \<noteq> 0 \<or> rr_residency ?r \<noteq> Warm \<or> rr_desired ?r \<noteq> None"
    by (simp_all add: g)
  from stale_completion_is_inert [OF this, of sample_lifecycle_policy "StepComplete 9 DescriptorValid"]
  show ?thesis unfolding g_def [symmetric] Let_def by (simp add: g count_residency_def settled_def)
qed

text \<open>
  C21: cleanup makes progress. When the adapters of the queued records complete their cool step at
  once, a tick removes exactly the first \<open>maxCleanupOperationsPerTick\<close> queued records from WARM and
  touches no other warm one, so the excess shrinks until the queue is empty.
\<close>

theorem tick_cools_queued:
  assumes "lifecycle_ok p g" and "\<not> lc_disposed g"
    and "\<forall>q \<in> set (queued_warm p g). cools_at_once answer (fst q) \<and> rr_runtime (snd q) \<noteq> None"
  shows "residents Warm (lifecycle_tick p answer g) =
      residents Warm g - fst ` set (take (nat (lp_cleanups p)) (queued_warm p g)) \<and>
    card (residents Warm (lifecycle_tick p answer g)) +
      min (nat (lp_cleanups p)) (length (queued_warm p g)) = card (residents Warm g)"
proof -
  let ?qs = "take (nat (lp_cleanups p)) (queued_warm p g)"
  have rec: "records_ok (lc_records g)" using assms(1) by (simp add: lifecycle_ok_def almost_ok_def)
  have dis: "distinct (map fst ?qs)"
    using queued_warm_distinct [OF rec, of p] by (simp add: take_map [symmetric])
  have "cools_at_once answer k \<and> (\<exists>r. js_get (lc_records g) k = Some r \<and> rr_residency r = Warm \<and>
      rr_desired r = None \<and> rr_runtime r \<noteq> None)" if k: "k \<in> set (map fst ?qs)" for k
  proof -
    obtain q where q: "q \<in> set (queued_warm p g)" "k = fst q" using k by (auto dest: in_set_takeD)
    with assms(3) have "cools_at_once answer k" "rr_runtime (snd q) \<noteq> None" by blast+
    with queued_warm_parts [OF rec q(1)] q(2) show ?thesis by blast
  qed
  then have w: "residents Warm (lifecycle_tick p answer g) = residents Warm g - fst ` set ?qs"
    using cool_all_at_once [OF dis _ rec, of answer p] assms(2) by (simp add: lifecycle_tick_def)
  have sub: "fst ` set ?qs \<subseteq> residents Warm g"
    using queued_warm_parts [OF rec, of _ p] by (fastforce simp: residents_def where_keys_def dest: in_set_takeD)
  have "card (fst ` set ?qs) = min (nat (lp_cleanups p)) (length (queued_warm p g))"
    using distinct_card [OF dis] by (simp add: min.commute)
  moreover have "card (fst ` set ?qs) \<le> card (residents Warm g)"
    using sub by (rule card_mono [rotated]) (simp add: residents_def)
  ultimately show ?thesis using w sub by (simp add: card_Diff_subset)
qed

theorem tick_cools_queued_witness:
  "let g = run (lifecycle_step sample_lifecycle_policy) empty_lifecycle (take 2 sample_events);
       answer = (\<lambda>_. CoolReturned (StepComplete 7 DescriptorValid))
   in card (residents Warm (lifecycle_tick sample_lifecycle_policy answer g)) + 2 = card (residents Warm g)"
proof -
  let ?answer = "\<lambda>_::string. CoolReturned (StepComplete (7::nat) DescriptorValid)"
  define g where "g = run (lifecycle_step sample_lifecycle_policy) empty_lifecycle (take 2 sample_events)"
  have ok: "lifecycle_ok sample_lifecycle_policy g"
    unfolding g_def by (rule lifecycle_machine.run_inv [OF new_lifecycle_ok [OF sample_lifecycle_new]])
  have g: "lc_disposed g = False" "list_all (\<lambda>q. rr_runtime (snd q) \<noteq> None) (queued_warm sample_lifecycle_policy g)"
    "length (queued_warm sample_lifecycle_policy g) = 2" "nat (lp_cleanups sample_lifecycle_policy) = 4"
    unfolding g_def by code_simp+
  have "\<forall>q \<in> set (queued_warm sample_lifecycle_policy g). cools_at_once ?answer (fst q) \<and> rr_runtime (snd q) \<noteq> None"
    using g(2) by (auto simp: list_all_iff cools_at_once_def)
  moreover have "\<not> lc_disposed g" by (simp add: g(1))
  ultimately have "card (residents Warm (lifecycle_tick sample_lifecycle_policy ?answer g)) + min 4 2 =
      card (residents Warm g)"
    using tick_cools_queued [OF ok, of ?answer] unfolding g(3,4) by blast
  then show ?thesis unfolding g_def [symmetric] Let_def by simp
qed

text \<open>The identity key is injective, so no two resources share a record.\<close>

theorem resource_key_identifies: "resource_identity_key i = resource_identity_key j \<longleftrightarrow> i = j"
proof
  assume eq: "resource_identity_key i = resource_identity_key j"
  let ?f = "map (\<lambda>(n, f). encode_identity_field n f)"
  have "?f (identity_parts i) = ?f (identity_parts j)"
    by (rule join_bar_inj [where z = "[]"])
      (use eq in \<open>auto simp: resource_identity_key_def identity_parts_def encode_identity_field_def\<close>)
  then show "i = j" by (simp add: identity_parts_def encode_identity_field_def)
qed simp

end
