(* ===== verification/Js_Value.thy ===== *)
theory Js_Value
  imports Js_Number
begin

text \<open>
  Untyped values: what a function receives whose parameter has the type \<open>unknown\<close>, after
  \<open>JSON.parse\<close> or from a caller that was never type checked. An object is the list of its own
  properties in the order of \<open>Object.keys\<close>; reading an absent property gives \<open>undefined\<close>.
\<close>

datatype js_value =
    JUndefined
  | JNull
  | JBool bool
  | JNum js_number
  | JStr string
  | JArr "js_value list"
  | JObj "(string \<times> js_value) list"

fun js_prop :: "js_value \<Rightarrow> string \<Rightarrow> js_value" where
  "js_prop (JObj ps) k = (case map_of ps k of None \<Rightarrow> JUndefined | Some v \<Rightarrow> v)"
| "js_prop _ k = JUndefined"

fun js_own_keys :: "js_value \<Rightarrow> string list" where
  "js_own_keys (JObj ps) = map fst ps"
| "js_own_keys _ = []"

fun js_is_object :: "js_value \<Rightarrow> bool" where
  "js_is_object (JObj ps) = True"
| "js_is_object _ = False"

fun js_is_array :: "js_value \<Rightarrow> bool" where
  "js_is_array (JArr xs) = True"
| "js_is_array _ = False"

definition js_int :: "int \<Rightarrow> js_value" where
  "js_int i = JNum (Fin (of_int i))"

lemma js_int_inj [simp]: "js_int i = js_int j \<longleftrightarrow> i = j"
  by (simp add: js_int_def)

text \<open>\<open>{ ...v, k: x }\<close>: the properties of an object with one of them set.\<close>

fun js_with :: "js_value \<Rightarrow> string \<Rightarrow> js_value \<Rightarrow> js_value" where
  "js_with (JObj ps) k x = JObj (js_put k x ps)"
| "js_with _ k x = JObj [(k, x)]"

lemma js_prop_with: "js_prop (js_with v k x) k' = (if k' = k then x else if js_is_object v then js_prop v k' else JUndefined)"
  by (cases v) (simp_all add: js_get_put)

text \<open>The first own key outside a closed set.\<close>

definition unknown_key :: "string list \<Rightarrow> js_value \<Rightarrow> string option" where
  "unknown_key allowed v = find (\<lambda>k. k \<notin> set allowed) (js_own_keys v)"

lemma unknown_key_None: "unknown_key allowed v = None \<longleftrightarrow> set (js_own_keys v) \<subseteq> set allowed"
  by (auto simp: unknown_key_def find_None_iff)

end
