(* ===== verification/Dataset_Model.thy ===== *)
theory Dataset_Model
  imports Js_Value "HOL-Library.Word"
begin

text \<open>
  The in-memory dataset of \<open>src/data/Dataset.ts\<close>: construction with the removal of dangerous keys and
  the validation of row ids, live updates with a rolling limit and the shift of the edges, cloning and
  the JSON form. Rows and edges are untyped values. Value semantics: what the source copies is a new
  value here, and the process-local registry of row objects (\<open>RowIdentity.ts\<close>) is left out.
\<close>

section \<open>Dangerous keys\<close>

definition dangerous_keys :: "string list" where
  "dangerous_keys = [''__proto__'', ''constructor'', ''prototype'']"

lemma size_prop_less [termination_simp]:
  "p \<in> set ps \<Longrightarrow> size (snd p) < Suc (size_list (size_prod (\<lambda>_. 0) size) ps)"
  by (induction ps) auto

fun dangerous_deep :: "js_value \<Rightarrow> bool" where
  "dangerous_deep (JArr xs) = list_ex dangerous_deep xs"
| "dangerous_deep (JObj ps) = list_ex (\<lambda>p. fst p \<in> set dangerous_keys \<or> dangerous_deep (snd p)) ps"
| "dangerous_deep _ = False"

fun sanitize_value :: "js_value \<Rightarrow> js_value" where
  "sanitize_value (JArr xs) = JArr (map sanitize_value xs)"
| "sanitize_value (JObj ps) =
     JObj (map (\<lambda>p. (fst p, sanitize_value (snd p))) (filter (\<lambda>p. fst p \<notin> set dangerous_keys) ps))"
| "sanitize_value v = v"

text \<open>The own properties of an object; the properties of an array are its indices.\<close>

fun row_props :: "js_value \<Rightarrow> (string \<times> js_value) list option" where
  "row_props (JObj ps) = Some ps"
| "row_props (JArr xs) = Some (zip (map show_nat [0..<length xs]) xs)"
| "row_props _ = None"

definition clone_row :: "js_value \<Rightarrow> js_value" where
  "clone_row v = (case row_props v of None \<Rightarrow> JObj []
   | Some ps \<Rightarrow> JObj (map (\<lambda>p. (fst p, if dangerous_deep (snd p) then sanitize_value (snd p) else snd p))
       (filter (\<lambda>p. fst p \<notin> set dangerous_keys) ps)))"

definition sanitize_row :: "js_value \<Rightarrow> js_value" where
  "sanitize_row v = (if row_props v = None then JObj []
     else if \<not> dangerous_deep v then v else clone_row v)"

definition clone_edge :: "js_value \<Rightarrow> js_value" where
  "clone_edge e = (case row_props e of None \<Rightarrow> JObj [] | Some ps \<Rightarrow> JObj (map (\<lambda>p. (fst p, sanitize_value (snd p))) ps))"

section \<open>Datasets\<close>

record column =
  cl_name :: string
  cl_type :: string

record dataset =
  ds_name :: string
  ds_columns :: "column list"
  ds_rows :: "js_value list"
  ds_edges :: "js_value list option"
  ds_row_ids :: "string list option"
  ds_evicted :: "nat option"
  ds_meta :: "js_value option"

text \<open>The JSON form; rows and columns are missing in legacy snapshots.\<close>

record dataset_json =
  dj_name :: string
  dj_columns :: "column list option"
  dj_rows :: "js_value list option"
  dj_edges :: "js_value list option"
  dj_row_ids :: "string list option"

definition aligned_ids :: "string list option \<Rightarrow> nat \<Rightarrow> bool" where
  "aligned_ids ids n = (case ids of None \<Rightarrow> False
     | Some is \<Rightarrow> length is = n \<and> list_all (\<lambda>i. i \<noteq> []) is \<and> distinct is)"

definition set_row_ids :: "string list option \<Rightarrow> dataset \<Rightarrow> bool \<times> dataset" where
  "set_row_ids ids d =
     (if aligned_ids ids (length (ds_rows d)) then (True, d\<lparr>ds_row_ids := ids\<rparr>)
      else (False, d\<lparr>ds_row_ids := None\<rparr>))"

definition new_dataset ::
  "string \<Rightarrow> column list \<Rightarrow> js_value list \<Rightarrow> js_value list option \<Rightarrow> string list option \<Rightarrow> dataset" where
  "new_dataset name cols rows edges ids =
     snd (set_row_ids ids
       \<lparr>ds_name = name, ds_columns = filter (\<lambda>c. cl_name c \<notin> set dangerous_keys) cols,
        ds_rows = map sanitize_row rows, ds_edges = map_option (map clone_edge) edges,
        ds_row_ids = None, ds_evicted = None, ds_meta = None\<rparr>)"

definition adopt_row_ids :: "string list \<Rightarrow> dataset \<Rightarrow> bool \<times> dataset" where
  "adopt_row_ids ids d = set_row_ids (Some ids) d"

definition row_count :: "dataset \<Rightarrow> nat" where
  "row_count d = length (ds_rows d)"

definition get_column :: "dataset \<Rightarrow> string \<Rightarrow> column option" where
  "get_column d n = find (\<lambda>c. cl_name c = n) (ds_columns d)"

definition columns_of_type :: "dataset \<Rightarrow> string \<Rightarrow> column list" where
  "columns_of_type d t = filter (\<lambda>c. cl_type c = t) (ds_columns d)"

definition column_values :: "dataset \<Rightarrow> string \<Rightarrow> js_value list" where
  "column_values d n = map (\<lambda>r. js_prop r n) (ds_rows d)"

fun finite_cell :: "js_value \<Rightarrow> rat option" where
  "finite_cell (JNum (Fin x)) = Some x"
| "finite_cell _ = None"

definition range_of :: "dataset \<Rightarrow> string \<Rightarrow> rat \<times> rat" where
  "range_of d n = (case List.map_filter finite_cell (column_values d n) of
     [] \<Rightarrow> (0, 0)
   | x # xs \<Rightarrow> (foldl min x xs, foldl max x xs))"

definition seed_step :: "int \<Rightarrow> char \<Rightarrow> int" where
  "seed_step h c = sint (word_of_int (sint (push_bit 5 (word_of_int h :: 32 word)) - h + of_char c) :: 32 word)"

definition seed_hash :: "dataset \<Rightarrow> int" where
  "seed_hash d = \<bar>foldl seed_step 0 (ds_name d @ '':'' @ show_nat (row_count d) @ '':'' @ show_nat (length (ds_columns d)))\<bar>"

section \<open>Live updates\<close>

definition num_minus :: "js_number \<Rightarrow> int \<Rightarrow> js_number" where
  "num_minus x k = (case x of Fin q \<Rightarrow> Fin (fsub q (of_int k)) | _ \<Rightarrow> x)"

text \<open>One edge when the first \<open>start\<close> of \<open>count\<close> rows are evicted: positional end points are shifted or the edge is dropped.\<close>

definition remap_edge :: "int \<Rightarrow> int \<Rightarrow> js_value \<Rightarrow> js_value option" where
  "remap_edge start count e = (case (js_prop e ''source'', js_prop e ''target'') of
     (JNum a, JNum b) \<Rightarrow>
       if num_lt a (Fin (of_int start)) \<or> num_lt b (Fin (of_int start)) \<or>
          num_le (Fin (of_int count)) a \<or> num_le (Fin (of_int count)) b then None
       else Some (js_with (js_with (clone_edge e) ''source'' (JNum (num_minus a start))) ''target'' (JNum (num_minus b start)))
   | _ \<Rightarrow> Some (clone_edge e))"

definition remap_edges :: "js_value list option \<Rightarrow> int \<Rightarrow> int \<Rightarrow> js_value list option \<times> nat" where
  "remap_edges edges start count = (case edges of None \<Rightarrow> (None, 0)
   | Some es \<Rightarrow> (Some (List.map_filter (remap_edge start count) es),
       length (filter (\<lambda>e. remap_edge start count e = None) es)))"

datatype update_mode = AppendRows | ReplaceRows

definition evict_prefix :: "int option \<Rightarrow> dataset \<Rightarrow> dataset" where
  "evict_prefix limit d = (case limit of None \<Rightarrow> d
   | Some l \<Rightarrow>
       if int (length (ds_rows d)) \<le> l then d
       else
         let count = int (length (ds_rows d)); start = count - l;
             (edges, dropped) = remap_edges (ds_edges d) start count in
         d\<lparr>ds_edges := edges,
           ds_evicted := Some ((case ds_evicted d of None \<Rightarrow> 0 | Some n \<Rightarrow> n) + dropped),
           ds_rows := drop (nat start) (ds_rows d)\<rparr>)"

definition update_rows :: "js_value list \<Rightarrow> update_mode \<Rightarrow> int option \<Rightarrow> dataset \<Rightarrow> dataset" where
  "update_rows rows mode limit d =
     (evict_prefix limit
       (case mode of ReplaceRows \<Rightarrow> d\<lparr>ds_rows := map sanitize_row rows, ds_edges := None\<rparr>
        | AppendRows \<Rightarrow> d\<lparr>ds_rows := ds_rows d @ map sanitize_row rows\<rparr>))\<lparr>ds_row_ids := None\<rparr>"

section \<open>Clone and JSON\<close>

definition clone_dataset :: "dataset \<Rightarrow> dataset" where
  "clone_dataset d =
     (let copy = new_dataset (ds_name d) (ds_columns d) (map clone_row (ds_rows d)) (ds_edges d) (ds_row_ids d);
          copy = (if ds_evicted d = None \<or> ds_evicted d = Some 0 then copy else copy\<lparr>ds_evicted := ds_evicted d\<rparr>)
      in (case ds_meta d of None \<Rightarrow> copy | Some m \<Rightarrow> copy\<lparr>ds_meta := Some (sanitize_value m)\<rparr>))"

definition row_json :: "js_value \<Rightarrow> js_value" where
  "row_json r = JObj (map (\<lambda>p. (fst p, if snd p = JUndefined then JNull else snd p))
     (case row_props r of None \<Rightarrow> [] | Some ps \<Rightarrow> ps))"

definition to_json :: "dataset \<Rightarrow> dataset_json" where
  "to_json d = \<lparr>dj_name = ds_name d, dj_columns = Some (ds_columns d), dj_rows = Some (map row_json (ds_rows d)),
     dj_edges = map_option (map clone_edge) (ds_edges d), dj_row_ids = ds_row_ids d\<rparr>"

text \<open>\<open>toUpperCase\<close> on the ASCII names that column types are.\<close>

definition upper_ascii :: "string \<Rightarrow> string" where
  "upper_ascii = map (\<lambda>c. let n = of_char c :: nat in if 97 \<le> n \<and> n \<le> 122 then char_of (n - 32) else c)"

definition from_json :: "dataset_json \<Rightarrow> dataset" where
  "from_json j =
     new_dataset (if dj_name j = [] then ''dataset'' else dj_name j)
       (case dj_columns j of None \<Rightarrow> [] | Some cs \<Rightarrow> map (\<lambda>c. c\<lparr>cl_type := upper_ascii (cl_type c)\<rparr>) cs)
       (map clone_row (case dj_rows j of None \<Rightarrow> [] | Some rs \<Rightarrow> rs))
       (map_option (map clone_edge) (dj_edges j)) (dj_row_ids j)"

section \<open>What construction guarantees\<close>

lemma sanitized_clean [simp]: "\<not> dangerous_deep (sanitize_value v)"
  by (induction v rule: sanitize_value.induct) (auto simp: list_ex_iff)

lemma clean_sanitized: "\<not> dangerous_deep v \<Longrightarrow> sanitize_value v = v"
proof (induction v rule: sanitize_value.induct)
  case (1 xs)
  then have "map sanitize_value xs = xs" by (intro map_idI) (auto simp: list_ex_iff)
  then show ?case by simp
next
  case (2 ps)
  then have "\<forall>p\<in>set ps. fst p \<notin> set dangerous_keys \<and> sanitize_value (snd p) = snd p" by (auto simp: list_ex_iff)
  then have "filter (\<lambda>p. fst p \<notin> set dangerous_keys) ps = ps" and "map (\<lambda>p. (fst p, sanitize_value (snd p))) ps = ps"
    by (auto simp: filter_id_conv intro!: map_idI)
  then show ?case by simp
qed simp_all

definition row_clean :: "js_value \<Rightarrow> bool" where
  "row_clean r \<longleftrightarrow> row_props r \<noteq> None \<and> \<not> dangerous_deep r"

definition edge_clean :: "js_value \<Rightarrow> bool" where
  "edge_clean e \<longleftrightarrow> (\<exists>ps. e = JObj ps \<and> (\<forall>p\<in>set ps. \<not> dangerous_deep (snd p)))"

lemma clone_row_clean: "row_clean (clone_row v)" "\<exists>ps. clone_row v = JObj ps"
  by (auto simp: clone_row_def row_clean_def list_ex_iff split: option.split)

lemma sanitize_row_clean: "row_clean (sanitize_row v)"
  using clone_row_clean(1) [of v] by (auto simp: sanitize_row_def row_clean_def)

lemma sanitize_row_id: "row_clean v \<Longrightarrow> sanitize_row v = v"
  by (auto simp: sanitize_row_def row_clean_def)

lemma clone_row_id: "row_clean (JObj ps) \<Longrightarrow> clone_row (JObj ps) = JObj ps"
proof -
  assume "row_clean (JObj ps)"
  then have c: "\<forall>p\<in>set ps. fst p \<notin> set dangerous_keys \<and> \<not> dangerous_deep (snd p)" by (auto simp: row_clean_def list_ex_iff)
  then have "filter (\<lambda>p. fst p \<notin> set dangerous_keys) ps = ps" by (simp add: filter_id_conv)
  moreover have "map (\<lambda>p. (fst p, if dangerous_deep (snd p) then sanitize_value (snd p) else snd p)) ps = ps"
    using c by (intro map_idI) auto
  ultimately show ?thesis by (simp add: clone_row_def)
qed

lemma clone_edge_clean: "edge_clean (clone_edge e)"
  by (auto simp: clone_edge_def edge_clean_def split: option.split)

lemma clone_edge_id: "edge_clean e \<Longrightarrow> clone_edge e = e"
  by (fastforce simp: clone_edge_def edge_clean_def clean_sanitized intro!: map_idI)

definition dataset_clean :: "dataset \<Rightarrow> bool" where
  "dataset_clean d \<longleftrightarrow> list_all (\<lambda>c. cl_name c \<notin> set dangerous_keys) (ds_columns d) \<and> list_all row_clean (ds_rows d) \<and>
     pred_option (list_all edge_clean) (ds_edges d) \<and>
     (ds_row_ids d = None \<or> aligned_ids (ds_row_ids d) (length (ds_rows d)))"

lemma new_dataset_simps:
  "ds_name (new_dataset name cols rows edges ids) = name"
  "ds_columns (new_dataset name cols rows edges ids) = filter (\<lambda>c. cl_name c \<notin> set dangerous_keys) cols"
  "ds_rows (new_dataset name cols rows edges ids) = map sanitize_row rows"
  "ds_edges (new_dataset name cols rows edges ids) = map_option (map clone_edge) edges"
  "ds_row_ids (new_dataset name cols rows edges ids) = (if aligned_ids ids (length rows) then ids else None)"
  by (simp_all add: new_dataset_def set_row_ids_def)

lemma new_dataset_clean: "dataset_clean (new_dataset name cols rows edges ids)"
  by (cases edges) (auto simp: dataset_clean_def new_dataset_simps list_all_iff sanitize_row_clean clone_edge_clean)

lemma clone_parts:
  "ds_columns (clone_dataset d) = ds_columns (new_dataset (ds_name d) (ds_columns d) (map clone_row (ds_rows d)) (ds_edges d) (ds_row_ids d))"
  "ds_rows (clone_dataset d) = ds_rows (new_dataset (ds_name d) (ds_columns d) (map clone_row (ds_rows d)) (ds_edges d) (ds_row_ids d))"
  "ds_edges (clone_dataset d) = ds_edges (new_dataset (ds_name d) (ds_columns d) (map clone_row (ds_rows d)) (ds_edges d) (ds_row_ids d))"
  "ds_row_ids (clone_dataset d) = ds_row_ids (new_dataset (ds_name d) (ds_columns d) (map clone_row (ds_rows d)) (ds_edges d) (ds_row_ids d))"
  by (simp_all add: clone_dataset_def Let_def split: option.split)

lemma clone_dataset_clean: "dataset_clean (clone_dataset d)"
  using new_dataset_clean unfolding dataset_clean_def clone_parts by blast

lemma edge_clean_with: "edge_clean e \<Longrightarrow> edge_clean (js_with e k (JNum x))"
  by (fastforce simp: edge_clean_def dest: in_js_put)

lemma remap_edge_clean: "remap_edge start count e = Some e' \<Longrightarrow> edge_clean e'"
  by (auto simp: remap_edge_def clone_edge_clean edge_clean_with split: js_value.splits if_splits)

lemma remap_edges_clean: "pred_option (list_all edge_clean) (fst (remap_edges edges start count))"
  by (cases edges) (auto simp: remap_edges_def list_all_iff List.map_filter_def remap_edge_clean)

lemma evict_prefix_clean:
  assumes "dataset_clean d"
  shows "dataset_clean ((evict_prefix limit d)\<lparr>ds_row_ids := None\<rparr>)"
proof (cases limit)
  case None
  then show ?thesis using assms by (simp add: evict_prefix_def dataset_clean_def)
next
  case (Some l)
  obtain es n where r: "remap_edges (ds_edges d) (int (length (ds_rows d)) - l) (int (length (ds_rows d))) = (es, n)"
    by (cases "remap_edges (ds_edges d) (int (length (ds_rows d)) - l) (int (length (ds_rows d)))")
  then have "pred_option (list_all edge_clean) es" using remap_edges_clean by (metis fst_conv)
  then show ?thesis
    using assms Some r by (auto simp: evict_prefix_def dataset_clean_def Let_def list_all_iff dest: in_set_dropD)
qed

lemma update_rows_clean:
  assumes "dataset_clean d"
  shows "dataset_clean (update_rows rows mode limit d)"
proof -
  define d' where "d' = (case mode of ReplaceRows \<Rightarrow> d\<lparr>ds_rows := map sanitize_row rows, ds_edges := None\<rparr>
        | AppendRows \<Rightarrow> d\<lparr>ds_rows := ds_rows d @ map sanitize_row rows\<rparr>)"
  have "dataset_clean (d'\<lparr>ds_row_ids := None\<rparr>)"
    using assms by (auto simp: d'_def dataset_clean_def list_all_iff sanitize_row_clean split: update_mode.split)
  from evict_prefix_clean [OF this, of limit]
  have "dataset_clean ((evict_prefix limit d')\<lparr>ds_row_ids := None\<rparr>)"
    by (auto simp: evict_prefix_def Let_def dataset_clean_def split: option.splits prod.splits if_splits)
  then show ?thesis by (simp add: update_rows_def d'_def)
qed

lemma adopt_row_ids_clean: "dataset_clean d \<Longrightarrow> dataset_clean (snd (adopt_row_ids ids d))"
  by (auto simp: adopt_row_ids_def set_row_ids_def dataset_clean_def)

datatype dataset_call = CallUpdate "js_value list" update_mode "int option" | CallAdopt "string list" | CallClone

fun dataset_step :: "dataset \<Rightarrow> dataset_call \<Rightarrow> dataset" where
  "dataset_step d (CallUpdate rows mode limit) = update_rows rows mode limit d"
| "dataset_step d (CallAdopt ids) = snd (adopt_row_ids ids d)"
| "dataset_step d CallClone = clone_dataset d"

interpretation datasets: invariant_system dataset_step dataset_clean
proof
  show "dataset_clean (dataset_step d c)" if "dataset_clean d" for d c
    using that by (cases c) (simp_all add: update_rows_clean adopt_row_ids_clean clone_dataset_clean)
qed

lemma row_json_object: "\<exists>ps. row_json r = JObj ps \<and> (\<forall>p\<in>set ps. snd p \<noteq> JUndefined)"
  by (auto simp: row_json_def)

lemma row_json_row_json: "row_json (row_json r) = row_json r"
  using row_json_object [of r] by (auto simp: row_json_def intro!: map_idI split: prod.split)

lemma show_nat_safe: "show_nat n \<notin> set dangerous_keys"
proof
  assume "show_nat n \<in> set dangerous_keys"
  then have "\<exists>c\<in>set (show_nat n). \<not> js_digit c" by (auto simp: dangerous_keys_def js_digit_def)
  then show False using show_nat_digits by blast
qed

lemma row_json_clean:
  assumes "row_clean r"
  shows "row_clean (row_json r)"
proof -
  have "fst p \<notin> set dangerous_keys \<and> \<not> dangerous_deep (snd p)" if "row_props r = Some ps" "p \<in> set ps" for p ps
    using assms that by (cases r) (auto simp: row_clean_def list_ex_iff show_nat_safe set_zip)
  then show ?thesis
    using assms by (auto simp: row_clean_def row_json_def list_ex_iff split: option.splits)
qed

text \<open>What a restore makes of a JSON form: a default name, and column types in capitals.\<close>

definition normal_json :: "dataset_json \<Rightarrow> dataset_json" where
  "normal_json j = j\<lparr>dj_name := (if dj_name j = [] then ''dataset'' else dj_name j),
     dj_columns := map_option (map (\<lambda>c. c\<lparr>cl_type := upper_ascii (cl_type c)\<rparr>)) (dj_columns j)\<rparr>"

lemma upper_ascii_upper: "upper_ascii (upper_ascii s) = upper_ascii s"
proof -
  have "(of_char c - 32 :: nat) < 256" for c :: char using nat_of_char_less_256 [of c] by linarith
  then show ?thesis by (auto simp: upper_ascii_def Let_def comp_def)
qed

lemma normal_json_normal: "normal_json (normal_json j) = normal_json j"
  by (cases "dj_columns j") (simp_all add: normal_json_def upper_ascii_upper)

lemma clean_json_normal:
  assumes "dataset_clean d"
  shows "to_json (from_json (to_json d)) = normal_json (to_json d)"
proof -
  have cols: "filter (\<lambda>c. cl_name c \<notin> set dangerous_keys) (map (\<lambda>c. c\<lparr>cl_type := upper_ascii (cl_type c)\<rparr>) (ds_columns d)) =
      map (\<lambda>c. c\<lparr>cl_type := upper_ascii (cl_type c)\<rparr>) (ds_columns d)"
    using assms by (auto simp: dataset_clean_def list_all_iff filter_id_conv)
  have "row_json (sanitize_row (clone_row (row_json r))) = row_json r" if "r \<in> set (ds_rows d)" for r
  proof -
    have "row_clean (row_json r)" using assms that by (auto simp: dataset_clean_def list_all_iff intro: row_json_clean)
    moreover obtain ps where "row_json r = JObj ps" using row_json_object by blast
    ultimately have "sanitize_row (clone_row (row_json r)) = row_json r" by (simp add: clone_row_id sanitize_row_id)
    then show ?thesis by (simp add: row_json_row_json)
  qed
  then have rows: "map (\<lambda>r. row_json (sanitize_row (clone_row (row_json r)))) (ds_rows d) = map row_json (ds_rows d)" by simp
  have edges: "clone_edge (clone_edge (clone_edge (clone_edge e))) = clone_edge e" for e
    by (simp add: clone_edge_id clone_edge_clean)
  have ids: "(if aligned_ids (ds_row_ids d) (length (ds_rows d)) then ds_row_ids d else None) = ds_row_ids d"
    using assms by (auto simp: dataset_clean_def)
  show ?thesis
    using cols rows ids
    by (simp add: to_json_def from_json_def normal_json_def new_dataset_simps option.map_comp comp_def edges)
qed

text \<open>
  C37: restoring a dataset loses nothing but two normalisations. For every dataset its operations can
  build, what is persisted after a restore is what was persisted before (rows, columns, edges and row
  ids), except that an empty name has become \<open>dataset\<close> and the column types are in capitals; after
  that, a further restore changes nothing at all.
\<close>

theorem json_form_stable:
  "let d = run dataset_step (new_dataset name cols rows edges ids) cs; j = to_json d; j' = to_json (from_json j) in
     j' = j\<lparr>dj_name := (if ds_name d = [] then ''dataset'' else ds_name d),
            dj_columns := Some (map (\<lambda>c. c\<lparr>cl_type := upper_ascii (cl_type c)\<rparr>) (ds_columns d))\<rparr> \<and>
     to_json (from_json j') = j'"
proof -
  have clean: "dataset_clean (run dataset_step (new_dataset name cols rows edges ids) cs)"
    using datasets.run_inv new_dataset_clean by blast
  have again: "dataset_clean (from_json j)" for j by (simp add: from_json_def new_dataset_clean)
  show ?thesis
    unfolding Let_def clean_json_normal [OF again] clean_json_normal [OF clean] normal_json_normal
    by (simp add: normal_json_def to_json_def)
qed

text \<open>
  C36: whatever is appended, replaced, evicted, adopted or cloned, a dataset has no dangerous key in its
  columns, anywhere inside its rows or in the values of its edges, and its row ids, when it has any,
  are non-empty, distinct and one per row.
\<close>

theorem dataset_stays_clean:
  "dataset_clean (run dataset_step (new_dataset name cols rows edges ids) cs) \<and> dataset_clean (run dataset_step (from_json j) cs)"
  using datasets.run_inv new_dataset_clean by (simp add: from_json_def)

definition sample_dataset :: dataset where
  "sample_dataset = new_dataset ''d'' [\<lparr>cl_name = ''x'', cl_type = ''NUMERIC''\<rparr>]
     [JObj [(''x'', JNum (Fin 1)), (''__proto__'', JNull)], JObj [(''x'', JUndefined)]]
     (Some [JObj [(''source'', JNum (Fin 0)), (''target'', JNum (Fin 1))]]) (Some [''r0'', ''r1''])"

end
