(* ===== verification/Analysis_History.thy ===== *)
theory Analysis_History
  imports Dataset_Model Effects
begin

text \<open>
  The undo and redo stack of \<open>src/data/AnalysisHistory.ts\<close>: a bounded stack of frames with a cursor.
  A frame holds the datasets before and after an operation, or only their version references, which
  a resolver materialises on demand; the resolver and the clock are arguments. The stack refines a
  zipper: the operations that are done, latest first, and the operations that are undone.
\<close>

section \<open>Data\<close>

record version_ref =
  vr_version :: int
  vr_fingerprint :: string

record frame =
  fr_operation :: string
  fr_parameters :: js_value
  fr_time :: js_number
  fr_before :: "dataset option"
  fr_after :: "dataset option"
  fr_before_ref :: "version_ref option"
  fr_after_ref :: "version_ref option"
  fr_rows_before :: "nat option"
  fr_rows_after :: "nat option"

record history =
  hi_stack :: "frame list"
  hi_index :: int
  hi_max :: int

record history_entry =
  he_operation :: string
  he_dataset :: dataset
  he_parameters :: js_value

record frame_json =
  fj_operation :: string
  fj_parameters :: js_value
  fj_time :: "js_number option"
  fj_before :: "dataset_json option"
  fj_after :: "dataset_json option"

record history_snapshot =
  hs_index :: "int option"
  hs_max :: "int option"
  hs_frames :: "frame_json list"

type_synonym resolver = "version_ref \<Rightarrow> string + dataset option"

definition new_history :: "int \<Rightarrow> history" where
  "new_history m = \<lparr>hi_stack = [], hi_index = -1, hi_max = m\<rparr>"

definition can_undo :: "history \<Rightarrow> bool" where
  "can_undo h \<longleftrightarrow> hi_index h \<ge> 0"

definition can_redo :: "history \<Rightarrow> bool" where
  "can_redo h \<longleftrightarrow> hi_index h < int (length (hi_stack h)) - 1"

section \<open>Recording\<close>

definition discard_redo :: "history \<Rightarrow> history" where
  "discard_redo h = (if can_redo h then h\<lparr>hi_stack := take (nat (hi_index h + 1)) (hi_stack h)\<rparr> else h)"

definition append_frame :: "frame \<Rightarrow> history \<Rightarrow> int \<times> history" where
  "append_frame f h =
     (let h1 = discard_redo h; stack = hi_stack h1 @ [f];
          h2 = (if int (length stack) > hi_max h1 then h1\<lparr>hi_stack := tl stack\<rparr>
                else h1\<lparr>hi_stack := stack, hi_index := hi_index h1 + 1\<rparr>)
      in (hi_index h2, h2))"

definition push_datasets ::
  "string \<Rightarrow> dataset option \<Rightarrow> dataset option \<Rightarrow> js_value \<Rightarrow> js_number \<Rightarrow> history \<Rightarrow> int \<times> history" where
  "push_datasets op before after params now =
     append_frame \<lparr>fr_operation = op, fr_parameters = params, fr_time = now,
       fr_before = map_option clone_dataset before, fr_after = map_option clone_dataset after,
       fr_before_ref = None, fr_after_ref = None,
       fr_rows_before = map_option row_count before, fr_rows_after = map_option row_count after\<rparr>"

definition push_reference ::
  "string \<Rightarrow> version_ref option \<Rightarrow> version_ref option \<Rightarrow> js_value \<Rightarrow> nat option \<Rightarrow> nat option \<Rightarrow> js_number
    \<Rightarrow> history \<Rightarrow> int \<times> history" where
  "push_reference op before after params rows_before rows_after now =
     append_frame \<lparr>fr_operation = op, fr_parameters = params, fr_time = now, fr_before = None, fr_after = None,
       fr_before_ref = before, fr_after_ref = after, fr_rows_before = rows_before, fr_rows_after = rows_after\<rparr>"

section \<open>Navigation\<close>

definition empty_dataset :: dataset where
  "empty_dataset = new_dataset ''empty'' [] [] None None"

definition unavailable :: "string \<Rightarrow> version_ref \<Rightarrow> string \<Rightarrow> string" where
  "unavailable pos r what = ''[AnalysisHistory] '' @ pos @ '' dataset version '' @ show_int (vr_version r) @ '':'' @
     vr_fingerprint r @ '' is unavailable for '' @ what @ ''.''"

definition materialize_frame :: "resolver \<Rightarrow> dataset option \<Rightarrow> version_ref option \<Rightarrow> string \<Rightarrow> string + dataset" where
  "materialize_frame res d ref pos = (case d of
     Some x \<Rightarrow> Inr (clone_dataset x)
   | None \<Rightarrow> (case ref of
       None \<Rightarrow> Inr empty_dataset
     | Some r \<Rightarrow> bindE (res r) (\<lambda>m. case m of Some x \<Rightarrow> Inr x
         | None \<Rightarrow> Inl (unavailable pos r ''materialization''))))"

definition entry_before :: "resolver \<Rightarrow> frame \<Rightarrow> string + history_entry" where
  "entry_before res f = bindE (materialize_frame res (fr_before f) (fr_before_ref f) ''before'') (\<lambda>d.
     Inr \<lparr>he_operation = fr_operation f, he_dataset = d, he_parameters = fr_parameters f\<rparr>)"

definition entry_after :: "resolver \<Rightarrow> frame \<Rightarrow> string + history_entry" where
  "entry_after res f = bindE (materialize_frame res (fr_after f) (fr_after_ref f) ''after'') (\<lambda>d.
     Inr \<lparr>he_operation = fr_operation f, he_dataset = d, he_parameters = fr_parameters f\<rparr>)"

definition frame_at :: "history \<Rightarrow> int \<Rightarrow> frame" where
  "frame_at h i = hi_stack h ! nat i"

text \<open>The cursor moves before the dataset is materialised, and stays moved when that throws.\<close>

definition undo :: "resolver \<Rightarrow> (history, string, history_entry option) effect" where
  "undo res h =
     (if \<not> can_undo h then retS None h
      else bindS (writeS (\<lambda>h. h\<lparr>hi_index := hi_index h - 1\<rparr>)) (\<lambda>_.
           bindS (liftS (entry_before res (frame_at h (hi_index h)))) (\<lambda>e. retS (Some e))) h)"

definition redo :: "resolver \<Rightarrow> (history, string, history_entry option) effect" where
  "redo res h =
     (if \<not> can_redo h then retS None h
      else bindS (writeS (\<lambda>h. h\<lparr>hi_index := hi_index h + 1\<rparr>)) (\<lambda>_.
           bindS (liftS (entry_after res (frame_at h (hi_index h + 1)))) (\<lambda>e. retS (Some e))) h)"

definition clamp_index :: "history \<Rightarrow> int \<Rightarrow> int" where
  "clamp_index h i = max 0 (min (int (length (hi_stack h)) - 1) i)"

definition seek :: "resolver \<Rightarrow> int \<Rightarrow> (history, string, history_entry option) effect" where
  "seek res i h =
     (if hi_stack h = [] then retS None h
      else bindS (writeS (\<lambda>h. h\<lparr>hi_index := clamp_index h i\<rparr>)) (\<lambda>_.
           bindS (liftS (entry_after res (frame_at h (clamp_index h i)))) (\<lambda>e. retS (Some e))) h)"

definition current_frame :: "resolver \<Rightarrow> history \<Rightarrow> string + frame option" where
  "current_frame res h =
     (if hi_index h < 0 \<or> hi_index h \<ge> int (length (hi_stack h)) then Inr None
      else let f = frame_at h (hi_index h) in
           bindE (materialize_frame res (fr_after f) (fr_after_ref f) ''after'') (\<lambda>d. Inr (Some (f\<lparr>fr_after := Some d\<rparr>))))"

definition move_undo :: "history \<Rightarrow> version_ref option \<times> history" where
  "move_undo h = (if \<not> can_undo h then (None, h)
     else (fr_before_ref (frame_at h (hi_index h)), h\<lparr>hi_index := hi_index h - 1\<rparr>))"

definition move_redo :: "history \<Rightarrow> version_ref option \<times> history" where
  "move_redo h = (if \<not> can_redo h then (None, h)
     else (fr_after_ref (frame_at h (hi_index h + 1)), h\<lparr>hi_index := hi_index h + 1\<rparr>))"

definition move_seek :: "int \<Rightarrow> history \<Rightarrow> version_ref option \<times> history" where
  "move_seek i h = (if hi_stack h = [] then (None, h)
     else (fr_after_ref (frame_at h (clamp_index h i)), h\<lparr>hi_index := clamp_index h i\<rparr>))"

definition clear_history :: "history \<Rightarrow> history" where
  "clear_history h = h\<lparr>hi_stack := [], hi_index := -1\<rparr>"

section \<open>JSON\<close>

definition serialized :: "resolver \<Rightarrow> dataset option \<Rightarrow> version_ref option \<Rightarrow> string \<Rightarrow> string + dataset_json option" where
  "serialized res d ref pos = (case d of
     Some x \<Rightarrow> Inr (Some (to_json x))
   | None \<Rightarrow> (case ref of
       None \<Rightarrow> Inr None
     | Some r \<Rightarrow> bindE (res r) (\<lambda>m. case m of Some x \<Rightarrow> Inr (Some (to_json x))
         | None \<Rightarrow> Inl (unavailable pos r ''serialization''))))"

definition frame_to_json :: "resolver \<Rightarrow> frame \<Rightarrow> string + frame_json" where
  "frame_to_json res f =
     bindE (serialized res (fr_before f) (fr_before_ref f) ''before'') (\<lambda>b.
     bindE (serialized res (fr_after f) (fr_after_ref f) ''after'') (\<lambda>a.
     Inr \<lparr>fj_operation = fr_operation f, fj_parameters = fr_parameters f, fj_time = Some (fr_time f),
          fj_before = b, fj_after = a\<rparr>))"

definition history_to_json :: "resolver \<Rightarrow> history \<Rightarrow> string + history_snapshot" where
  "history_to_json res h = bindE (mapE (frame_to_json res) (hi_stack h)) (\<lambda>fs.
     Inr \<lparr>hs_index = Some (hi_index h), hs_max = Some (hi_max h), hs_frames = fs\<rparr>)"

text \<open>A legacy snapshot without rows makes the read of \<open>rows.length\<close> throw.\<close>

definition json_row_count :: "dataset_json option \<Rightarrow> string + nat option" where
  "json_row_count j = (case j of None \<Rightarrow> Inr None
   | Some x \<Rightarrow> (case dj_rows x of None \<Rightarrow> Inl ''TypeError'' | Some rs \<Rightarrow> Inr (Some (length rs))))"

definition frame_from_json :: "frame_json \<Rightarrow> string + frame" where
  "frame_from_json f =
     bindE (json_row_count (fj_before f)) (\<lambda>b.
     bindE (json_row_count (fj_after f)) (\<lambda>a.
     Inr \<lparr>fr_operation = fj_operation f,
          fr_parameters = (if fj_parameters f = JUndefined \<or> fj_parameters f = JNull then JObj [] else fj_parameters f),
          fr_time = (case fj_time f of None \<Rightarrow> Fin 0 | Some t \<Rightarrow> t),
          fr_before = map_option from_json (fj_before f), fr_after = map_option from_json (fj_after f),
          fr_before_ref = None, fr_after_ref = None, fr_rows_before = b, fr_rows_after = a\<rparr>))"

definition history_from_json :: "history_snapshot \<Rightarrow> string + history" where
  "history_from_json s = bindE (mapE frame_from_json (hs_frames s)) (\<lambda>fs.
     Inr \<lparr>hi_stack = fs,
          hi_index = max (-1) (min (int (length (hs_frames s)) - 1) (case hs_index s of None \<Rightarrow> -1 | Some i \<Rightarrow> i)),
          hi_max = (case hs_max s of None \<Rightarrow> 50 | Some m \<Rightarrow> m)\<rparr>)"

section \<open>The zipper it refines\<close>

text \<open>What is done, latest first, and what is undone, next first.\<close>

type_synonym 'f zipper = "'f list \<times> 'f list"

definition zip_record :: "nat \<Rightarrow> 'f \<Rightarrow> 'f zipper \<Rightarrow> 'f zipper" where
  "zip_record m f z = (take m (f # fst z), [])"

fun zip_undo :: "'f zipper \<Rightarrow> 'f option \<times> 'f zipper" where
  "zip_undo ([], us) = (None, [], us)"
| "zip_undo (f # ds, us) = (Some f, ds, f # us)"

fun zip_redo :: "'f zipper \<Rightarrow> 'f option \<times> 'f zipper" where
  "zip_redo (ds, []) = (None, ds, [])"
| "zip_redo (ds, f # us) = (Some f, f # ds, us)"

definition zip_seek :: "int \<Rightarrow> 'f zipper \<Rightarrow> 'f option \<times> 'f zipper" where
  "zip_seek i z = (let fs = rev (fst z) @ snd z; k = nat (max 0 (min (int (length fs) - 1) i)) in
     if fs = [] then (None, z) else (Some (fs ! k), rev (take (Suc k) fs), drop (Suc k) fs))"

definition history_zipper :: "history \<Rightarrow> frame zipper" where
  "history_zipper h = (let k = nat (hi_index h + 1) in (rev (take k (hi_stack h)), drop k (hi_stack h)))"

definition history_ok :: "history \<Rightarrow> bool" where
  "history_ok h \<longleftrightarrow> -1 \<le> hi_index h \<and> hi_index h < int (length (hi_stack h)) \<and> length (hi_stack h) \<le> nat (hi_max h)"

lemma history_cases:
  assumes "history_ok h"
  obtains xs ys m where "h = \<lparr>hi_stack = xs @ ys, hi_index = int (length xs) - 1, hi_max = m\<rparr>"
    "length xs + length ys \<le> nat m" "history_zipper h = (rev xs, ys)"
proof
  let ?k = "nat (hi_index h + 1)"
  show "h = \<lparr>hi_stack = take ?k (hi_stack h) @ drop ?k (hi_stack h), hi_index = int (length (take ?k (hi_stack h))) - 1, hi_max = hi_max h\<rparr>"
    using assms by (cases h) (auto simp: history_ok_def min_def)
  show "length (take ?k (hi_stack h)) + length (drop ?k (hi_stack h)) \<le> nat (hi_max h)"
    using assms by (auto simp: history_ok_def min_def)
  show "history_zipper h = (rev (take ?k (hi_stack h)), drop ?k (hi_stack h))" by (simp add: history_zipper_def Let_def)
qed

lemma zipper_split: "history_zipper \<lparr>hi_stack = xs @ ys, hi_index = int (length xs) - 1, hi_max = m\<rparr> = (rev xs, ys)"
  by (simp add: history_zipper_def)

lemma split_ok: "history_ok \<lparr>hi_stack = xs @ ys, hi_index = int (length xs) - 1, hi_max = m\<rparr> \<longleftrightarrow> length xs + length ys \<le> nat m"
  by (auto simp: history_ok_def)

lemma discard_redo_split:
  "discard_redo \<lparr>hi_stack = xs @ ys, hi_index = int (length xs) - 1, hi_max = m\<rparr> =
   \<lparr>hi_stack = xs, hi_index = int (length xs) - 1, hi_max = m\<rparr>"
  by (cases ys) (simp_all add: discard_redo_def can_redo_def)

lemma append_frame_refines:
  assumes "history_ok h"
  shows "history_ok (snd (append_frame f h))" and "hi_max (snd (append_frame f h)) = hi_max h"
    and "history_zipper (snd (append_frame f h)) = zip_record (nat (hi_max h)) f (history_zipper h)"
proof -
  obtain xs ys m where h: "h = \<lparr>hi_stack = xs @ ys, hi_index = int (length xs) - 1, hi_max = m\<rparr>"
    "length xs + length ys \<le> nat m" "history_zipper h = (rev xs, ys)" using assms by (rule history_cases)
  show "hi_max (snd (append_frame f h)) = hi_max h" by (simp add: append_frame_def discard_redo_def Let_def)
  have "history_ok (snd (append_frame f h)) \<and>
    history_zipper (snd (append_frame f h)) = zip_record (nat (hi_max h)) f (history_zipper h)"
  proof (cases "int (length xs) + 1 > m")
    case True
    then have full: "nat m = length xs" using h(2) by linarith
    have "snd (append_frame f h) = \<lparr>hi_stack = tl (xs @ [f]), hi_index = int (length xs) - 1, hi_max = m\<rparr>"
      using True by (simp add: append_frame_def h(1) discard_redo_split Let_def)
    also have "\<dots> = \<lparr>hi_stack = tl (xs @ [f]) @ [], hi_index = int (length (tl (xs @ [f]))) - 1, hi_max = m\<rparr>"
      by (cases xs) simp_all
    finally have e: "snd (append_frame f h) = \<dots>" .
    have "rev (tl (xs @ [f])) = take (length xs) (f # rev xs)" by (cases xs) simp_all
    then show ?thesis unfolding e split_ok zipper_split h(3) zip_record_def using full h(1) by (cases xs) simp_all
  next
    case False
    have "snd (append_frame f h) = \<lparr>hi_stack = (xs @ [f]) @ [], hi_index = int (length (xs @ [f])) - 1, hi_max = m\<rparr>"
      using False by (simp add: append_frame_def h(1) discard_redo_split Let_def)
    moreover have "history_ok \<dots>" unfolding split_ok using False by simp
    moreover have "history_zipper \<lparr>hi_stack = (xs @ [f]) @ [], hi_index = int (length (xs @ [f])) - 1, hi_max = m\<rparr> = (rev (xs @ [f]), [])"
      by (rule zipper_split)
    ultimately show ?thesis using False h by (simp add: zip_record_def)
  qed
  then show "history_ok (snd (append_frame f h))"
    "history_zipper (snd (append_frame f h)) = zip_record (nat (hi_max h)) f (history_zipper h)" by simp_all
qed

text \<open>A step of the stack answers like the zipper and leads to the zipper's next state.\<close>

definition answers :: "(frame \<Rightarrow> string + history_entry) \<Rightarrow> history \<Rightarrow> (string + history_entry option) \<times> history
    \<Rightarrow> frame option \<times> frame zipper \<Rightarrow> bool" where
  "answers entry h r z \<longleftrightarrow> history_ok (snd r) \<and> hi_max (snd r) = hi_max h \<and> history_zipper (snd r) = snd z \<and>
     fst r = (case fst z of None \<Rightarrow> Inr None | Some f \<Rightarrow> map_sum id Some (entry f))"

lemma undo_refines:
  assumes "history_ok h"
  shows "answers (entry_before res) h (undo res h) (zip_undo (history_zipper h))"
proof -
  obtain xs ys m where h: "h = \<lparr>hi_stack = xs @ ys, hi_index = int (length xs) - 1, hi_max = m\<rparr>"
    "length xs + length ys \<le> nat m" "history_zipper h = (rev xs, ys)" using assms by (rule history_cases)
  show ?thesis
  proof (cases xs rule: rev_cases)
    case Nil
    then have "undo res h = (Inr None, h)" by (simp add: undo_def can_undo_def h(1) retS_def)
    then show ?thesis using assms by (simp add: answers_def h(3) Nil)
  next
    case (snoc zs f)
    let ?h = "\<lparr>hi_stack = zs @ (f # ys), hi_index = int (length zs) - 1, hi_max = m\<rparr>"
    have "undo res h = (map_sum id Some (entry_before res f), ?h)"
      by (simp add: undo_def can_undo_def h(1) snoc bindS_def writeS_def liftS_def retS_def frame_at_def nth_append split: sum.split)
    then show ?thesis using h by (simp add: answers_def split_ok zipper_split snoc)
  qed
qed

lemma redo_refines:
  assumes "history_ok h"
  shows "answers (entry_after res) h (redo res h) (zip_redo (history_zipper h))"
proof -
  obtain xs ys m where h: "h = \<lparr>hi_stack = xs @ ys, hi_index = int (length xs) - 1, hi_max = m\<rparr>"
    "length xs + length ys \<le> nat m" "history_zipper h = (rev xs, ys)" using assms by (rule history_cases)
  show ?thesis
  proof (cases ys)
    case Nil
    then have "redo res h = (Inr None, h)" by (simp add: redo_def can_redo_def h(1) retS_def)
    then show ?thesis using assms by (simp add: answers_def h(3) Nil)
  next
    case (Cons f zs)
    let ?h = "\<lparr>hi_stack = (xs @ [f]) @ zs, hi_index = int (length (xs @ [f])) - 1, hi_max = m\<rparr>"
    have "redo res h = (map_sum id Some (entry_after res f), ?h)"
      by (simp add: redo_def can_redo_def h(1) Cons bindS_def writeS_def liftS_def retS_def frame_at_def nth_append split: sum.split)
    moreover have "history_zipper ?h = (rev (xs @ [f]), zs)" by (rule zipper_split)
    moreover have "history_ok ?h" unfolding split_ok using h(2) Cons by simp
    ultimately show ?thesis using h by (simp add: answers_def Cons)
  qed
qed

lemma seek_refines:
  assumes "history_ok h"
  shows "answers (entry_after res) h (seek res i h) (zip_seek i (history_zipper h))"
proof -
  obtain xs ys m where h: "h = \<lparr>hi_stack = xs @ ys, hi_index = int (length xs) - 1, hi_max = m\<rparr>"
    "length xs + length ys \<le> nat m" "history_zipper h = (rev xs, ys)" using assms by (rule history_cases)
  define fs where "fs = xs @ ys"
  have h1: "h = \<lparr>hi_stack = fs, hi_index = int (length xs) - 1, hi_max = m\<rparr>" and z: "rev (fst (history_zipper h)) @ snd (history_zipper h) = fs"
    and m: "length fs \<le> nat m" using h by (simp_all add: fs_def)
  show ?thesis
  proof (cases "fs = []")
    case True
    then have "seek res i h = (Inr None, h)" by (simp add: seek_def h1 retS_def)
    then show ?thesis using assms True z by (simp add: answers_def zip_seek_def)
  next
    case False
    define k where "k = nat (clamp_index h i)"
    have "0 < length fs" using False by simp
    then have k: "k < length fs" "int k = clamp_index h i"
      by (simp_all add: k_def clamp_index_def h1 del: length_greater_0_conv)
    let ?h = "\<lparr>hi_stack = take (Suc k) fs @ drop (Suc k) fs, hi_index = int (length (take (Suc k) fs)) - 1, hi_max = m\<rparr>"
    have "h\<lparr>hi_index := clamp_index h i\<rparr> = ?h" using k by (simp add: h1 min_def)
    then have "seek res i h = (map_sum id Some (entry_after res (fs ! k)), ?h)"
      using False by (simp add: seek_def h1 k_def bindS_def writeS_def liftS_def retS_def frame_at_def split: sum.split)
    moreover have "history_zipper ?h = (rev (take (Suc k) fs), drop (Suc k) fs)" by (rule zipper_split)
    moreover have "history_ok ?h" unfolding split_ok using m by simp
    moreover have "nat (max 0 (min (int (length fs) - 1) i)) = k" by (simp add: k_def clamp_index_def h1)
    ultimately show ?thesis using False z by (simp add: answers_def zip_seek_def Let_def h1)
  qed
qed

section \<open>Properties\<close>

datatype history_call = CallPush frame | CallUndo resolver | CallRedo resolver | CallSeek resolver int | CallClear

fun history_step :: "history \<Rightarrow> history_call \<Rightarrow> history" where
  "history_step h (CallPush f) = snd (append_frame f h)"
| "history_step h (CallUndo res) = snd (undo res h)"
| "history_step h (CallRedo res) = snd (redo res h)"
| "history_step h (CallSeek res i) = snd (seek res i h)"
| "history_step h CallClear = clear_history h"

fun zipper_step :: "nat \<Rightarrow> frame zipper \<Rightarrow> history_call \<Rightarrow> frame zipper" where
  "zipper_step m z (CallPush f) = zip_record m f z"
| "zipper_step m z (CallUndo res) = snd (zip_undo z)"
| "zipper_step m z (CallRedo res) = snd (zip_redo z)"
| "zipper_step m z (CallSeek res i) = snd (zip_seek i z)"
| "zipper_step m z CallClear = ([], [])"

lemma clear_refines:
  "history_ok (clear_history h) \<and> hi_max (clear_history h) = hi_max h \<and> history_zipper (clear_history h) = ([], [])"
  by (simp add: clear_history_def history_ok_def history_zipper_def)

lemma history_step_refines:
  assumes "history_ok h"
  shows "history_ok (history_step h c) \<and> hi_max (history_step h c) = hi_max h \<and>
    history_zipper (history_step h c) = zipper_step (nat (hi_max h)) (history_zipper h) c"
  using append_frame_refines [OF assms] undo_refines [OF assms] redo_refines [OF assms] seek_refines [OF assms]
    clear_refines [of h]
  by (cases c) (simp_all add: answers_def)

lemma run_refines:
  assumes "history_ok h"
  shows "history_ok (run history_step h cs) \<and>
    history_zipper (run history_step h cs) = run (zipper_step (nat (hi_max h))) (history_zipper h) cs"
  using assms
proof (induction cs arbitrary: h)
  case (Cons c cs)
  from history_step_refines [OF Cons.prems, of c] Cons.IH [of "history_step h c"] show ?case by simp
qed simp

lemma new_history_ok: "history_ok (new_history m)" "history_zipper (new_history m) = ([], [])"
  by (simp_all add: new_history_def history_ok_def history_zipper_def)

text \<open>
  C5: the analysis history implements undo and redo. After any calls on a fresh history, the stack with
  its cursor represents exactly what the two-list specification reaches by the same calls, with the
  oldest frames forgotten beyond the maximum, and undo, redo and seek then answer with the dataset of
  the frame the specification names, or with nothing when it names none.
\<close>

theorem history_refines_zipper:
  "let h = run history_step (new_history m) cs; z = run (zipper_step (nat m)) ([], []) cs in
     history_zipper h = z \<and> answers (entry_before res) h (undo res h) (zip_undo z) \<and>
     answers (entry_after res) h (redo res h) (zip_redo z) \<and> answers (entry_after res) h (seek res i h) (zip_seek i z)"
proof -
  have m: "hi_max (new_history m) = m" by (simp add: new_history_def)
  from run_refines [OF new_history_ok(1), of m cs]
  have "history_ok (run history_step (new_history m) cs)"
    "history_zipper (run history_step (new_history m) cs) = run (zipper_step (nat m)) ([], []) cs"
    by (simp_all add: new_history_ok m)
  then show ?thesis unfolding Let_def by (metis undo_refines redo_refines seek_refines)
qed

lemma entry_before_throws:
  "isl (entry_before res f) \<longleftrightarrow> fr_before f = None \<and> (\<exists>r. fr_before_ref f = Some r \<and> (\<forall>x. res r \<noteq> Inr (Some x)))"
  by (auto simp: entry_before_def materialize_frame_def bindE_def split: option.splits sum.splits)

text \<open>
  C38: when undo throws, and what that leaves behind. On any history the calls can build, with \<open>f\<close> the
  last operation in effect and \<open>past\<close> the ones before it, undo throws exactly when \<open>f\<close> holds no dataset
  of its own but a reference for which the resolver yields none. Thrown or not, \<open>f\<close> then counts as
  undone: a second undo, with whatever resolver, answers for the operation before \<open>f\<close> and never for \<open>f\<close>,
  and a redo answers for \<open>f\<close>.
\<close>

theorem undo_throws_exactly:
  assumes "history_zipper (run history_step (new_history m) cs) = (f # past, future)"
  shows "let h = run history_step (new_history m) cs; h' = snd (undo res h) in
    (isl (fst (undo res h)) \<longleftrightarrow> fr_before f = None \<and> (\<exists>r. fr_before_ref f = Some r \<and> (\<forall>x. res r \<noteq> Inr (Some x)))) \<and>
    fst (undo res' h') = (case past of [] \<Rightarrow> Inr None | g # _ \<Rightarrow> map_sum id Some (entry_before res' g)) \<and>
    fst (redo res' h') = map_sum id Some (entry_after res' f)"
proof -
  define h where "h = run history_step (new_history m) cs"
  have ok: "history_ok h" using run_refines [OF new_history_ok(1)] by (simp add: h_def)
  have z: "history_zipper h = (f # past, future)" using assms by (simp add: h_def)
  note first = undo_refines [OF ok, of res, unfolded z]
  have later: "history_ok (snd (undo res h))" "history_zipper (snd (undo res h)) = (past, f # future)"
    using first by (simp_all add: answers_def)
  have "isl (fst (undo res h)) \<longleftrightarrow> isl (entry_before res f)"
    using first by (cases "entry_before res f") (simp_all add: answers_def)
  then show ?thesis
    using undo_refines [OF later(1), of res'] redo_refines [OF later(1), of res'] later(2)
    by (auto simp: answers_def entry_before_throws Let_def simp flip: h_def split: list.split)
qed

text \<open>
  A serialised history is restored with the same cursor and the same frames. When the datasets it
  holds are stable under their own JSON form, serialising the restored history gives the same snapshot
  without any resolver.
\<close>

theorem history_json_roundtrip:
  assumes "history_ok h" and "history_to_json res h = Inr s"
    and "\<forall>f\<in>set (hi_stack h). fr_parameters f \<noteq> JUndefined \<and> fr_parameters f \<noteq> JNull"
    and "\<forall>f\<in>set (hs_frames s). pred_option (\<lambda>j. to_json (from_json j) = j) (fj_before f) \<and>
      pred_option (\<lambda>j. to_json (from_json j) = j) (fj_after f)"
  shows "\<exists>h'. history_from_json s = Inr h' \<and> hi_index h' = hi_index h \<and> length (hi_stack h') = length (hi_stack h) \<and>
    history_to_json res' h' = Inr s"
proof -
  obtain fs where fs: "mapE (frame_to_json res) (hi_stack h) = Inr fs"
    and s: "s = \<lparr>hs_index = Some (hi_index h), hs_max = Some (hi_max h), hs_frames = fs\<rparr>"
    using assms(2) by (auto simp: history_to_json_def bindE_Inr_iff)
  have rows: "dj_rows j \<noteq> None" if "to_json (from_json j) = j" for j
    using that by (metis to_json_def dataset_json.select_convs(3) option.distinct(1))
  have counted: "\<exists>n. json_row_count j = Inr n" if "pred_option (\<lambda>j. to_json (from_json j) = j) j" for j
    using that rows by (cases j) (fastforce simp: json_row_count_def)+
  have restored: "\<exists>g. frame_from_json f' = Inr g \<and> frame_to_json res' g = Inr f'"
    if "f' \<in> set fs" "f \<in> set (hi_stack h)" "frame_to_json res f = Inr f'" for f f'
  proof -
    have p: "pred_option (\<lambda>j. to_json (from_json j) = j) (fj_before f')" "pred_option (\<lambda>j. to_json (from_json j) = j) (fj_after f')"
      using assms(4) that(1) s by auto
    obtain m n where mn: "json_row_count (fj_before f') = Inr m" "json_row_count (fj_after f') = Inr n" using counted p by metis
    have f': "fj_parameters f' = fr_parameters f" "fj_time f' = Some (fr_time f)"
      using that(3) by (auto simp: frame_to_json_def bindE_Inr_iff)
    define g where "g = \<lparr>fr_operation = fj_operation f', fr_parameters = fr_parameters f, fr_time = fr_time f,
      fr_before = map_option from_json (fj_before f'), fr_after = map_option from_json (fj_after f'),
      fr_before_ref = None, fr_after_ref = None, fr_rows_before = m, fr_rows_after = n\<rparr>"
    have ser: "serialized res' (map_option from_json (fj_before f')) None ''before'' = Inr (fj_before f')"
      "serialized res' (map_option from_json (fj_after f')) None ''after'' = Inr (fj_after f')"
      using p by (cases "fj_before f'", simp_all add: serialized_def) (cases "fj_after f'", simp_all add: serialized_def)
    have "frame_from_json f' = Inr g"
      using assms(3) that(2) by (simp add: frame_from_json_def mn f' g_def)
    moreover have "frame_to_json res' g = Inr f'"
      by (simp add: frame_to_json_def g_def ser flip: f')
    ultimately show ?thesis by blast
  qed
  have l: "list_all2 (\<lambda>f f'. frame_to_json res f = Inr f') (hi_stack h) fs" using fs by (rule mapE_Inr_all)
  have "\<forall>f'\<in>set fs. \<exists>g. frame_from_json f' = Inr g \<and> frame_to_json res' g = Inr f'"
  proof
    fix f' assume f': "f' \<in> set fs"
    then obtain i where i: "i < length fs" "f' = fs ! i" by (auto simp: in_set_conv_nth)
    with l have "frame_to_json res (hi_stack h ! i) = Inr f'" "hi_stack h ! i \<in> set (hi_stack h)"
      by (auto simp: list_all2_conv_all_nth)
    with f' show "\<exists>g. frame_from_json f' = Inr g \<and> frame_to_json res' g = Inr f'" using restored by blast
  qed
  then obtain g where g: "\<And>f'. f' \<in> set fs \<Longrightarrow> frame_from_json f' = Inr (g f') \<and> frame_to_json res' (g f') = Inr f'" by metis
  have len: "length fs = length (hi_stack h)" using l by (simp add: list_all2_lengthD)
  have "mapE frame_from_json fs = Inr (map g fs)" "mapE (frame_to_json res') (map g fs) = Inr fs"
    unfolding mapE_Inr_all_iff using g by (simp_all add: list.rel_map list.rel_refl_strong)
  then show ?thesis
    using assms(1) len by (simp add: s history_from_json_def history_to_json_def history_ok_def)
qed

section \<open>Example\<close>

text \<open>One frame with its datasets, and frames that hold references only.\<close>

definition kept_history :: history where
  "kept_history = snd (push_datasets ''FILTER'' (Some sample_dataset) None (JObj []) (Fin 0) (new_history 50))"

definition named_frame :: "string \<Rightarrow> version_ref option \<Rightarrow> frame" where
  "named_frame op ref = \<lparr>fr_operation = op, fr_parameters = JObj [], fr_time = Fin 0, fr_before = None, fr_after = None,
     fr_before_ref = ref, fr_after_ref = ref, fr_rows_before = None, fr_rows_after = None\<rparr>"

theorem undo_throws_exactly_witness:
  "let lost = named_frame ''FILTER'' (Some \<lparr>vr_version = 1, vr_fingerprint = ''fa''\<rparr>);
       h = run history_step (new_history 50) [CallPush (named_frame ''LOAD'' None), CallPush lost];
       h' = snd (undo (\<lambda>_. Inr None) h)
   in isl (fst (undo (\<lambda>_. Inr None) h)) \<and>
      fst (undo (\<lambda>_. Inr None) h') = map_sum id Some (entry_before (\<lambda>_. Inr None) (named_frame ''LOAD'' None))"
proof -
  let ?lost = "named_frame ''FILTER'' (Some \<lparr>vr_version = 1, vr_fingerprint = ''fa''\<rparr>)"
  have "history_zipper (run history_step (new_history 50) [CallPush (named_frame ''LOAD'' None), CallPush ?lost]) =
      ([?lost, named_frame ''LOAD'' None], [])"
    by (simp add: new_history_def append_frame_def discard_redo_def can_redo_def history_zipper_def)
  from undo_throws_exactly [OF this, of "\<lambda>_. Inr None" "\<lambda>_. Inr None"]
  show ?thesis by (simp add: Let_def named_frame_def)
qed

theorem history_json_roundtrip_witness:
  "\<exists>s h'. history_to_json (\<lambda>_. Inr None) kept_history = Inr s \<and> history_from_json s = Inr h' \<and>
     history_to_json (\<lambda>_. Inl ''offline'') h' = Inr s"
proof -
  have ok: "history_ok kept_history" by code_simp
  have "\<not> isl (history_to_json (\<lambda>_. Inr None) kept_history)" by code_simp
  then obtain s where s: "history_to_json (\<lambda>_. Inr None) kept_history = Inr s"
    by (cases "history_to_json (\<lambda>_. Inr None) kept_history") auto
  have p: "\<forall>f\<in>set (hi_stack kept_history). fr_parameters f \<noteq> JUndefined \<and> fr_parameters f \<noteq> JNull" by code_simp
  have "case history_to_json (\<lambda>_. Inr None) kept_history of Inl e \<Rightarrow> False
    | Inr s \<Rightarrow> \<forall>f\<in>set (hs_frames s). (case fj_before f of None \<Rightarrow> True | Some j \<Rightarrow> to_json (from_json j) = j) \<and>
        (case fj_after f of None \<Rightarrow> True | Some j \<Rightarrow> to_json (from_json j) = j)" by code_simp
  moreover have "pred_option P x = (case x of None \<Rightarrow> True | Some j \<Rightarrow> P j)" for P :: "dataset_json \<Rightarrow> bool" and x
    by (cases x) simp_all
  ultimately have "\<forall>f\<in>set (hs_frames s). pred_option (\<lambda>j. to_json (from_json j) = j) (fj_before f) \<and>
        pred_option (\<lambda>j. to_json (from_json j) = j) (fj_after f)" by (simp add: s)
  from history_json_roundtrip [OF ok s p this, of "\<lambda>_. Inl ''offline''"] s show ?thesis by blast
qed

end
