(* ===== verification/Dataset_Versions.thy ===== *)
theory Dataset_Versions
  imports Analysis_History "HOL-Library.Char_ord" "HOL-Library.List_Lexorder"
begin

text \<open>
  The index of dataset versions (\<open>src/data/DatasetVersionStore.ts\<close>): full snapshots, borrowed
  baselines that only carry metadata, and row views that store row ids while the rows themselves are
  kept once per lineage. Entries are values; the source compares two entries by reference where the
  model compares them by value, which is the same as long as an entry filed under a fingerprint is
  the current entry of its own version (part of \<open>versions_ok\<close>).
\<close>

section \<open>Entries\<close>

datatype version_entry =
    Borrowed version_ref string "column list" nat "string list option"
  | Snapshot version_ref dataset_json
  | RowView version_ref version_ref version_ref string "column list" "string list"

fun entry_ref :: "version_entry \<Rightarrow> version_ref" where
  "entry_ref (Borrowed r n cs k ids) = r"
| "entry_ref (Snapshot r j) = r"
| "entry_ref (RowView r s b n cs ids) = r"

datatype storage_kind = BorrowedKind | SnapshotKind | RowViewKind

fun entry_kind :: "version_entry \<Rightarrow> storage_kind" where
  "entry_kind (Borrowed r n cs k ids) = BorrowedKind"
| "entry_kind (Snapshot r j) = SnapshotKind"
| "entry_kind (RowView r s b n cs ids) = RowViewKind"

record descriptor =
  dr_ref :: version_ref
  dr_name :: string
  dr_rows :: nat
  dr_columns :: nat

record versions =
  vs_entries :: "(string, version_entry) js_map"
  vs_fingerprints :: "(string, version_entry) js_map"
  vs_rows :: "(string, (string, js_value) js_map) js_map"

definition no_versions :: versions where
  "no_versions = \<lparr>vs_entries = [], vs_fingerprints = [], vs_rows = []\<rparr>"

definition version_key :: "version_ref \<Rightarrow> string" where
  "version_key r = show_int (vr_version r) @ '':'' @ vr_fingerprint r"

definition assert_ref :: "version_ref \<Rightarrow> string + unit" where
  "assert_ref r =
     bindE (guardE (vr_fingerprint r \<noteq> []) ''[DatasetVersionStore] dataset fingerprint is required'') (\<lambda>_.
     guardE (0 \<le> vr_version r \<and> vr_version r \<le> max_safe_integer)
       ''[DatasetVersionStore] dataset version must be a non-negative safe integer'')"

text \<open>The deep copy assigns properties one by one: an own key \<open>__proto__\<close> sets the prototype and is lost.\<close>

fun clone_value :: "js_value \<Rightarrow> js_value" where
  "clone_value (JArr xs) = JArr (map clone_value xs)"
| "clone_value (JObj ps) = JObj (map (\<lambda>p. (fst p, clone_value (snd p))) (filter (\<lambda>p. fst p \<noteq> ''__proto__'') ps))"
| "clone_value v = v"

definition clone_json :: "dataset_json \<Rightarrow> dataset_json" where
  "clone_json j = j\<lparr>dj_rows := map_option (map clone_value) (dj_rows j), dj_edges := map_option (map clone_value) (dj_edges j)\<rparr>"

definition valid_lineage :: "string list option \<Rightarrow> nat \<Rightarrow> bool" where
  "valid_lineage ids n = (case ids of None \<Rightarrow> False
     | Some is \<Rightarrow> length is = n \<and> list_all (\<lambda>i. i \<noteq> []) is \<and> distinct is)"

text \<open>
  The numbers of the model have one zero, so the distinction \<open>Object.is\<close> makes between \<open>0\<close> and \<open>-0\<close> is not
  seen here.
\<close>

fun values_equal :: "js_value \<Rightarrow> js_value \<Rightarrow> bool" where
  "values_equal (JArr xs) (JArr ys) = list_all2 values_equal xs ys"
| "values_equal (JObj ps) (JObj qs) =
     (sort (map fst ps) = sort (map fst qs) \<and> list_all (\<lambda>p. values_equal (snd p) (js_prop (JObj qs) (fst p))) ps)"
| "values_equal a b = (a = b)"

section \<open>Registration\<close>

definition set_entry :: "version_entry \<Rightarrow> versions \<Rightarrow> versions" where
  "set_entry e s =
     (let key = version_key (entry_ref e); fp = vr_fingerprint (entry_ref e);
          previous = js_get (vs_entries s) key; filed = js_get (vs_fingerprints s) fp;
          s1 = s\<lparr>vs_entries := js_put key e (vs_entries s)\<rparr>
      in if filed = None \<or> filed = previous then s1\<lparr>vs_fingerprints := js_put fp e (vs_fingerprints s)\<rparr> else s1)"

definition register_snapshot :: "version_ref \<Rightarrow> dataset_json \<Rightarrow> versions \<Rightarrow> string + versions" where
  "register_snapshot r j s = bindE (assert_ref r) (\<lambda>_. Inr (set_entry (Snapshot r (clone_json j)) s))"

definition register_borrowed :: "version_ref \<Rightarrow> dataset \<Rightarrow> versions \<Rightarrow> string + versions" where
  "register_borrowed r d s =
     bindE (assert_ref r) (\<lambda>_. Inr (set_entry (Borrowed r (ds_name d) (ds_columns d) (row_count d) (ds_row_ids d)) s))"

definition resolve_entry :: "versions \<Rightarrow> version_ref \<Rightarrow> version_entry option" where
  "resolve_entry s r = (case js_get (vs_entries s) (version_key r) of Some e \<Rightarrow> Some e
     | None \<Rightarrow> js_get (vs_fingerprints s) (vr_fingerprint r))"

fun entry_row_ids :: "version_entry \<Rightarrow> string list option" where
  "entry_row_ids (Borrowed r n cs k ids) = ids"
| "entry_row_ids (Snapshot r j) = dj_row_ids j"
| "entry_row_ids (RowView r s b n cs ids) = Some ids"

fun entry_columns :: "version_entry \<Rightarrow> column list option" where
  "entry_columns (Borrowed r n cs k ids) = Some cs"
| "entry_columns (Snapshot r j) = dj_columns j"
| "entry_columns (RowView r s b n cs ids) = Some cs"

fun entry_base :: "version_entry \<Rightarrow> version_ref" where
  "entry_base (RowView r s b n cs ids) = b"
| "entry_base e = entry_ref e"

fun describe_entry :: "version_entry \<Rightarrow> version_ref \<Rightarrow> descriptor" where
  "describe_entry (Borrowed r n cs k ids) q = \<lparr>dr_ref = q, dr_name = n, dr_rows = k, dr_columns = length cs\<rparr>"
| "describe_entry (Snapshot r j) q = \<lparr>dr_ref = q, dr_name = dj_name j,
     dr_rows = (case dj_rows j of None \<Rightarrow> 0 | Some rs \<Rightarrow> length rs),
     dr_columns = (case dj_columns j of None \<Rightarrow> 0 | Some cs \<Rightarrow> length cs)\<rparr>"
| "describe_entry (RowView r s b n cs ids) q = \<lparr>dr_ref = q, dr_name = n, dr_rows = length ids, dr_columns = length cs\<rparr>"

text \<open>
  Rows are objects, as the type of a row says, so a row found in the cache is never one of the falsy
  values the code's tests \<open>if (existing)\<close> and \<open>if (!row)\<close> would treat as missing.
\<close>

definition pend_row ::
  "(string, js_value) js_map \<Rightarrow> (string, js_value) js_map \<Rightarrow> string \<times> js_value \<Rightarrow> string + (string, js_value) js_map" where
  "pend_row cached pending p = (case js_get cached (fst p) of
     Some old \<Rightarrow> if values_equal old (snd p) then Inr pending
       else Inl (''[DatasetVersionStore] verified row '' @ fst p @ '' changed value within one row-preserving lineage'')
   | None \<Rightarrow> Inr (js_put (fst p) (clone_value (snd p)) pending))"

definition put_all :: "('k, 'v) js_map \<Rightarrow> ('k, 'v) js_map \<Rightarrow> ('k, 'v) js_map" where
  "put_all new m = foldl (\<lambda>m p. js_put (fst p) (snd p) m) m new"

definition store_row_view ::
  "version_ref \<Rightarrow> version_ref \<Rightarrow> version_entry \<Rightarrow> string \<Rightarrow> column list \<Rightarrow> js_value list \<Rightarrow> string list \<Rightarrow> versions \<Rightarrow> string + versions" where
  "store_row_view r source_ref source name cols rows ids s =
     (let base = entry_base source;
          cached = (case js_get (vs_rows s) (version_key base) of None \<Rightarrow> [] | Some m \<Rightarrow> m)
      in bindE (foldE (pend_row cached) [] (zip ids rows)) (\<lambda>pending.
         Inr (set_entry (RowView r source_ref base name cols ids)
           (s\<lparr>vs_rows := js_put (version_key base) (put_all pending cached) (vs_rows s)\<rparr>))))"

definition register_row_view :: "version_ref \<Rightarrow> version_ref \<Rightarrow> dataset_json \<Rightarrow> versions \<Rightarrow> string + versions" where
  "register_row_view r source_ref view s =
     bindE (assert_ref r) (\<lambda>_.
     bindE (assert_ref source_ref) (\<lambda>_.
     bindE (guardE (dj_edges view = None \<or> dj_edges view = Some [])
       ''[DatasetVersionStore] verified row-view output cannot carry edges'') (\<lambda>_.
     case dj_rows view of None \<Rightarrow> Inl ''TypeError'' | Some rows \<Rightarrow>
     (case dj_row_ids view of None \<Rightarrow>
        Inl ''[DatasetVersionStore] verified row-view output row IDs must align, be unique, and be non-empty''
      | Some ids \<Rightarrow>
     bindE (guardE (valid_lineage (Some ids) (length rows))
       ''[DatasetVersionStore] verified row-view output row IDs must align, be unique, and be non-empty'') (\<lambda>_.
     case resolve_entry s source_ref of
       None \<Rightarrow> Inl ''[DatasetVersionStore] verified row-view source version is unavailable''
     | Some source \<Rightarrow>
     bindE (guardE (valid_lineage (entry_row_ids source) (dr_rows (describe_entry source source_ref)))
       ''[DatasetVersionStore] verified row-view source has no valid durable row lineage'') (\<lambda>_.
     bindE (guardE (case entry_row_ids source of None \<Rightarrow> False | Some allowed \<Rightarrow> set ids \<subseteq> set allowed)
       ''[DatasetVersionStore] verified row-view references a row outside its source lineage'') (\<lambda>_.
     case (entry_columns source, dj_columns view) of
       (Some a, Some b) \<Rightarrow>
         bindE (guardE (a = b) ''[DatasetVersionStore] verified row-view schema differs from its source version'') (\<lambda>_.
         store_row_view r source_ref source (dj_name view) b rows ids s)
     | _ \<Rightarrow> Inl ''TypeError''))))))) "

section \<open>Reading\<close>

definition storage_kind_of :: "versions \<Rightarrow> version_ref \<Rightarrow> storage_kind option" where
  "storage_kind_of s r = map_option entry_kind (resolve_entry s r)"

definition has_version :: "versions \<Rightarrow> version_ref \<Rightarrow> bool" where
  "has_version s r = js_has (vs_entries s) (version_key r)"

definition describe_version :: "versions \<Rightarrow> version_ref \<Rightarrow> descriptor option" where
  "describe_version s r = map_option (\<lambda>e. describe_entry e r) (resolve_entry s r)"

definition cached_row :: "(string, js_value) js_map \<Rightarrow> string \<Rightarrow> string + js_value" where
  "cached_row m i = (case js_get m i of
     None \<Rightarrow> Inl (''[DatasetVersionStore] verified row-view cache is missing row '' @ i)
   | Some v \<Rightarrow> Inr (clone_value v))"

definition materialize_json :: "versions \<Rightarrow> version_ref \<Rightarrow> string + dataset_json option" where
  "materialize_json s r = (case resolve_entry s r of
     None \<Rightarrow> Inr None
   | Some (Borrowed _ _ _ _ _) \<Rightarrow> Inr None
   | Some (Snapshot _ j) \<Rightarrow> Inr (Some (clone_json j))
   | Some (RowView _ _ b n cs ids) \<Rightarrow>
       (case js_get (vs_rows s) (version_key b) of
          None \<Rightarrow> Inl ''[DatasetVersionStore] verified row-view row cache is unavailable''
        | Some m \<Rightarrow> bindE (mapE (cached_row m) ids) (\<lambda>rows.
            Inr (Some \<lparr>dj_name = n, dj_columns = Some cs, dj_rows = Some rows, dj_edges = None, dj_row_ids = Some ids\<rparr>))))"

definition materialize_version :: "versions \<Rightarrow> version_ref \<Rightarrow> string + dataset option" where
  "materialize_version s r = bindE (materialize_json s r) (\<lambda>j. Inr (map_option from_json j))"

section \<open>Invariant\<close>

lemma version_key_inj [simp]: "version_key a = version_key b \<longleftrightarrow> a = b"
proof
  assume "version_key a = version_key b"
  moreover have "CHR '':'' \<notin> set (show_int i)" for i
    using not_digit_not_in_show_nat [of "CHR '':''"] by (auto simp: show_int_def js_digit_def)
  ultimately have "show_int (vr_version a) = show_int (vr_version b) \<and> vr_fingerprint a = vr_fingerprint b"
    unfolding version_key_def by (intro append_sep_inj [of _ "CHR '':''"]) simp_all
  then show "a = b" by (cases a, cases b) simp
qed simp

lemma clone_value_idem [simp]: "clone_value (clone_value v) = clone_value v"
  by (induction v rule: clone_value.induct) (auto simp: filter_map comp_def intro!: filter_cong)

lemma clone_json_idem [simp]: "clone_json (clone_json j) = clone_json j"
  by (cases "dj_rows j"; cases "dj_edges j") (simp_all add: clone_json_def)

definition row_kept :: "versions \<Rightarrow> version_ref \<Rightarrow> string \<Rightarrow> js_value \<Rightarrow> bool" where
  "row_kept s b i v \<longleftrightarrow> (\<exists>m. js_get (vs_rows s) (version_key b) = Some m \<and> js_get m i = Some v)"

fun stored_entry_ok :: "versions \<Rightarrow> version_entry \<Rightarrow> bool" where
  "stored_entry_ok s (RowView r src b n cs ids) \<longleftrightarrow> js_get (vs_rows s) (version_key b) \<noteq> None \<and> (\<forall>i\<in>set ids. \<exists>v. row_kept s b i v)"
| "stored_entry_ok s e \<longleftrightarrow> True"

definition versions_ok :: "versions \<Rightarrow> bool" where
  "versions_ok s \<longleftrightarrow>
     (\<forall>k e. js_get (vs_entries s) k = Some e \<longrightarrow> k = version_key (entry_ref e) \<and> stored_entry_ok s e) \<and>
     (\<forall>fp e. js_get (vs_fingerprints s) fp = Some e \<longrightarrow>
        fp = vr_fingerprint (entry_ref e) \<and> js_get (vs_entries s) (version_key (entry_ref e)) = Some e)"

lemma no_versions_ok: "versions_ok no_versions"
  by (simp add: versions_ok_def no_versions_def)

text \<open>Rows only accumulate in the cache.\<close>

definition rows_grow :: "versions \<Rightarrow> versions \<Rightarrow> bool" where
  "rows_grow s s' \<longleftrightarrow> (\<forall>b i v. row_kept s b i v \<longrightarrow> row_kept s' b i v) \<and>
     (\<forall>k. js_get (vs_rows s) k \<noteq> None \<longrightarrow> js_get (vs_rows s') k \<noteq> None)"

lemma rows_grow_refl [simp]: "rows_grow s s"
  by (simp add: rows_grow_def)

lemma rows_grow_trans: "rows_grow a b \<Longrightarrow> rows_grow b c \<Longrightarrow> rows_grow a c"
  by (auto simp: rows_grow_def)

lemma stored_entry_ok_grow: "rows_grow s s' \<Longrightarrow> stored_entry_ok s e \<Longrightarrow> stored_entry_ok s' e"
  by (cases e) (fastforce simp: rows_grow_def)+

lemma set_entry_rows: "vs_rows (set_entry e s) = vs_rows s"
  by (simp add: set_entry_def Let_def)

lemma set_entry_grow: "rows_grow s s' \<Longrightarrow> rows_grow s (set_entry e s')"
  by (simp add: rows_grow_def row_kept_def set_entry_rows)

lemma set_entry_get:
  "js_get (vs_entries (set_entry e s)) k = (if k = version_key (entry_ref e) then Some e else js_get (vs_entries s) k)"
  by (simp add: set_entry_def Let_def js_get_put)

lemma set_stored_entry_ok:
  assumes "versions_ok s" and "stored_entry_ok s e"
  shows "versions_ok (set_entry e s)"
proof -
  have "row_kept (set_entry e s) = row_kept s" by (intro ext) (simp add: row_kept_def set_entry_rows)
  then have same: "stored_entry_ok (set_entry e s) x = stored_entry_ok s x" for x
    by (cases x) (simp_all add: set_entry_rows)
  show ?thesis
    unfolding versions_ok_def same
  proof (intro conjI allI impI)
    fix k x assume "js_get (vs_entries (set_entry e s)) k = Some x"
    then have "x = e \<and> k = version_key (entry_ref e) \<or> js_get (vs_entries s) k = Some x"
      by (simp add: set_entry_get split: if_splits)
    then show "k = version_key (entry_ref x)" "stored_entry_ok s x" using assms by (auto simp: versions_ok_def)
  next
    fix fp x assume a: "js_get (vs_fingerprints (set_entry e s)) fp = Some x"
    have "x = e \<and> fp = vr_fingerprint (entry_ref e) \<or> js_get (vs_fingerprints s) fp = Some x \<and> (entry_ref x = entry_ref e \<longrightarrow> x = e)"
    proof (rule ccontr)
      assume no: "\<not> ?thesis"
      then have old: "js_get (vs_fingerprints s) fp = Some x"
        using a by (auto simp: set_entry_def Let_def js_get_put split: if_splits)
      then have "entry_ref x = entry_ref e" "x \<noteq> e" using no by auto
      then have fp: "fp = vr_fingerprint (entry_ref e)" "js_get (vs_entries s) (version_key (entry_ref e)) = Some x"
        using old assms(1) unfolding versions_ok_def by metis+
      then have "js_get (vs_fingerprints (set_entry e s)) fp = Some e"
        using old by (simp add: set_entry_def Let_def js_get_put)
      then show False using a \<open>x \<noteq> e\<close> by simp
    qed
    then show "fp = vr_fingerprint (entry_ref x)" "js_get (vs_entries (set_entry e s)) (version_key (entry_ref x)) = Some x"
      using assms(1) by (auto simp: versions_ok_def set_entry_get)
  qed
qed

lemma put_all_get:
  "distinct (js_keys new) \<Longrightarrow> js_get (put_all new m) k = (case js_get new k of Some v \<Rightarrow> Some v | None \<Rightarrow> js_get m k)"
proof (induction new arbitrary: m)
  case (Cons p new)
  then have "js_get new (fst p) = None" by (simp add: map_of_eq_None_iff)
  moreover have "put_all (p # new) m = put_all new (js_put (fst p) (snd p) m)" by (simp add: put_all_def)
  ultimately show ?case using Cons by (cases p) (auto simp: js_get_put split: option.split)
qed (simp add: put_all_def)

text \<open>What the pending rows are: fresh ids only, each with a copy of its row.\<close>

definition settled_row :: "(string, js_value) js_map \<Rightarrow> (string, js_value) js_map \<Rightarrow> string \<times> js_value \<Rightarrow> bool" where
  "settled_row cached pending p \<longleftrightarrow> (case js_get cached (fst p) of Some old \<Rightarrow> values_equal old (snd p)
     | None \<Rightarrow> js_get pending (fst p) = Some (clone_value (snd p)))"

definition pending_ok :: "(string, js_value) js_map \<Rightarrow> (string \<times> js_value) list \<Rightarrow> (string, js_value) js_map \<Rightarrow> bool" where
  "pending_ok cached ps pending \<longleftrightarrow> distinct (js_keys pending) \<and>
     (\<forall>i v. js_get pending i = Some v \<longrightarrow> js_get cached i = None) \<and>
     (\<forall>p\<in>set ps. settled_row cached pending p)"

lemma pend_rows_ok:
  assumes "foldE (pend_row cached) pending (zip ids rows) = Inr pending'" and "pending_ok cached qs pending"
    and "distinct ids" and "fst ` set qs \<inter> set ids = {}"
  shows "pending_ok cached (qs @ zip ids rows) pending'"
  using assms
proof (induction "zip ids rows" arbitrary: pending qs ids rows)
  case (Cons p ps)
  then obtain i ids' r rows' where z: "ids = i # ids'" "rows = r # rows'" "p = (i, r)" "ps = zip ids' rows'"
    by (cases ids; cases rows) auto
  from Cons.prems(1) z obtain pending1 where p1: "pend_row cached pending (i, r) = Inr pending1"
    "foldE (pend_row cached) pending1 (zip ids' rows') = Inr pending'" by (auto simp: bindE_Inr_iff)
  have fresh: "fst q \<noteq> i" if "q \<in> set qs" for q using Cons.prems(4) that z by auto
  have "pending_ok cached (qs @ [(i, r)]) pending1"
  proof (cases "js_get cached i")
    case None
    then have e: "pending1 = js_put i (clone_value r) pending" using p1(1) by (simp add: pend_row_def)
    have "settled_row cached pending1 q = settled_row cached pending q" if "q \<in> set qs" for q
      using fresh [OF that] by (simp add: settled_row_def e js_get_put cong: option.case_cong)
    moreover have "settled_row cached pending1 (i, r)" using None by (simp add: settled_row_def e js_get_put)
    moreover have "js_get cached j = None" if "js_get pending1 j = Some v" for j v
      using that None Cons.prems(2) unfolding e js_get_put pending_ok_def by (auto split: if_splits simp del: map_of_eq_Some_iff)
    ultimately show ?thesis using Cons.prems(2) by (simp add: pending_ok_def e distinct_put)
  next
    case (Some old)
    then have "pending1 = pending \<and> values_equal old r" using p1(1) by (auto simp: pend_row_def split: if_splits)
    then show ?thesis using Cons.prems(2) Some by (simp add: pending_ok_def settled_row_def)
  qed
  from Cons.hyps(1) [OF z(4) p1(2) this] Cons.prems(3,4) z
  show ?case by auto
next
  case Nil
  have "zip ids rows = []" using Nil.hyps by (rule sym)
  then show ?case using Nil.prems(1,2) by (simp del: zip_eq_Nil_iff)
qed

lemma resolve_ok: "versions_ok s \<Longrightarrow> resolve_entry s r = Some e \<Longrightarrow> stored_entry_ok s e"
  by (fastforce simp: versions_ok_def resolve_entry_def split: option.splits)

text \<open>What a successful row view leaves behind.\<close>

lemma store_row_view_parts:
  assumes "store_row_view r src e n cs rows ids s = Inr s'" and "distinct ids" and "length ids = length rows"
  shows "\<exists>s1. s' = set_entry (RowView r src (entry_base e) n cs ids) s1 \<and> vs_entries s1 = vs_entries s \<and>
    vs_fingerprints s1 = vs_fingerprints s \<and> rows_grow s s1 \<and> stored_entry_ok s1 (RowView r src (entry_base e) n cs ids) \<and>
    (\<forall>k < length ids. \<exists>v. row_kept s1 (entry_base e) (ids ! k) v \<and> (v = clone_value (rows ! k) \<or> values_equal v (rows ! k)))"
proof -
  define b where "b = entry_base e"
  define cached where "cached = (case js_get (vs_rows s) (version_key b) of None \<Rightarrow> [] | Some m \<Rightarrow> m)"
  from assms(1) obtain pending where p: "foldE (pend_row cached) [] (zip ids rows) = Inr pending"
    and s': "s' = set_entry (RowView r src b n cs ids) (s\<lparr>vs_rows := js_put (version_key b) (put_all pending cached) (vs_rows s)\<rparr>)"
    by (auto simp: store_row_view_def Let_def bindE_Inr_iff b_def cached_def)
  define s1 where "s1 = s\<lparr>vs_rows := js_put (version_key b) (put_all pending cached) (vs_rows s)\<rparr>"
  have ok: "pending_ok cached (zip ids rows) pending"
    using pend_rows_ok [OF p, of "[]"] assms(2) by (simp add: pending_ok_def)
  then have get: "js_get (put_all pending cached) i = (case js_get pending i of Some v \<Rightarrow> Some v | None \<Rightarrow> js_get cached i)" for i
    by (intro put_all_get) (simp add: pending_ok_def)
  have here: "js_get (vs_rows s1) (version_key b) = Some (put_all pending cached)" by (simp add: s1_def js_get_put)
  have row: "\<exists>v. row_kept s1 b (ids ! k) v \<and> (v = clone_value (rows ! k) \<or> values_equal v (rows ! k))" if "k < length ids" for k
  proof -
    have "(ids ! k, rows ! k) \<in> set (zip ids rows)" using that assms(3) by (auto simp: set_zip)
    then have "settled_row cached pending (ids ! k, rows ! k)" using ok unfolding pending_ok_def by blast
    moreover have "js_get pending (ids ! k) = None" if "js_get cached (ids ! k) = Some old" for old
      using ok that unfolding pending_ok_def by (metis option.distinct(1) option.exhaust)
    ultimately show ?thesis by (auto simp: settled_row_def row_kept_def here get split: option.splits)
  qed
  have kept: "row_kept s1 b' i v" if "row_kept s b' i v" for b' i v
  proof (cases "b' = b")
    case True
    then have "js_get cached i = Some v" using that by (auto simp: row_kept_def cached_def)
    moreover from this have "js_get pending i = None" using ok by (metis pending_ok_def option.distinct(1) option.exhaust)
    ultimately show ?thesis using True by (simp add: row_kept_def here get)
  qed (use that in \<open>simp add: row_kept_def s1_def js_get_put\<close>)
  have "rows_grow s s1" using kept by (auto simp: rows_grow_def s1_def js_get_put)
  moreover have "stored_entry_ok s1 (RowView r src b n cs ids)"
  proof -
    have "\<exists>v. row_kept s1 b i v" if "i \<in> set ids" for i
      using that row by (metis in_set_conv_nth)
    then show ?thesis using here by simp
  qed
  ultimately show ?thesis using row s' by (intro exI [of _ s1]) (auto simp: s1_def b_def)
qed

section \<open>Runs\<close>

datatype version_call =
    CallSnapshot version_ref dataset_json
  | CallBorrowed version_ref dataset
  | CallRowView version_ref version_ref dataset_json
  | CallClear

fun version_op :: "version_call \<Rightarrow> versions \<Rightarrow> string + versions" where
  "version_op (CallSnapshot r j) s = register_snapshot r j s"
| "version_op (CallBorrowed r d) s = register_borrowed r d s"
| "version_op (CallRowView r src view) s = register_row_view r src view s"
| "version_op CallClear s = Inr no_versions"

text \<open>A call that throws leaves the store as it was.\<close>

definition version_step :: "versions \<Rightarrow> version_call \<Rightarrow> versions" where
  "version_step s c = (case version_op c s of Inl e \<Rightarrow> s | Inr s' \<Rightarrow> s')"

fun registers :: "version_ref \<Rightarrow> version_call \<Rightarrow> bool" where
  "registers r (CallSnapshot q j) = (q = r)"
| "registers r (CallBorrowed q d) = (q = r)"
| "registers r (CallRowView q src view) = (q = r)"
| "registers r CallClear = True"

lemma register_row_view_store:
  assumes "register_row_view r src view s = Inr s'"
  obtains e cs rows ids where "resolve_entry s src = Some e" "dj_rows view = Some rows" "dj_row_ids view = Some ids"
    "dj_columns view = Some cs" "dj_edges view = None \<or> dj_edges view = Some []" "length ids = length rows" "distinct ids"
    "store_row_view r src e (dj_name view) cs rows ids s = Inr s'"
  using assms
  by (auto simp: register_row_view_def bindE_Inr_iff valid_lineage_def split: option.splits)

lemma version_op_cases:
  assumes "version_op c s = Inr s'"
  obtains (cleared) "c = CallClear" "s' = no_versions"
  | (stored) e s1 where "s' = set_entry e s1" "vs_entries s1 = vs_entries s" "vs_fingerprints s1 = vs_fingerprints s"
      "rows_grow s s1" "stored_entry_ok s1 e" "registers (entry_ref e) c" "c \<noteq> CallClear"
proof (cases c)
  case (CallSnapshot r j)
  with assms stored [of "Snapshot r (clone_json j)" s] show ?thesis
    by (auto simp: register_snapshot_def bindE_Inr_iff)
next
  case (CallBorrowed r d)
  with assms stored [of "Borrowed r (ds_name d) (ds_columns d) (row_count d) (ds_row_ids d)" s] show ?thesis
    by (auto simp: register_borrowed_def bindE_Inr_iff)
next
  case (CallRowView r src view)
  then have "register_row_view r src view s = Inr s'" using assms by simp
  then obtain e cs rows ids where p: "length ids = length rows" "distinct ids"
    "store_row_view r src e (dj_name view) cs rows ids s = Inr s'" by (rule register_row_view_store)
  from store_row_view_parts [OF p(3,2,1)] stored CallRowView show ?thesis by fastforce
qed (use assms cleared in auto)

lemma grown_ok:
  assumes "versions_ok s" and "vs_entries s1 = vs_entries s" and "vs_fingerprints s1 = vs_fingerprints s" and "rows_grow s s1"
  shows "versions_ok s1"
  using assms stored_entry_ok_grow [OF assms(4)] unfolding versions_ok_def by auto

lemma version_step_ok: "versions_ok s \<Longrightarrow> versions_ok (version_step s c)"
proof (cases "version_op c s")
  case (Inr s')
  assume ok: "versions_ok s"
  from Inr show ?thesis
  proof (cases rule: version_op_cases)
    case cleared
    then show ?thesis using Inr by (simp add: version_step_def no_versions_ok)
  next
    case (stored e s1)
    then have "versions_ok (set_entry e s1)" using grown_ok [OF ok] by (intro set_stored_entry_ok) auto
    then show ?thesis using Inr stored(1) by (simp add: version_step_def)
  qed
qed (simp add: version_step_def)

interpretation version_store: invariant_system version_step versions_ok
  by unfold_locales (rule version_step_ok)

lemma version_step_keeps:
  assumes "\<not> registers r c"
  shows "js_get (vs_entries (version_step s c)) (version_key r) = js_get (vs_entries s) (version_key r) \<and>
    rows_grow s (version_step s c)"
proof (cases "version_op c s")
  case (Inr s')
  then show ?thesis
  proof (cases rule: version_op_cases)
    case cleared
    then show ?thesis using assms by simp
  next
    case (stored e s1)
    then have "entry_ref e \<noteq> r" using assms by metis
    then show ?thesis using Inr stored by (simp add: version_step_def set_entry_get set_entry_grow)
  qed
qed (simp add: version_step_def)

lemma run_keeps:
  assumes "list_all (\<lambda>c. \<not> registers r c) cs"
  shows "js_get (vs_entries (run version_step s cs)) (version_key r) = js_get (vs_entries s) (version_key r) \<and>
    rows_grow s (run version_step s cs)"
  using assms
proof (induction cs arbitrary: s)
  case (Cons c cs)
  with version_step_keeps [of r c s] show ?case by (auto intro: rows_grow_trans)
qed simp

lemma cached_rows_exist:
  assumes "stored_entry_ok s (RowView r src b n cs ids)"
  obtains m rows where "js_get (vs_rows s) (version_key b) = Some m" "mapE (cached_row m) ids = Inr rows"
proof -
  obtain m where m: "js_get (vs_rows s) (version_key b) = Some m" using assms by auto
  then have "\<exists>v. js_get m i = Some v" if "i \<in> set ids" for i using assms that by (auto simp: row_kept_def)
  then have "\<exists>rows. mapE (cached_row m) ids = Inr rows"
  proof (induction ids)
    case (Cons i ids)
    then obtain v where "js_get m i = Some v" by fastforce
    then show ?case using Cons by (auto simp: cached_row_def)
  qed simp
  then show ?thesis using that m by blast
qed

lemma materialize_total:
  assumes "versions_ok s"
  shows "\<exists>j. materialize_json s r = Inr j"
proof (cases "resolve_entry s r")
  case (Some e)
  then have ok: "stored_entry_ok s e" using assms resolve_ok by blast
  show ?thesis
  proof (cases e)
    case (RowView q src b n cs ids)
    then have "stored_entry_ok s (RowView q src b n cs ids)" using ok by simp
    then obtain m rows where "js_get (vs_rows s) (version_key b) = Some m" "mapE (cached_row m) ids = Inr rows"
      by (rule cached_rows_exist)
    then show ?thesis using Some RowView by (simp add: materialize_json_def)
  qed (use Some in \<open>simp_all add: materialize_json_def\<close>)
qed (simp add: materialize_json_def)

lemma resolve_exact: "js_get (vs_entries s) (version_key r) = Some e \<Longrightarrow> resolve_entry s r = Some e"
  by (simp add: resolve_entry_def)

section \<open>Properties\<close>

text \<open>
  C35: row views never dangle. In every state that calls on an empty store can reach, whatever they
  overwrite or however they fail, materialising any version answers: the rows of a row view are always
  in the cache of its lineage.
\<close>

theorem row_views_never_dangle:
  "\<not> isl (materialize_json (run version_step no_versions cs) r)"
proof -
  have "versions_ok (run version_step no_versions cs)" by (rule version_store.run_inv [OF no_versions_ok])
  from materialize_total [OF this, of r] show ?thesis by auto
qed

text \<open>A stored row is a copy of the row it was registered from, or of one equal to it.\<close>

definition same_row :: "js_value \<Rightarrow> js_value \<Rightarrow> bool" where
  "same_row v row \<longleftrightarrow> v = clone_value row \<or> (\<exists>w. v = clone_value w \<and> values_equal w row)"

lemma stored_rows:
  assumes "store_row_view r src e n cs rows ids s = Inr s1" and "distinct ids" and "length ids = length rows"
    and "list_all (\<lambda>c. \<not> registers r c) calls"
  obtains rows' where "materialize_json (run version_step s1 calls) r =
      Inr (Some \<lparr>dj_name = n, dj_columns = Some cs, dj_rows = Some rows', dj_edges = None, dj_row_ids = Some ids\<rparr>)"
    and "list_all2 same_row rows' rows"
proof -
  let ?t = "run version_step s1 calls" and ?b = "entry_base e"
  obtain s0 where s0: "s1 = set_entry (RowView r src ?b n cs ids) s0" "stored_entry_ok s0 (RowView r src ?b n cs ids)"
    "\<forall>k < length ids. \<exists>v. row_kept s0 ?b (ids ! k) v \<and> (v = clone_value (rows ! k) \<or> values_equal v (rows ! k))"
    using store_row_view_parts [OF assms(1-3)] by blast
  have "js_get (vs_entries ?t) (version_key r) = Some (RowView r src ?b n cs ids)" and grow: "rows_grow s1 ?t"
    using run_keeps [OF assms(4), of s1] by (simp_all add: s0(1) set_entry_get)
  then have res: "resolve_entry ?t r = Some (RowView r src ?b n cs ids)" by (intro resolve_exact)
  have "rows_grow s0 s1" unfolding s0(1) by (rule set_entry_grow) simp
  then have grown: "rows_grow s0 ?t" using grow by (rule rows_grow_trans)
  then have "stored_entry_ok ?t (RowView r src ?b n cs ids)" using s0(2) by (rule stored_entry_ok_grow)
  then obtain m rows' where m: "js_get (vs_rows ?t) (version_key ?b) = Some m" "mapE (cached_row m) ids = Inr rows'"
    by (rule cached_rows_exist)
  have l: "list_all2 (\<lambda>i v. cached_row m i = Inr v) ids rows'" using m(2) by (rule mapE_Inr_all)
  have "same_row (rows' ! k) (rows ! k)" if "k < length ids" for k
  proof -
    obtain v where v: "row_kept s0 ?b (ids ! k) v" "v = clone_value (rows ! k) \<or> values_equal v (rows ! k)" using s0(3) \<open>k < length ids\<close> by blast
    then have "row_kept ?t ?b (ids ! k) v" using grown by (simp add: rows_grow_def)
    then have "js_get m (ids ! k) = Some v" using m(1) by (simp add: row_kept_def)
    moreover have "cached_row m (ids ! k) = Inr (rows' ! k)" using l that by (simp add: list_all2_conv_all_nth)
    ultimately have "rows' ! k = clone_value v" by (simp add: cached_row_def)
    then show ?thesis using v(2) by (auto simp: same_row_def)
  qed
  moreover have "length rows' = length rows" using l assms(3) by (simp add: list_all2_lengthD)
  ultimately have "list_all2 same_row rows' rows" using assms(3) by (simp add: list_all2_conv_all_nth)
  with that [of rows'] show ?thesis using res m by (simp add: materialize_json_def)
qed

text \<open>
  C4: a stored version cannot be rewritten. After any further calls that do not register the same
  version again, whether they succeed or throw, a snapshot is materialised as it was registered, and a
  row view with the name, columns, row ids and rows of the verified result it was registered from,
  although its rows are shared with every other view of the lineage.
\<close>

theorem stored_versions_are_durable:
  assumes "list_all (\<lambda>c. \<not> registers r c) cs"
  shows "(register_snapshot r j s = Inr s1 \<longrightarrow>
      materialize_json (run version_step s1 cs) r = Inr (Some (clone_json j))) \<and>
    (register_row_view r src view s = Inr s2 \<longrightarrow>
      (\<exists>rows rows'. dj_rows view = Some rows \<and> list_all2 same_row rows' rows \<and>
        materialize_json (run version_step s2 cs) r = Inr (Some (view\<lparr>dj_rows := Some rows', dj_edges := None\<rparr>))))"
proof (intro conjI impI)
  assume "register_snapshot r j s = Inr s1"
  then have "s1 = set_entry (Snapshot r (clone_json j)) s" by (auto simp: register_snapshot_def bindE_Inr_iff)
  then have "resolve_entry (run version_step s1 cs) r = Some (Snapshot r (clone_json j))"
    using run_keeps [OF assms, of s1] by (intro resolve_exact) (simp add: set_entry_get)
  then show "materialize_json (run version_step s1 cs) r = Inr (Some (clone_json j))" by (simp add: materialize_json_def)
next
  assume "register_row_view r src view s = Inr s2"
  then obtain e cols rows ids where v: "dj_rows view = Some rows" "dj_row_ids view = Some ids" "dj_columns view = Some cols"
    "length ids = length rows" "distinct ids" "store_row_view r src e (dj_name view) cols rows ids s = Inr s2"
    by (rule register_row_view_store)
  from stored_rows [OF v(6,5,4) assms] obtain rows' where
    "materialize_json (run version_step s2 cs) r =
      Inr (Some \<lparr>dj_name = dj_name view, dj_columns = Some cols, dj_rows = Some rows', dj_edges = None, dj_row_ids = Some ids\<rparr>)"
    "list_all2 same_row rows' rows" .
  moreover have "view\<lparr>dj_rows := Some rows', dj_edges := None\<rparr> =
      \<lparr>dj_name = dj_name view, dj_columns = Some cols, dj_rows = Some rows', dj_edges = None, dj_row_ids = Some ids\<rparr>"
    using v(2,3) by (cases view) simp
  ultimately show "\<exists>rows rows'. dj_rows view = Some rows \<and> list_all2 same_row rows' rows \<and>
        materialize_json (run version_step s2 cs) r = Inr (Some (view\<lparr>dj_rows := Some rows', dj_edges := None\<rparr>))"
    using v(1) by auto
qed

section \<open>Example\<close>

definition ref_a :: version_ref where "ref_a = \<lparr>vr_version = 1, vr_fingerprint = ''fa''\<rparr>"
definition ref_b :: version_ref where "ref_b = \<lparr>vr_version = 2, vr_fingerprint = ''fb''\<rparr>"

definition sample_view :: dataset_json where
  "sample_view = \<lparr>dj_name = ''v'', dj_columns = Some [\<lparr>cl_name = ''x'', cl_type = ''NUMERIC''\<rparr>],
     dj_rows = Some [JObj [(''x'', JNum (Fin 1))]], dj_edges = None, dj_row_ids = Some [''r0'']\<rparr>"

definition sample_versions :: versions where
  "sample_versions = version_step no_versions (CallBorrowed ref_a (sample_dataset\<lparr>ds_columns := [\<lparr>cl_name = ''x'', cl_type = ''NUMERIC''\<rparr>]\<rparr>))"

theorem stored_versions_are_durable_witness:
  "\<exists>s2 rows'. register_row_view ref_b ref_a sample_view sample_versions = Inr s2 \<and>
     materialize_json (run version_step s2 [CallSnapshot ref_a sample_view]) ref_b =
       Inr (Some (sample_view\<lparr>dj_rows := Some rows', dj_edges := None\<rparr>))"
proof -
  have "\<not> isl (register_row_view ref_b ref_a sample_view sample_versions)" by code_simp
  then obtain s2 where s2: "register_row_view ref_b ref_a sample_view sample_versions = Inr s2"
    by (cases "register_row_view ref_b ref_a sample_view sample_versions") auto
  have "list_all (\<lambda>c. \<not> registers ref_b c) [CallSnapshot ref_a sample_view]" by (simp add: ref_a_def ref_b_def)
  from stored_versions_are_durable [OF this, of sample_view sample_versions s2 ref_a sample_view s2] s2
  show ?thesis by blast
qed

end
