(* ===== verification/Moneta_Ontology.thy ===== *)
theory Moneta_Ontology
  imports Js_Number
begin

text \<open>
  The vocabulary of the Moneta representation engine (\<open>src/moneta/representation\<close>): representation
  families and layouts with their compatibility tables (\<open>RepresentationFamily.ts\<close>), the catalogue of
  the twelve semantic candidates (\<open>RepresentationCandidate.ts\<close>) and the hard-constraint codes
  (\<open>HardConstraintCode.ts\<close>). Decimal literals are the binary64 numbers they denote.
\<close>

section \<open>Layouts, families and their tables\<close>

datatype vr_layout =
    Grid3d
  | ForceDirected3d
  | RadialOrbital
  | VectorStreamline
  | TimeRibbon
  | GeoSurface
  | SpectralVolume

fun layout_name :: "vr_layout \<Rightarrow> string" where
  "layout_name Grid3d = ''GRID_3D''"
| "layout_name ForceDirected3d = ''FORCE_DIRECTED_3D''"
| "layout_name RadialOrbital = ''RADIAL_ORBITAL''"
| "layout_name VectorStreamline = ''VECTOR_STREAMLINE''"
| "layout_name TimeRibbon = ''TIME_RIBBON''"
| "layout_name GeoSurface = ''GEO_SURFACE''"
| "layout_name SpectralVolume = ''SPECTRAL_VOLUME''"

datatype vr_geometry = CubeMatrix | IcosaNode | ConicalTree | FlowRay | GeoColumn | ClusterVolume
  | InstancedPointCloud | AggregateBars | DensityFieldGeometry | DistributionFieldGeometry | Orb | Column
  | Beam | SpectralBar | SpectralSurface
datatype vr_behavior = PulseQuantitative | OrbitalSpin | WaveOscillation | Static
datatype vr_interaction = InspectCell | TraverseEdge | DrillDown | HarvestStream | ClusterProbe | FilterBrush
  | ResonancePulse | ForkPlane | ChronoDial | Constellation | Beacon | Aleph | FrequencyProbe

datatype topology = Hierarchy | Graph | TimeSeries | Tabular | VectorField | Geo

fun topology_name :: "topology \<Rightarrow> string" where
  "topology_name Hierarchy = ''HIERARCHY''"
| "topology_name Graph = ''GRAPH''"
| "topology_name TimeSeries = ''TIME_SERIES''"
| "topology_name Tabular = ''TABULAR''"
| "topology_name VectorField = ''VECTOR_FIELD''"
| "topology_name Geo = ''GEO''"

datatype family =
    FPoint
  | FDistribution
  | FCluster
  | FAggregate
  | FGraph
  | FField
  | FTopology
  | FTemporal
  | FHierarchical
  | FFrequency

fun family_name :: "family \<Rightarrow> string" where
  "family_name FPoint = ''POINT''"
| "family_name FDistribution = ''DISTRIBUTION''"
| "family_name FCluster = ''CLUSTER''"
| "family_name FAggregate = ''AGGREGATE''"
| "family_name FGraph = ''GRAPH''"
| "family_name FField = ''FIELD''"
| "family_name FTopology = ''TOPOLOGY''"
| "family_name FTemporal = ''TEMPORAL''"
| "family_name FHierarchical = ''HIERARCHICAL''"
| "family_name FFrequency = ''FREQUENCY''"

definition all_families :: "family list" where
  "all_families = [FPoint, FDistribution, FCluster, FAggregate, FGraph, FField, FTopology, FTemporal, FHierarchical, FFrequency]"

fun family_layouts :: "family \<Rightarrow> vr_layout list" where
  "family_layouts FPoint = [Grid3d]"
| "family_layouts FDistribution = [Grid3d]"
| "family_layouts FCluster = [Grid3d, ForceDirected3d]"
| "family_layouts FAggregate = [Grid3d]"
| "family_layouts FGraph = [ForceDirected3d]"
| "family_layouts FField = [VectorStreamline, GeoSurface]"
| "family_layouts FTopology = [ForceDirected3d, Grid3d]"
| "family_layouts FTemporal = [TimeRibbon]"
| "family_layouts FHierarchical = [RadialOrbital]"
| "family_layouts FFrequency = [SpectralVolume, TimeRibbon]"

fun layout_families :: "vr_layout \<Rightarrow> family list" where
  "layout_families Grid3d = [FPoint, FDistribution, FCluster, FAggregate, FTopology]"
| "layout_families ForceDirected3d = [FCluster, FGraph, FTopology]"
| "layout_families RadialOrbital = [FHierarchical]"
| "layout_families VectorStreamline = [FField]"
| "layout_families TimeRibbon = [FTemporal, FFrequency]"
| "layout_families GeoSurface = [FField]"
| "layout_families SpectralVolume = [FFrequency]"

fun primary_family :: "vr_layout \<Rightarrow> family" where
  "primary_family Grid3d = FPoint"
| "primary_family ForceDirected3d = FGraph"
| "primary_family RadialOrbital = FHierarchical"
| "primary_family VectorStreamline = FField"
| "primary_family TimeRibbon = FTemporal"
| "primary_family GeoSurface = FField"
| "primary_family SpectralVolume = FFrequency"

definition layout_compatible :: "family \<Rightarrow> vr_layout \<Rightarrow> bool" where
  "layout_compatible f l \<longleftrightarrow> l \<in> set (family_layouts f)"

section \<open>Candidates\<close>

datatype candidate_id =
    PointSet
  | DensityField
  | DistributionField
  | ClusterRegions
  | AggregateVolume
  | TemporalTrajectory
  | HierarchicalSpace
  | RelationshipGraph
  | MatrixField
  | ManifoldEmbedding
  | SpatialRegion
  | MultiscaleField

fun candidate_name :: "candidate_id \<Rightarrow> string" where
  "candidate_name PointSet = ''POINT_SET''"
| "candidate_name DensityField = ''DENSITY_FIELD''"
| "candidate_name DistributionField = ''DISTRIBUTION_FIELD''"
| "candidate_name ClusterRegions = ''CLUSTER_REGIONS''"
| "candidate_name AggregateVolume = ''AGGREGATE_VOLUME''"
| "candidate_name TemporalTrajectory = ''TEMPORAL_TRAJECTORY''"
| "candidate_name HierarchicalSpace = ''HIERARCHICAL_SPACE''"
| "candidate_name RelationshipGraph = ''RELATIONSHIP_GRAPH''"
| "candidate_name MatrixField = ''MATRIX_FIELD''"
| "candidate_name ManifoldEmbedding = ''MANIFOLD_EMBEDDING''"
| "candidate_name SpatialRegion = ''SPATIAL_REGION''"
| "candidate_name MultiscaleField = ''MULTISCALE_FIELD''"

datatype capability =
    CapDiscreteObservations
  | CapContinuousDensity
  | CapBinnedEmpiricalMass
  | CapUnivariateDistribution
  | CapMultivariateCorrelation
  | CapClusterPartition
  | CapRelationalTopology
  | CapTreeHierarchy
  | CapTemporalSequence
  | CapPeriodicSpectrum
  | CapSpatialCoordinates
  | CapAnomalyIsolation
  | CapAggregateMetrics

datatype information =
    InfIndividualObservationIdentity
  | InfExactMetricValues
  | InfPopulationDensityDistribution
  | InfEmpiricalBivariateBinMass
  | InfEmpiricalDistributionShape
  | InfOutlierBoundaryVisibility
  | InfClusterSeparation
  | InfRelationalEdgeConnectivity
  | InfHierarchicalParentChild
  | InfChronologicalOrder
  | InfHarmonicFrequencyStructure
  | InfGeographicSpatialAdjacency
  | InfAggregateGroupMagnitude

fun information_name :: "information \<Rightarrow> string" where
  "information_name InfIndividualObservationIdentity = ''individual-observation-identity''"
| "information_name InfExactMetricValues = ''exact-metric-values''"
| "information_name InfPopulationDensityDistribution = ''population-density-distribution''"
| "information_name InfEmpiricalBivariateBinMass = ''empirical-bivariate-bin-mass''"
| "information_name InfEmpiricalDistributionShape = ''empirical-distribution-shape''"
| "information_name InfOutlierBoundaryVisibility = ''outlier-boundary-visibility''"
| "information_name InfClusterSeparation = ''cluster-separation''"
| "information_name InfRelationalEdgeConnectivity = ''relational-edge-connectivity''"
| "information_name InfHierarchicalParentChild = ''hierarchical-parent-child''"
| "information_name InfChronologicalOrder = ''chronological-order''"
| "information_name InfHarmonicFrequencyStructure = ''harmonic-frequency-structure''"
| "information_name InfGeographicSpatialAdjacency = ''geographic-spatial-adjacency''"
| "information_name InfAggregateGroupMagnitude = ''aggregate-group-magnitude''"

datatype abstraction_level = LvDataset | LvRegion | LvSubstructure | LvObservationSet | LvObservation

record scale_characteristics =
  sl_min :: int
  sl_max :: int
  sl_optimal :: "int \<times> int"
  sl_rating :: rat

record candidate_constraint =
  cc_description :: string
  cc_min_dims :: "int option"
  cc_max_dims :: "int option"
  cc_temporal :: bool
  cc_graph :: bool
  cc_hierarchy :: bool
  cc_geospatial :: bool

record candidate =
  cd_id :: candidate_id
  cd_level :: abstraction_level
  cd_name :: string
  cd_description :: string
  cd_supports :: "capability list"
  cd_preserves :: "information list"
  cd_loses :: "information list"
  cd_scale :: scale_characteristics
  cd_interactions :: "string list"
  cd_occlusion :: rat
  cd_load :: rat
  cd_constraints :: "candidate_constraint list"

definition candidate_point_set :: candidate where
  "candidate_point_set = \<lparr>cd_id = PointSet, cd_level = LvObservation,
     cd_name = ''Discrete Point Set'',
     cd_description = ''Direct 3D spatial mapping of discrete observation records'',
     cd_supports = [CapDiscreteObservations, CapMultivariateCorrelation],
     cd_preserves = [InfIndividualObservationIdentity, InfExactMetricValues, InfOutlierBoundaryVisibility],
     cd_loses = [InfPopulationDensityDistribution],
     cd_scale = \<lparr>sl_min = 1, sl_max = 2000, sl_optimal = (10, 500),
       sl_rating = lit (2 / 5)\<rparr>,
     cd_interactions = [''INSPECT_CELL'', ''FILTER_BRUSH'', ''FORK_PLANE''],
     cd_occlusion = lit (3 / 10), cd_load = lit (3 / 5),
     cd_constraints = [\<lparr>cc_description = ''Requires at least 2 numeric dimensions for spatial positioning'',
       cc_min_dims = Some 2, cc_max_dims = None, cc_temporal = False, cc_graph = False,
       cc_hierarchy = False, cc_geospatial = False\<rparr>]\<rparr>"

definition candidate_density_field :: candidate where
  "candidate_density_field = \<lparr>cd_id = DensityField, cd_level = LvSubstructure,
     cd_name = ''Binned Density Field'',
     cd_description = ''Bounded bivariate equal-width count grid preserving empirical mass per bin for two explicit numeric measures'',
     cd_supports = [CapBinnedEmpiricalMass, CapDiscreteObservations],
     cd_preserves = [InfEmpiricalBivariateBinMass],
     cd_loses = [InfIndividualObservationIdentity, InfExactMetricValues, InfPopulationDensityDistribution, InfEmpiricalDistributionShape, InfOutlierBoundaryVisibility],
     cd_scale = \<lparr>sl_min = 100, sl_max = 500000, sl_optimal = (1000, 50000),
       sl_rating = lit (9 / 10)\<rparr>,
     cd_interactions = [''CLUSTER_PROBE'', ''FILTER_BRUSH'', ''ALEPH''],
     cd_occlusion = lit (17 / 20), cd_load = lit (2 / 5),
     cd_constraints = [\<lparr>cc_description = ''Requires at least 2 numeric dimensions'',
       cc_min_dims = Some 2, cc_max_dims = None, cc_temporal = False, cc_graph = False,
       cc_hierarchy = False, cc_geospatial = False\<rparr>]\<rparr>"

definition candidate_distribution_field :: candidate where
  "candidate_distribution_field = \<lparr>cd_id = DistributionField, cd_level = LvSubstructure,
     cd_name = ''Empirical Univariate Distribution'',
     cd_description = ''Bounded empirical histogram, ECDF, and quantile summary for one explicit numeric measure'',
     cd_supports = [CapUnivariateDistribution, CapAnomalyIsolation],
     cd_preserves = [InfEmpiricalDistributionShape],
     cd_loses = [InfIndividualObservationIdentity, InfExactMetricValues, InfPopulationDensityDistribution, InfOutlierBoundaryVisibility],
     cd_scale = \<lparr>sl_min = 50, sl_max = 500000, sl_optimal = (100, 10000),
       sl_rating = lit (17 / 20)\<rparr>,
     cd_interactions = [''INSPECT_CELL'', ''FILTER_BRUSH'', ''CHRONO_DIAL''],
     cd_occlusion = lit (3 / 4), cd_load = lit (9 / 20),
     cd_constraints = [\<lparr>cc_description = ''Requires at least 1 numeric dimension'',
       cc_min_dims = Some 1, cc_max_dims = None, cc_temporal = False, cc_graph = False,
       cc_hierarchy = False, cc_geospatial = False\<rparr>]\<rparr>"

definition candidate_cluster_regions :: candidate where
  "candidate_cluster_regions = \<lparr>cd_id = ClusterRegions, cd_level = LvRegion,
     cd_name = ''Source Partition Regions'',
     cd_description = ''Bounded summaries of an explicitly declared source-authoritative partition using member counts, centroids, and descriptive axis-aligned coordinate envelopes'',
     cd_supports = [CapClusterPartition, CapAggregateMetrics],
     cd_preserves = [InfClusterSeparation, InfAggregateGroupMagnitude],
     cd_loses = [InfIndividualObservationIdentity, InfExactMetricValues, InfPopulationDensityDistribution, InfEmpiricalBivariateBinMass, InfEmpiricalDistributionShape, InfOutlierBoundaryVisibility],
     cd_scale = \<lparr>sl_min = 20, sl_max = 100000, sl_optimal = (50, 5000),
       sl_rating = lit (4 / 5)\<rparr>,
     cd_interactions = [''CLUSTER_PROBE'', ''INSPECT_CELL'', ''BEACON''],
     cd_occlusion = lit (4 / 5), cd_load = lit (1 / 2),
     cd_constraints = [\<lparr>cc_description = ''Requires an explicit source-authoritative partition plus 2 or 3 distinct numeric coordinate fields'',
       cc_min_dims = None, cc_max_dims = None, cc_temporal = False, cc_graph = False,
       cc_hierarchy = False, cc_geospatial = False\<rparr>]\<rparr>"

definition candidate_aggregate_volume :: candidate where
  "candidate_aggregate_volume = \<lparr>cd_id = AggregateVolume, cd_level = LvRegion,
     cd_name = ''Aggregated Metric Volume'',
     cd_description = ''Binned volumetric blocks representing aggregated summary measures'',
     cd_supports = [CapAggregateMetrics, CapDiscreteObservations],
     cd_preserves = [InfAggregateGroupMagnitude],
     cd_loses = [InfIndividualObservationIdentity, InfExactMetricValues, InfOutlierBoundaryVisibility],
     cd_scale = \<lparr>sl_min = 100, sl_max = 50000000, sl_optimal = (1000, 1000000),
       sl_rating = lit (49 / 50)\<rparr>,
     cd_interactions = [''INSPECT_CELL'', ''DRILL_DOWN'', ''FILTER_BRUSH''],
     cd_occlusion = lit (9 / 10), cd_load = lit (7 / 20),
     cd_constraints = [\<lparr>cc_description = ''Requires explicit grouped-aggregate semantics with a grouping field and COUNT or a numeric measure'',
       cc_min_dims = None, cc_max_dims = None, cc_temporal = False, cc_graph = False,
       cc_hierarchy = False, cc_geospatial = False\<rparr>]\<rparr>"

definition candidate_temporal_trajectory :: candidate where
  "candidate_temporal_trajectory = \<lparr>cd_id = TemporalTrajectory, cd_level = LvObservationSet,
     cd_name = ''Chronological Temporal Trajectory'',
     cd_description = ''Ordered path trajectory along chronological time axis preserving time dynamics'',
     cd_supports = [CapTemporalSequence, CapPeriodicSpectrum, CapDiscreteObservations],
     cd_preserves = [InfChronologicalOrder, InfExactMetricValues, InfHarmonicFrequencyStructure],
     cd_loses = [InfClusterSeparation],
     cd_scale = \<lparr>sl_min = 5, sl_max = 100000, sl_optimal = (20, 2000),
       sl_rating = lit (3 / 4)\<rparr>,
     cd_interactions = [''HARVEST_STREAM'', ''CHRONO_DIAL'', ''INSPECT_CELL''],
     cd_occlusion = lit (13 / 20), cd_load = lit (1 / 2),
     cd_constraints = [\<lparr>cc_description = ''Requires temporal timestamps or ordered sequences'',
       cc_min_dims = None, cc_max_dims = None, cc_temporal = True, cc_graph = False,
       cc_hierarchy = False, cc_geospatial = False\<rparr>]\<rparr>"

definition candidate_hierarchical_space :: candidate where
  "candidate_hierarchical_space = \<lparr>cd_id = HierarchicalSpace, cd_level = LvSubstructure,
     cd_name = ''Nested Hierarchical Space'',
     cd_description = ''Concentric radial orbital levels encoding tree/hierarchy depth'',
     cd_supports = [CapTreeHierarchy, CapDiscreteObservations, CapAggregateMetrics],
     cd_preserves = [InfHierarchicalParentChild, InfAggregateGroupMagnitude, InfIndividualObservationIdentity],
     cd_loses = [InfExactMetricValues],
     cd_scale = \<lparr>sl_min = 5, sl_max = 10000, sl_optimal = (10, 1000),
       sl_rating = lit (7 / 10)\<rparr>,
     cd_interactions = [''DRILL_DOWN'', ''INSPECT_CELL'', ''CONSTELLATION''],
     cd_occlusion = lit (7 / 10), cd_load = lit (11 / 20),
     cd_constraints = [\<lparr>cc_description = ''Requires hierarchy structure or depth > 1'',
       cc_min_dims = None, cc_max_dims = None, cc_temporal = False, cc_graph = False,
       cc_hierarchy = True, cc_geospatial = False\<rparr>]\<rparr>"

definition candidate_relationship_graph :: candidate where
  "candidate_relationship_graph = \<lparr>cd_id = RelationshipGraph, cd_level = LvSubstructure,
     cd_name = ''Source Relationship Graph'',
     cd_description = ''Source-authoritative node and edge topology whose presentation layout is explicitly non-authoritative'',
     cd_supports = [CapRelationalTopology, CapDiscreteObservations],
     cd_preserves = [InfRelationalEdgeConnectivity, InfIndividualObservationIdentity],
     cd_loses = [InfExactMetricValues, InfClusterSeparation],
     cd_scale = \<lparr>sl_min = 2, sl_max = 4096, sl_optimal = (20, 800),
       sl_rating = lit (1 / 2)\<rparr>,
     cd_interactions = [''TRAVERSE_EDGE'', ''INSPECT_CELL'', ''RESONANCE_PULSE''],
     cd_occlusion = lit (9 / 20), cd_load = lit (7 / 10),
     cd_constraints = [\<lparr>cc_description = ''Requires explicit SOURCE_EDGES authority and at least one source-provided edge'',
       cc_min_dims = None, cc_max_dims = None, cc_temporal = False, cc_graph = True,
       cc_hierarchy = False, cc_geospatial = False\<rparr>]\<rparr>"

definition candidate_matrix_field :: candidate where
  "candidate_matrix_field = \<lparr>cd_id = MatrixField, cd_level = LvObservation,
     cd_name = ''Regular 3D Matrix Grid'',
     cd_description = ''Uniform Cartesian grid for structured multi-dimensional indexing'',
     cd_supports = [CapDiscreteObservations, CapMultivariateCorrelation],
     cd_preserves = [InfIndividualObservationIdentity, InfExactMetricValues],
     cd_loses = [InfClusterSeparation],
     cd_scale = \<lparr>sl_min = 1, sl_max = 10000, sl_optimal = (10, 1000),
       sl_rating = lit (13 / 20)\<rparr>,
     cd_interactions = [''INSPECT_CELL'', ''FILTER_BRUSH''],
     cd_occlusion = lit (1 / 2), cd_load = lit (2 / 5),
     cd_constraints = [\<lparr>cc_description = ''Requires structured tabular indexing'',
       cc_min_dims = None, cc_max_dims = None, cc_temporal = False, cc_graph = False,
       cc_hierarchy = False, cc_geospatial = False\<rparr>]\<rparr>"

definition candidate_manifold_embedding :: candidate where
  "candidate_manifold_embedding = \<lparr>cd_id = ManifoldEmbedding, cd_level = LvSubstructure,
     cd_name = ''Topological Manifold Embedding'',
     cd_description = ''Dimensionality-reduced manifold coordinates preserving neighbourhood topology'',
     cd_supports = [CapMultivariateCorrelation, CapContinuousDensity, CapDiscreteObservations],
     cd_preserves = [InfClusterSeparation, InfPopulationDensityDistribution],
     cd_loses = [InfExactMetricValues],
     cd_scale = \<lparr>sl_min = 50, sl_max = 50000, sl_optimal = (100, 5000),
       sl_rating = lit (3 / 4)\<rparr>,
     cd_interactions = [''CLUSTER_PROBE'', ''FILTER_BRUSH'', ''FORK_PLANE''],
     cd_occlusion = lit (7 / 10), cd_load = lit (3 / 5),
     cd_constraints = [\<lparr>cc_description = ''Requires high-dimensional numerical feature space'',
       cc_min_dims = Some 3, cc_max_dims = None, cc_temporal = False, cc_graph = False,
       cc_hierarchy = False, cc_geospatial = False\<rparr>]\<rparr>"

definition candidate_spatial_region :: candidate where
  "candidate_spatial_region = \<lparr>cd_id = SpatialRegion, cd_level = LvRegion,
     cd_name = ''Geospatial Coordinate Surface'',
     cd_description = ''Geographic projection mapping latitude, longitude, and elevation terrain'',
     cd_supports = [CapSpatialCoordinates, CapDiscreteObservations],
     cd_preserves = [InfGeographicSpatialAdjacency, InfExactMetricValues, InfIndividualObservationIdentity],
     cd_loses = [InfClusterSeparation],
     cd_scale = \<lparr>sl_min = 1, sl_max = 100000, sl_optimal = (10, 5000),
       sl_rating = lit (4 / 5)\<rparr>,
     cd_interactions = [''INSPECT_CELL'', ''BEACON'', ''FILTER_BRUSH''],
     cd_occlusion = lit (4 / 5), cd_load = lit (2 / 5),
     cd_constraints = [\<lparr>cc_description = ''Requires geospatial latitude and longitude coordinates'',
       cc_min_dims = None, cc_max_dims = None, cc_temporal = False, cc_graph = False,
       cc_hierarchy = False, cc_geospatial = True\<rparr>]\<rparr>"

definition candidate_multiscale_field :: candidate where
  "candidate_multiscale_field = \<lparr>cd_id = MultiscaleField, cd_level = LvSubstructure,
     cd_name = ''Multiscale Frequency & Wavelet Field'',
     cd_description = ''Decomposed multiscale representation exposing localized frequency and harmonic structures'',
     cd_supports = [CapPeriodicSpectrum, CapTemporalSequence, CapContinuousDensity],
     cd_preserves = [InfHarmonicFrequencyStructure, InfPopulationDensityDistribution],
     cd_loses = [InfIndividualObservationIdentity],
     cd_scale = \<lparr>sl_min = 64, sl_max = 1000000, sl_optimal = (256, 65536),
       sl_rating = lit (17 / 20)\<rparr>,
     cd_interactions = [''FREQUENCY_PROBE'', ''CHRONO_DIAL'', ''FILTER_BRUSH''],
     cd_occlusion = lit (3 / 4), cd_load = lit (11 / 20),
     cd_constraints = [\<lparr>cc_description = ''Requires spectral periodicity or multiscale signals'',
       cc_min_dims = None, cc_max_dims = None, cc_temporal = False, cc_graph = False,
       cc_hierarchy = False, cc_geospatial = False\<rparr>]\<rparr>"

fun candidate_of :: "candidate_id \<Rightarrow> candidate" where
  "candidate_of PointSet = candidate_point_set"
| "candidate_of DensityField = candidate_density_field"
| "candidate_of DistributionField = candidate_distribution_field"
| "candidate_of ClusterRegions = candidate_cluster_regions"
| "candidate_of AggregateVolume = candidate_aggregate_volume"
| "candidate_of TemporalTrajectory = candidate_temporal_trajectory"
| "candidate_of HierarchicalSpace = candidate_hierarchical_space"
| "candidate_of RelationshipGraph = candidate_relationship_graph"
| "candidate_of MatrixField = candidate_matrix_field"
| "candidate_of ManifoldEmbedding = candidate_manifold_embedding"
| "candidate_of SpatialRegion = candidate_spatial_region"
| "candidate_of MultiscaleField = candidate_multiscale_field"

section \<open>Reasoning families of the candidates\<close>

definition reasoning_entries :: "(candidate_id \<times> family) list" where
  "reasoning_entries =
     [(PointSet, FPoint),
      (MatrixField, FPoint),
      (DistributionField, FDistribution),
      (DensityField, FDistribution),
      (ClusterRegions, FCluster),
      (AggregateVolume, FAggregate),
      (RelationshipGraph, FGraph),
      (SpatialRegion, FField),
      (ManifoldEmbedding, FTopology),
      (TemporalTrajectory, FTemporal),
      (HierarchicalSpace, FHierarchical),
      (MultiscaleField, FFrequency)]"

definition reasoning_family :: "candidate_id \<Rightarrow> family" where
  "reasoning_family c = the (map_of reasoning_entries c)"

definition family_candidates :: "family \<Rightarrow> candidate_id list" where
  "family_candidates f = map fst (filter (\<lambda>q. snd q = f) reasoning_entries)"

definition assigned_to_family :: "candidate_id \<Rightarrow> family \<Rightarrow> bool" where
  "assigned_to_family c f \<longleftrightarrow> reasoning_family c = f"

section \<open>Hard-constraint codes\<close>

datatype constraint_code =
    HardwareElementBudget
  | FrustumExclusion
  | InformationLossCritical
  | IdentityLoss
  | ExactMetricLoss
  | ClusterSeparationLoss
  | AnalyticalDimensionsRequired
  | AggregateSemanticsRequired
  | StabilityEvidenceRequired
  | ClusterAuthorityRequired
  | GraphAuthorityRequired
  | GraphResourceEnvelope
  | ManifoldAuthorityRequired
  | LayoutTopologyRequirement
  | CandidateStructureRequirement
  | ScaleRange

datatype constraint_category = CatHardware | CatPerceptual | CatScientificInfoLoss | CatStructural

fun classify_constraint :: "constraint_code option \<Rightarrow> constraint_category" where
  "classify_constraint (Some HardwareElementBudget) = CatHardware"
| "classify_constraint (Some FrustumExclusion) = CatPerceptual"
| "classify_constraint (Some InformationLossCritical) = CatScientificInfoLoss"
| "classify_constraint (Some IdentityLoss) = CatScientificInfoLoss"
| "classify_constraint (Some ExactMetricLoss) = CatScientificInfoLoss"
| "classify_constraint (Some ClusterSeparationLoss) = CatScientificInfoLoss"
| "classify_constraint _ = CatStructural"

section \<open>Consistency of the tables\<close>

lemmas candidate_defs = candidate_point_set_def candidate_density_field_def
  candidate_distribution_field_def candidate_cluster_regions_def candidate_aggregate_volume_def
  candidate_temporal_trajectory_def candidate_hierarchical_space_def candidate_relationship_graph_def
  candidate_matrix_field_def candidate_manifold_embedding_def candidate_spatial_region_def
  candidate_multiscale_field_def

lemma candidate_id_of [simp]: "cd_id (candidate_of c) = c"
  by (cases c) (simp_all add: candidate_defs)

lemma preserves_loses_disjoint: "set (cd_preserves (candidate_of c)) \<inter> set (cd_loses (candidate_of c)) = {}"
  by (cases c) (simp_all add: candidate_defs)

lemma optimal_in_range:
  "sl_min (cd_scale (candidate_of c)) \<le> fst (sl_optimal (cd_scale (candidate_of c)))"
  "fst (sl_optimal (cd_scale (candidate_of c))) \<le> snd (sl_optimal (cd_scale (candidate_of c)))"
  "snd (sl_optimal (cd_scale (candidate_of c))) \<le> sl_max (cd_scale (candidate_of c))"
  by (cases c; simp add: candidate_defs)+

lemma reasoning_family_simps [simp]:
  "reasoning_family PointSet = FPoint" "reasoning_family MatrixField = FPoint"
  "reasoning_family DistributionField = FDistribution" "reasoning_family DensityField = FDistribution"
  "reasoning_family ClusterRegions = FCluster" "reasoning_family AggregateVolume = FAggregate"
  "reasoning_family RelationshipGraph = FGraph" "reasoning_family SpatialRegion = FField"
  "reasoning_family ManifoldEmbedding = FTopology" "reasoning_family TemporalTrajectory = FTemporal"
  "reasoning_family HierarchicalSpace = FHierarchical" "reasoning_family MultiscaleField = FFrequency"
  by (simp_all add: reasoning_family_def reasoning_entries_def)

lemma family_candidates_iff: "c \<in> set (family_candidates f) \<longleftrightarrow> reasoning_family c = f"
  by (cases c; cases f) (simp_all add: family_candidates_def reasoning_entries_def)

text \<open>
  C31: the tables agree. The layout table is the exact reverse of the family table, every candidate
  belongs to exactly the family whose index lists it, no candidate claims to preserve information it
  declares lost, and its optimal range lies inside the range it admits.
\<close>

theorem ontology_tables_agree:
  "(l \<in> set (family_layouts f) \<longleftrightarrow> f \<in> set (layout_families l)) \<and>
   (c \<in> set (family_candidates f) \<longleftrightarrow> assigned_to_family c f) \<and>
   set (cd_preserves (candidate_of c)) \<inter> set (cd_loses (candidate_of c)) = {} \<and>
   cd_id (candidate_of c) = c \<and>
   sl_min (cd_scale (candidate_of c)) \<le> fst (sl_optimal (cd_scale (candidate_of c))) \<and>
   fst (sl_optimal (cd_scale (candidate_of c))) \<le> snd (sl_optimal (cd_scale (candidate_of c))) \<and>
   snd (sl_optimal (cd_scale (candidate_of c))) \<le> sl_max (cd_scale (candidate_of c)) \<and>
   primary_family l \<in> set (layout_families l)"
proof (intro conjI)
  show "l \<in> set (family_layouts f) \<longleftrightarrow> f \<in> set (layout_families l)" by (cases f; cases l) simp_all
  show "c \<in> set (family_candidates f) \<longleftrightarrow> assigned_to_family c f"
    by (simp add: family_candidates_iff assigned_to_family_def)
  show "primary_family l \<in> set (layout_families l)" by (cases l) simp_all
qed (simp_all add: preserves_loses_disjoint optimal_in_range)

end
