(* ===== verification/Committed_Context.thy ===== *)
theory Committed_Context
  imports Js_Value
begin

text \<open>
  Investigation intent, perspective and committed context (\<open>src/atlas/domain/InvestigationIntent.ts\<close>,
  \<open>InvestigationPerspective.ts\<close>, \<open>CommittedInvestigationContext.ts\<close>): the canonicalisers that turn an
  untyped value into a closed record or throw, the compatibility check of a captured binding, and
  the ledger of committed contexts with its activation epochs. The SHA-256 digest of a canonical
  value is a parameter. Strings hold the code points 0 to 255, which NFC leaves unchanged, so
  \<open>normalize('NFC')\<close> is the identity on them. Error texts leave out the rendering of a rejected version.
\<close>

section \<open>Intent\<close>

record inv_intent =
  it_question :: "string option"
  it_hypothesis :: "string option"
  it_task :: "string option"
  it_variables :: "string list option"

definition normalize_scalar :: "js_value \<Rightarrow> string \<Rightarrow> string + string option" where
  "normalize_scalar v field = (case v of
     JUndefined \<Rightarrow> Inr None
   | JStr s \<Rightarrow> Inr (if js_trim s = [] then None else Some (js_trim s))
   | _ \<Rightarrow> Inl (''InvestigationIntent '' @ field @ '' must be a string if present''))"

fun normalize_variables :: "nat \<Rightarrow> js_value list \<Rightarrow> string + string list" where
  "normalize_variables i [] = Inr []"
| "normalize_variables i (v # vs) = (case v of
     JStr s \<Rightarrow>
       if js_trim s = [] then Inl (''InvestigationIntent variablesOfInterest cannot contain empty items (index '' @ show_nat i @ '')'')
       else bindE (normalize_variables (Suc i) vs) (\<lambda>rest. Inr (js_trim s # rest))
   | _ \<Rightarrow> Inl (''InvestigationIntent variablesOfInterest item at index '' @ show_nat i @ '' must be a string''))"

definition canonical_variables :: "js_value \<Rightarrow> string + string list option" where
  "canonical_variables v = (case v of
     JUndefined \<Rightarrow> Inr None
   | JArr vs \<Rightarrow> bindE (normalize_variables 0 vs) (\<lambda>xs. Inr (Some xs))
   | _ \<Rightarrow> Inl ''InvestigationIntent variablesOfInterest must be an array'')"

definition intent_keys :: "string list" where
  "intent_keys = [''schemaVersion'', ''researchQuestion'', ''hypothesis'', ''variablesOfInterest'', ''currentTask'']"

text \<open>\<open>typeof v === 'object'\<close> holds of arrays too; the keys of an array are its indices.\<close>

definition is_typeof_object :: "js_value \<Rightarrow> bool" where
  "is_typeof_object v \<longleftrightarrow> js_is_object v \<or> js_is_array v"

fun own_props :: "js_value \<Rightarrow> (string \<times> js_value) list" where
  "own_props (JObj ps) = ps"
| "own_props (JArr xs) = zip (map show_nat [0..<length xs]) xs"
| "own_props _ = []"

definition canonicalize_intent :: "js_value \<Rightarrow> string + inv_intent" where
  "canonicalize_intent v =
     (if \<not> is_typeof_object v then Inl ''InvestigationIntent must be an object''
      else case unknown_key intent_keys (JObj (own_props v)) of
        Some k \<Rightarrow> Inl (''Unsupported InvestigationIntent field: '' @ k)
      | None \<Rightarrow>
          if js_prop v ''schemaVersion'' \<noteq> js_int 1 then Inl ''Unsupported InvestigationIntent schema version''
          else bindE (normalize_scalar (js_prop v ''researchQuestion'') ''researchQuestion'') (\<lambda>q.
               bindE (normalize_scalar (js_prop v ''hypothesis'') ''hypothesis'') (\<lambda>h.
               bindE (normalize_scalar (js_prop v ''currentTask'') ''currentTask'') (\<lambda>t.
               bindE (canonical_variables (js_prop v ''variablesOfInterest'')) (\<lambda>vs.
               Inr \<lparr>it_question = q, it_hypothesis = h, it_task = t, it_variables = vs\<rparr>)))))"

definition intent_identity :: "(inv_intent \<Rightarrow> string) \<Rightarrow> js_value \<Rightarrow> string + string" where
  "intent_identity digest v = bindE (canonicalize_intent v) (\<lambda>c. Inr (''sha256-intent-v1-'' @ digest c))"

section \<open>Perspective\<close>

datatype perspective_mode = Foreground | RequestDerivation
datatype temporal_foregrounding = Recency | Historical
datatype uncertainty_foregrounding = Interval | Distribution | Point

record perspective =
  ps_mode :: perspective_mode
  ps_temporal :: "temporal_foregrounding option"
  ps_uncertainty :: "uncertainty_foregrounding option"

definition modes :: "(string \<times> perspective_mode) list" where
  "modes = [(''foreground'', Foreground), (''request_derivation'', RequestDerivation)]"

definition temporal_foregroundings :: "(string \<times> temporal_foregrounding) list" where
  "temporal_foregroundings = [(''recency'', Recency), (''historical'', Historical)]"

definition uncertainty_foregroundings :: "(string \<times> uncertainty_foregrounding) list" where
  "uncertainty_foregroundings = [(''interval'', Interval), (''distribution'', Distribution), (''point'', Point)]"

definition narrowing_fields :: "string list" where
  "narrowing_fields = [''filter'', ''filters'', ''predicate'', ''where'', ''subset'', ''sample'', ''selection'',
     ''rows'', ''rowLimit'', ''limit'', ''topN'', ''threshold'', ''cutoff'', ''quantile'', ''binCount'', ''score'',
     ''weight'', ''window'', ''timeRange'', ''dateRange'']"

definition perspective_keys :: "string list" where
  "perspective_keys = [''schemaVersion'', ''mode'', ''temporalForegrounding'', ''uncertaintyForegrounding'']"

fun join_comma :: "string list \<Rightarrow> string" where
  "join_comma [] = []"
| "join_comma [x] = x"
| "join_comma (x # xs) = x @ '', '' @ join_comma xs"

definition normalize_enum :: "js_value \<Rightarrow> string \<Rightarrow> (string \<times> 'a) list \<Rightarrow> string + 'a option" where
  "normalize_enum v field allowed =
     (let bad = Inl (''InvestigationPerspective '' @ field @ '' must be one of: '' @ join_comma (map fst allowed)) in
      case v of JUndefined \<Rightarrow> Inr None
      | JStr s \<Rightarrow> (case map_of allowed s of Some x \<Rightarrow> Inr (Some x) | None \<Rightarrow> bad)
      | _ \<Rightarrow> bad)"

definition canonicalize_perspective :: "js_value \<Rightarrow> string + perspective" where
  "canonicalize_perspective v =
     (if \<not> js_is_object v then Inl ''InvestigationPerspective must be a non-null object''
      else case find (\<lambda>k. k \<in> set narrowing_fields) (js_own_keys v) of
        Some k \<Rightarrow> Inl (''InvestigationPerspective field \"'' @ k @
          ''\" would narrow the analysed population; filtering requires analytical derivation, not a view field'')
      | None \<Rightarrow>
      case unknown_key perspective_keys v of
        Some k \<Rightarrow> Inl (''Unsupported InvestigationPerspective field: '' @ k)
      | None \<Rightarrow>
          if js_prop v ''schemaVersion'' \<noteq> js_int 1 then Inl ''Unsupported InvestigationPerspective schema version''
          else if js_prop v ''mode'' = JUndefined
            then Inl ''InvestigationPerspective must declare mode (foreground or request_derivation)''
          else bindE (normalize_enum (js_prop v ''mode'') ''mode'' modes) (\<lambda>m.
               bindE (normalize_enum (js_prop v ''temporalForegrounding'') ''temporalForegrounding'' temporal_foregroundings) (\<lambda>t.
               bindE (normalize_enum (js_prop v ''uncertaintyForegrounding'') ''uncertaintyForegrounding'' uncertainty_foregroundings) (\<lambda>u.
               Inr \<lparr>ps_mode = the m, ps_temporal = t, ps_uncertainty = u\<rparr>))))"

definition perspective_identity :: "(perspective \<Rightarrow> string) \<Rightarrow> js_value \<Rightarrow> string + string" where
  "perspective_identity digest v =
     bindE (canonicalize_perspective v) (\<lambda>c. Inr (''sha256-perspective-v1-'' @ digest c))"

definition absent_perspective :: perspective where
  "absent_perspective = \<lparr>ps_mode = Foreground, ps_temporal = None, ps_uncertainty = None\<rparr>"

section \<open>Committed context\<close>

datatype epistemic_purpose = ClaimBearing | ExploratoryAbduction

definition epistemic_purposes :: "(string \<times> epistemic_purpose) list" where
  "epistemic_purposes = [(''CLAIM_BEARING'', ClaimBearing), (''EXPLORATORY_ABDUCTION'', ExploratoryAbduction)]"

record inv_context =
  cx_node :: string
  cx_purpose :: epistemic_purpose
  cx_intent :: inv_intent
  cx_perspective :: "perspective option"
  cx_investigation :: "string option"
  cx_fingerprint :: "string option"
  cx_scope :: "string option"
  cx_committed :: "rat option"
  cx_runtime :: "rat option"

definition normalize_node_id :: "js_value \<Rightarrow> string + string" where
  "normalize_node_id v = (case v of
     JStr s \<Rightarrow> if js_trim s = [] then Inl ''CommittedInvestigationContext nodeId cannot be empty'' else Inr (js_trim s)
   | _ \<Rightarrow> Inl ''CommittedInvestigationContext nodeId must be a string'')"

definition normalize_purpose :: "js_value \<Rightarrow> bool \<Rightarrow> string + epistemic_purpose" where
  "normalize_purpose v v2 =
     (let bad = Inl (''CommittedInvestigationContext epistemicPurpose must be one of: '' @ join_comma (map fst epistemic_purposes)) in
      case v of
        JUndefined \<Rightarrow>
          if v2 then Inl ''CommittedInvestigationContext V2 requires explicit epistemicPurpose: \"CLAIM_BEARING\" | \"EXPLORATORY_ABDUCTION\"''
          else Inr ClaimBearing
      | JStr s \<Rightarrow> (case map_of epistemic_purposes s of Some x \<Rightarrow> Inr x | None \<Rightarrow> bad)
      | _ \<Rightarrow> bad)"

definition optional_string :: "js_value \<Rightarrow> string \<Rightarrow> string + string option" where
  "optional_string v field = (case v of
     JUndefined \<Rightarrow> Inr None
   | JStr s \<Rightarrow> if js_trim s = [] then Inl (''CommittedInvestigationContext '' @ field @ '' cannot be empty'')
               else Inr (Some (js_trim s))
   | _ \<Rightarrow> Inl (''CommittedInvestigationContext '' @ field @ '' must be a string''))"

definition optional_positive :: "js_value \<Rightarrow> string \<Rightarrow> string + rat option" where
  "optional_positive v field =
     (let bad = Inl (''CommittedInvestigationContext '' @ field @ '' must be a positive integer'') in
      case v of
        JUndefined \<Rightarrow> Inr None
      | JNum n \<Rightarrow> (case n of Fin x \<Rightarrow> if is_integer_num n \<and> 0 < x then Inr (Some x) else bad | _ \<Rightarrow> bad)
      | _ \<Rightarrow> bad)"

definition optional_perspective :: "js_value \<Rightarrow> string + perspective option" where
  "optional_perspective v =
     (if v = JUndefined then Inr None else bindE (canonicalize_perspective v) (\<lambda>p. Inr (Some p)))"

definition context_keys :: "string list" where
  "context_keys = [''schemaVersion'', ''nodeId'', ''epistemicPurpose'', ''intent'', ''perspective'',
     ''investigationId'', ''datasetFingerprint'', ''scopeId'', ''committedRevision'', ''runtimeGeneration'']"

definition canonicalize_context :: "js_value \<Rightarrow> string + inv_context" where
  "canonicalize_context v =
     (if \<not> js_is_object v then Inl ''CommittedInvestigationContext must be a non-null object''
      else case unknown_key context_keys v of
        Some k \<Rightarrow> Inl (''Unsupported CommittedInvestigationContext field: '' @ k)
      | None \<Rightarrow>
        let version = js_prop v ''schemaVersion'' in
        if version \<noteq> js_int 1 \<and> version \<noteq> js_int 2
          then Inl ''Unsupported CommittedInvestigationContext schema version''
        else bindE (normalize_node_id (js_prop v ''nodeId'')) (\<lambda>node.
             bindE (normalize_purpose (js_prop v ''epistemicPurpose'') (version = js_int 2)) (\<lambda>purpose.
             bindE (canonicalize_intent (js_prop v ''intent'')) (\<lambda>intent.
             bindE (optional_perspective (js_prop v ''perspective'')) (\<lambda>persp.
             bindE (optional_string (js_prop v ''investigationId'') ''investigationId'') (\<lambda>inv.
             bindE (optional_string (js_prop v ''datasetFingerprint'') ''datasetFingerprint'') (\<lambda>fp.
             bindE (optional_string (js_prop v ''scopeId'') ''scopeId'') (\<lambda>scope.
             bindE (optional_positive (js_prop v ''committedRevision'') ''committedRevision'') (\<lambda>rev.
             bindE (optional_positive (js_prop v ''runtimeGeneration'') ''runtimeGeneration'') (\<lambda>gen.
             Inr \<lparr>cx_node = node, cx_purpose = purpose, cx_intent = intent, cx_perspective = persp,
                  cx_investigation = inv, cx_fingerprint = fp, cx_scope = scope, cx_committed = rev,
                  cx_runtime = gen\<rparr>))))))))))"

definition context_identity :: "(inv_context \<Rightarrow> string) \<Rightarrow> js_value \<Rightarrow> string + string" where
  "context_identity digest v =
     bindE (canonicalize_context v) (\<lambda>c. Inr (''sha256-committed-context-v2-'' @ digest c))"

section \<open>Bindings\<close>

record activation =
  ac_context :: string
  ac_node :: string
  ac_revision :: nat
  ac_epoch :: nat
  ac_investigation :: "string option"
  ac_fingerprint :: "string option"
  ac_scope :: "string option"
  ac_runtime :: "rat option"

record binding =
  bd_context :: string
  bd_node :: string
  bd_epoch :: nat
  bd_investigation :: "string option"
  bd_fingerprint :: "string option"
  bd_scope :: "string option"
  bd_runtime :: "rat option"

definition binding_of :: "activation \<Rightarrow> binding" where
  "binding_of a = \<lparr>bd_context = ac_context a, bd_node = ac_node a, bd_epoch = ac_epoch a,
     bd_investigation = ac_investigation a, bd_fingerprint = ac_fingerprint a,
     bd_scope = ac_scope a, bd_runtime = ac_runtime a\<rparr>"

text \<open>Why a binding is refused; the source renders each as a sentence.\<close>

datatype incompatibility =
    NoActiveContext
  | ContextChanged string string
  | WrongNode string string
  | StaleEpoch nat nat
  | FingerprintConflict "string option" "string option"
  | InvestigationConflict "string option" "string option"
  | ScopeConflict "string option" "string option"
  | RuntimeConflict "rat option" "rat option"

definition check_compatibility :: "binding \<Rightarrow> activation option \<Rightarrow> incompatibility option" where
  "check_compatibility captured current = (case current of
     None \<Rightarrow> Some NoActiveContext
   | Some c \<Rightarrow>
       let active = binding_of c in
       if bd_context captured \<noteq> bd_context active
         then Some (ContextChanged (bd_context captured) (bd_context active))
       else if bd_node captured \<noteq> bd_node active then Some (WrongNode (bd_node captured) (bd_node active))
       else if bd_epoch captured \<noteq> bd_epoch active then Some (StaleEpoch (bd_epoch captured) (bd_epoch active))
       else if bd_fingerprint captured \<noteq> bd_fingerprint active
         then Some (FingerprintConflict (bd_fingerprint captured) (bd_fingerprint active))
       else if bd_investigation captured \<noteq> bd_investigation active
         then Some (InvestigationConflict (bd_investigation captured) (bd_investigation active))
       else if bd_scope captured \<noteq> bd_scope active then Some (ScopeConflict (bd_scope captured) (bd_scope active))
       else if bd_runtime captured \<noteq> bd_runtime active
         then Some (RuntimeConflict (bd_runtime captured) (bd_runtime active))
       else None)"

section \<open>The ledger\<close>

text \<open>
  An entry is one object that the node's map and its history share, and whose activation is
  assigned in place, so the ledger keeps the entries in a store and the two maps hold positions in
  it. The epoch counter is static: every ledger of the process advances it.
\<close>

record ledger_entry =
  le_context :: inv_context
  le_id :: string
  le_activation :: activation

record context_ledger =
  cl_store :: "ledger_entry list"
  cl_entries :: "(string, nat) js_map"
  cl_history :: "(string, nat list) js_map"
  cl_revision :: nat
  cl_epoch :: nat
  cl_active :: "string option"
  cl_counter :: nat

definition new_ledger :: "nat \<Rightarrow> context_ledger" where
  "new_ledger counter = \<lparr>cl_store = [], cl_entries = [], cl_history = [], cl_revision = 0,
     cl_epoch = Suc counter, cl_active = None, cl_counter = Suc counter\<rparr>"

definition reset_ledger :: "context_ledger \<Rightarrow> context_ledger" where
  "reset_ledger g = g\<lparr>cl_entries := [], cl_history := [], cl_revision := 0,
     cl_counter := Suc (cl_counter g), cl_epoch := Suc (cl_counter g), cl_active := None\<rparr>"

definition history_of :: "context_ledger \<Rightarrow> string \<Rightarrow> nat list" where
  "history_of g k = (case js_get (cl_history g) k of None \<Rightarrow> [] | Some h \<Rightarrow> h)"

definition perspective_value :: "perspective \<Rightarrow> js_value" where
  "perspective_value p = JObj
     ([(''schemaVersion'', js_int 1),
       (''mode'', JStr (case ps_mode p of Foreground \<Rightarrow> ''foreground'' | RequestDerivation \<Rightarrow> ''request_derivation''))] @
      (case ps_temporal p of None \<Rightarrow> [] | Some t \<Rightarrow>
        [(''temporalForegrounding'', JStr (case t of Recency \<Rightarrow> ''recency'' | Historical \<Rightarrow> ''historical''))]) @
      (case ps_uncertainty p of None \<Rightarrow> [] | Some u \<Rightarrow>
        [(''uncertaintyForegrounding'', JStr (case u of Interval \<Rightarrow> ''interval'' | Distribution \<Rightarrow> ''distribution'' | Point \<Rightarrow> ''point''))]))"

definition string_prop :: "string \<Rightarrow> string option \<Rightarrow> (string \<times> js_value) list" where
  "string_prop k x = (case x of None \<Rightarrow> [] | Some s \<Rightarrow> [(k, JStr s)])"

definition number_prop :: "string \<Rightarrow> rat option \<Rightarrow> (string \<times> js_value) list" where
  "number_prop k x = (case x of None \<Rightarrow> [] | Some n \<Rightarrow> [(k, JNum (Fin n))])"

definition intent_value :: "inv_intent \<Rightarrow> js_value" where
  "intent_value i = JObj
     ([(''schemaVersion'', js_int 1)] @ string_prop ''researchQuestion'' (it_question i) @
      string_prop ''hypothesis'' (it_hypothesis i) @ string_prop ''currentTask'' (it_task i) @
      (case it_variables i of None \<Rightarrow> [] | Some vs \<Rightarrow> [(''variablesOfInterest'', JArr (map JStr vs))]))"

text \<open>The object that \<open>canonicalizeCommittedInvestigationContext\<close> builds.\<close>

definition context_value :: "inv_context \<Rightarrow> js_value" where
  "context_value c = JObj
     ([(''schemaVersion'', js_int 2), (''nodeId'', JStr (cx_node c)),
       (''epistemicPurpose'', JStr (case cx_purpose c of ClaimBearing \<Rightarrow> ''CLAIM_BEARING''
          | ExploratoryAbduction \<Rightarrow> ''EXPLORATORY_ABDUCTION'')),
       (''intent'', intent_value (cx_intent c))] @
      (case cx_perspective c of None \<Rightarrow> [] | Some p \<Rightarrow> [(''perspective'', perspective_value p)]) @
      string_prop ''investigationId'' (cx_investigation c) @
      string_prop ''datasetFingerprint'' (cx_fingerprint c) @ string_prop ''scopeId'' (cx_scope c) @
      number_prop ''committedRevision'' (cx_committed c) @ number_prop ''runtimeGeneration'' (cx_runtime c))"

definition activation_of :: "inv_context \<Rightarrow> string \<Rightarrow> nat \<Rightarrow> nat \<Rightarrow> activation" where
  "activation_of c ident revision epoch =
     \<lparr>ac_context = ident, ac_node = cx_node c, ac_revision = revision, ac_epoch = epoch,
      ac_investigation = cx_investigation c, ac_fingerprint = cx_fingerprint c,
      ac_scope = cx_scope c, ac_runtime = cx_runtime c\<rparr>"

definition commit ::
  "(inv_context \<Rightarrow> string) \<Rightarrow> string \<Rightarrow> js_value \<Rightarrow> context_ledger \<Rightarrow> (string + activation) \<times> context_ledger" where
  "commit digest node v g =
     (let g1 = g\<lparr>cl_revision := Suc (cl_revision g), cl_counter := Suc (cl_counter g), cl_epoch := Suc (cl_counter g)\<rparr>;
          existing = history_of g1 node;
          input = js_with (JObj (own_props v)) ''nodeId'' (JStr node)
      in case bindE (canonicalize_context input) (\<lambda>c.
              bindE (context_identity digest (context_value c)) (\<lambda>ident. Inr (c, ident))) of
           Inl e \<Rightarrow> (Inl e, g1)
         | Inr (c, ident) \<Rightarrow>
             let a = activation_of c ident (cl_revision g1) (cl_epoch g1);
                 p = length (cl_store g1)
             in (Inr a, g1\<lparr>cl_store := cl_store g1 @ [\<lparr>le_context = c, le_id = ident, le_activation = a\<rparr>],
                           cl_entries := js_put (cx_node c) p (cl_entries g1),
                           cl_history := js_put (cx_node c) (existing @ [p]) (cl_history g1),
                           cl_active := Some (cx_node c)\<rparr>))"

definition entry_revision :: "context_ledger \<Rightarrow> nat \<Rightarrow> nat" where
  "entry_revision g p = ac_revision (le_activation (cl_store g ! p))"

definition find_revision :: "context_ledger \<Rightarrow> nat \<Rightarrow> nat list \<Rightarrow> nat option" where
  "find_revision g rv h = find (\<lambda>p. entry_revision g p = rv) h"

definition activate ::
  "string \<Rightarrow> nat option \<Rightarrow> context_ledger \<Rightarrow> (string + activation) \<times> context_ledger" where
  "activate node revision g =
     (let h = history_of g node in
      if h = [] then (Inl (''Cannot activate uncommitted investigation context node: '' @ node), g)
      else
        case (case revision of
                Some rv \<Rightarrow> find_revision g rv h
              | None \<Rightarrow> Some (case js_get (cl_entries g) node of Some p \<Rightarrow> p | None \<Rightarrow> last h)) of
          None \<Rightarrow> (Inl (''Cannot activate revision '' @ show_nat (the revision) @ '' for node '' @ node @
                     ''; available revisions: '' @ join_comma (map (\<lambda>p. show_nat (entry_revision g p)) h)), g)
        | Some p \<Rightarrow>
            let target = cl_store g ! p;
                epoch = Suc (cl_counter g);
                a = activation_of (le_context target) (le_id target) (ac_revision (le_activation target)) epoch
            in (Inr a, g\<lparr>cl_counter := epoch, cl_epoch := epoch,
                         cl_store := (cl_store g)[p := target\<lparr>le_activation := a\<rparr>],
                         cl_entries := js_put node p (cl_entries g),
                         cl_active := Some (cx_node (le_context target))\<rparr>))"

definition get_committed :: "string \<Rightarrow> nat option \<Rightarrow> context_ledger \<Rightarrow> inv_context option" where
  "get_committed node revision g = (case revision of
     Some rv \<Rightarrow> map_option (\<lambda>p. le_context (cl_store g ! p)) (find_revision g rv (history_of g node))
   | None \<Rightarrow> map_option (\<lambda>p. le_context (cl_store g ! p)) (js_get (cl_entries g) node))"

definition get_revisions :: "string \<Rightarrow> context_ledger \<Rightarrow> inv_context list" where
  "get_revisions node g = map (\<lambda>p. le_context (cl_store g ! p)) (history_of g node)"

definition get_activation :: "string \<Rightarrow> context_ledger \<Rightarrow> activation option" where
  "get_activation node g = map_option (\<lambda>p. le_activation (cl_store g ! p)) (js_get (cl_entries g) node)"

definition current :: "context_ledger \<Rightarrow> activation option" where
  "current g = (case cl_active g of None \<Rightarrow> None | Some node \<Rightarrow> get_activation node g)"

definition current_binding :: "context_ledger \<Rightarrow> binding option" where
  "current_binding g = map_option binding_of (current g)"

section \<open>Canonical values\<close>

lemma js_trim_trim [simp]: "js_trim (js_trim s) = js_trim s"
proof (cases "js_trim s = []")
  case False
  let ?t = "dropWhile js_ws s"
  have split: "?t = js_trim s @ rev (takeWhile js_ws (rev ?t))"
    unfolding js_trim_def by (metis rev_append rev_rev_ident takeWhile_dropWhile_id)
  then have "?t \<noteq> []" using False by (metis append_is_Nil_conv)
  then have "\<not> js_ws (hd ?t)" by (rule hd_dropWhile)
  then have "\<not> js_ws (hd (js_trim s))" using False split by (metis hd_append2)
  then have "dropWhile js_ws (js_trim s) = js_trim s" using False by (cases "js_trim s") auto
  then show ?thesis unfolding js_trim_def [of "js_trim s"] by (simp add: js_trim_def dropWhile_idem)
qed simp

definition trimmed :: "string \<Rightarrow> bool" where
  "trimmed s \<longleftrightarrow> s \<noteq> [] \<and> js_trim s = s"

lemma trimmed_trim: "js_trim s \<noteq> [] \<Longrightarrow> trimmed (js_trim s)"
  by (simp add: trimmed_def)

definition intent_canonical :: "inv_intent \<Rightarrow> bool" where
  "intent_canonical i \<longleftrightarrow> pred_option trimmed (it_question i) \<and> pred_option trimmed (it_hypothesis i) \<and>
     pred_option trimmed (it_task i) \<and> pred_option (list_all trimmed) (it_variables i)"

definition context_canonical :: "inv_context \<Rightarrow> bool" where
  "context_canonical c \<longleftrightarrow> trimmed (cx_node c) \<and> intent_canonical (cx_intent c) \<and>
     pred_option trimmed (cx_investigation c) \<and> pred_option trimmed (cx_fingerprint c) \<and>
     pred_option trimmed (cx_scope c) \<and>
     pred_option (\<lambda>x. is_integer_num (Fin x) \<and> 0 < x) (cx_committed c) \<and>
     pred_option (\<lambda>x. is_integer_num (Fin x) \<and> 0 < x) (cx_runtime c)"

lemma normalize_scalar_canonical: "normalize_scalar v f = Inr x \<Longrightarrow> pred_option trimmed x"
  by (auto simp: normalize_scalar_def trimmed_trim split: js_value.splits if_splits)

lemma normalize_variables_canonical: "normalize_variables i vs = Inr xs \<Longrightarrow> list_all trimmed xs"
  by (induction i vs arbitrary: xs rule: normalize_variables.induct)
    (auto simp: bindE_Inr_iff trimmed_trim split: js_value.splits if_splits)

lemma canonicalize_intent_canonical: "canonicalize_intent v = Inr i \<Longrightarrow> intent_canonical i"
  by (auto simp: canonicalize_intent_def intent_canonical_def bindE_Inr_iff canonical_variables_def
      dest: normalize_scalar_canonical normalize_variables_canonical
      split: if_splits option.splits js_value.splits)

lemma optional_string_canonical: "optional_string v f = Inr x \<Longrightarrow> pred_option trimmed x"
  by (auto simp: optional_string_def trimmed_trim split: js_value.splits if_splits)

lemma optional_positive_canonical:
  "optional_positive v f = Inr x \<Longrightarrow> pred_option (\<lambda>x. is_integer_num (Fin x) \<and> 0 < x) x"
  by (auto simp: optional_positive_def Let_def split: js_value.splits js_number.splits if_splits)

lemma canonicalize_context_canonical: "canonicalize_context v = Inr c \<Longrightarrow> context_canonical c"
  unfolding canonicalize_context_def context_canonical_def
  by (auto simp: bindE_Inr_iff Let_def normalize_node_id_def trimmed_trim
      dest: optional_string_canonical optional_positive_canonical canonicalize_intent_canonical
      split: if_splits option.splits js_value.splits)

lemma normalize_variables_trimmed: "list_all trimmed xs \<Longrightarrow> normalize_variables i (map JStr xs) = Inr xs"
  by (induction xs arbitrary: i) (simp_all add: trimmed_def)

lemma map_of_string_prop [simp]:
  "map_of (string_prop k x @ ps) k' = (if k' = k \<and> x \<noteq> None then Some (JStr (the x)) else map_of ps k')"
  "map_of (number_prop k y @ ps) k' = (if k' = k \<and> y \<noteq> None then Some (JNum (Fin (the y))) else map_of ps k')"
  by (auto simp: string_prop_def number_prop_def split: option.split)

lemma keys_string_prop:
  "fst ` set (string_prop k x) \<subseteq> {k}" "fst ` set (number_prop k y) \<subseteq> {k}"
  by (auto simp: string_prop_def number_prop_def split: option.split)

lemma intent_value_canonical:
  assumes "intent_canonical i" shows "canonicalize_intent (intent_value i) = Inr i"
proof -
  let ?v = "intent_value i"
  have keys: "unknown_key intent_keys (JObj (own_props ?v)) = None"
    by (auto simp: unknown_key_None intent_value_def intent_keys_def string_prop_def split: option.split)
  have props: "js_prop ?v ''schemaVersion'' = js_int 1"
    "js_prop ?v ''researchQuestion'' = (case it_question i of None \<Rightarrow> JUndefined | Some s \<Rightarrow> JStr s)"
    "js_prop ?v ''hypothesis'' = (case it_hypothesis i of None \<Rightarrow> JUndefined | Some s \<Rightarrow> JStr s)"
    "js_prop ?v ''currentTask'' = (case it_task i of None \<Rightarrow> JUndefined | Some s \<Rightarrow> JStr s)"
    "js_prop ?v ''variablesOfInterest'' = (case it_variables i of None \<Rightarrow> JUndefined | Some vs \<Rightarrow> JArr (map JStr vs))"
    by (auto simp: intent_value_def string_prop_def split: option.split)
  have scalar: "normalize_scalar (case x of None \<Rightarrow> JUndefined | Some s \<Rightarrow> JStr s) f = Inr x" if "pred_option trimmed x" for x f
    using that by (auto simp: normalize_scalar_def trimmed_def split: option.split)
  have vars: "canonical_variables (case it_variables i of None \<Rightarrow> JUndefined | Some vs \<Rightarrow> JArr (map JStr vs)) = Inr (it_variables i)"
    using assms by (auto simp: canonical_variables_def intent_canonical_def normalize_variables_trimmed split: option.split)
  have "is_typeof_object ?v" by (simp add: is_typeof_object_def intent_value_def)
  then show ?thesis
    using assms by (simp add: canonicalize_intent_def keys props scalar vars intent_canonical_def)
qed

lemma map_of_optional [simp]:
  "map_of ((case x of None \<Rightarrow> [] | Some y \<Rightarrow> [(k, f y)]) @ ps) k' = (if k' = k \<and> x \<noteq> None then Some (f (the x)) else map_of ps k')"
  "map_of (number_prop k z) k' = (if k' = k then map_option (\<lambda>n. JNum (Fin n)) z else None)"
  by (simp_all add: number_prop_def split: option.split)

lemma perspective_props:
  "js_prop (perspective_value p) ''schemaVersion'' = js_int 1"
  "js_prop (perspective_value p) ''mode'' =
     JStr (case ps_mode p of Foreground \<Rightarrow> ''foreground'' | RequestDerivation \<Rightarrow> ''request_derivation'')"
  "js_prop (perspective_value p) ''temporalForegrounding'' = (case ps_temporal p of None \<Rightarrow> JUndefined
     | Some t \<Rightarrow> JStr (case t of Recency \<Rightarrow> ''recency'' | Historical \<Rightarrow> ''historical''))"
  "js_prop (perspective_value p) ''uncertaintyForegrounding'' = (case ps_uncertainty p of None \<Rightarrow> JUndefined
     | Some u \<Rightarrow> JStr (case u of Interval \<Rightarrow> ''interval'' | Distribution \<Rightarrow> ''distribution'' | Point \<Rightarrow> ''point''))"
  by (simp_all add: perspective_value_def split: option.split)

lemma enum_values:
  "normalize_enum (JStr (case m of Foreground \<Rightarrow> ''foreground'' | RequestDerivation \<Rightarrow> ''request_derivation'')) f modes = Inr (Some m)"
  "normalize_enum (case x of None \<Rightarrow> JUndefined | Some t \<Rightarrow> JStr (case t of Recency \<Rightarrow> ''recency'' | Historical \<Rightarrow> ''historical''))
     f temporal_foregroundings = Inr x"
  "normalize_enum (case y of None \<Rightarrow> JUndefined
     | Some u \<Rightarrow> JStr (case u of Interval \<Rightarrow> ''interval'' | Distribution \<Rightarrow> ''distribution'' | Point \<Rightarrow> ''point''))
     f uncertainty_foregroundings = Inr y"
proof -
  show "normalize_enum (JStr (case m of Foreground \<Rightarrow> ''foreground'' | RequestDerivation \<Rightarrow> ''request_derivation'')) f modes = Inr (Some m)"
    by (cases m) (simp_all add: normalize_enum_def modes_def)
  show "normalize_enum (case x of None \<Rightarrow> JUndefined | Some t \<Rightarrow> JStr (case t of Recency \<Rightarrow> ''recency'' | Historical \<Rightarrow> ''historical''))
      f temporal_foregroundings = Inr x"
    by (cases x; cases "the x") (simp_all add: normalize_enum_def temporal_foregroundings_def)
  show "normalize_enum (case y of None \<Rightarrow> JUndefined
     | Some u \<Rightarrow> JStr (case u of Interval \<Rightarrow> ''interval'' | Distribution \<Rightarrow> ''distribution'' | Point \<Rightarrow> ''point''))
     f uncertainty_foregroundings = Inr y"
    by (cases y; cases "the y") (simp_all add: normalize_enum_def uncertainty_foregroundings_def)
qed

lemma perspective_value_canonical: "canonicalize_perspective (perspective_value p) = Inr p"
proof -
  have keys: "set (js_own_keys (perspective_value p)) \<subseteq> set perspective_keys"
    by (auto simp: perspective_value_def perspective_keys_def split: option.split)
  moreover have "set perspective_keys \<inter> set narrowing_fields = {}"
    by (simp add: perspective_keys_def narrowing_fields_def)
  ultimately have "find (\<lambda>k. k \<in> set narrowing_fields) (js_own_keys (perspective_value p)) = None"
    by (auto simp: find_None_iff)
  moreover have "js_is_object (perspective_value p)" by (simp add: perspective_value_def)
  ultimately show ?thesis
    using keys by (simp add: canonicalize_perspective_def perspective_props enum_values flip: unknown_key_None)
qed

lemma purpose_value_canonical:
  "normalize_purpose (JStr (case x of ClaimBearing \<Rightarrow> ''CLAIM_BEARING'' | ExploratoryAbduction \<Rightarrow> ''EXPLORATORY_ABDUCTION'')) v2 = Inr x"
  by (cases x) (simp_all add: normalize_purpose_def epistemic_purposes_def)

lemma optional_value_canonical:
  "pred_option trimmed x \<Longrightarrow> optional_string (case x of None \<Rightarrow> JUndefined | Some s \<Rightarrow> JStr s) f = Inr x"
  "pred_option (\<lambda>n. is_integer_num (Fin n) \<and> 0 < n) y \<Longrightarrow>
    optional_positive (case y of None \<Rightarrow> JUndefined | Some n \<Rightarrow> JNum (Fin n)) f = Inr y"
  by (auto simp: optional_string_def optional_positive_def trimmed_def split: option.split)

lemma context_value_canonical:
  assumes "context_canonical c" shows "canonicalize_context (context_value c) = Inr c"
proof -
  let ?v = "context_value c"
  have keys: "unknown_key context_keys ?v = None"
    by (auto simp: unknown_key_None context_value_def context_keys_def string_prop_def number_prop_def
        split: option.split)
  have props: "js_prop ?v ''schemaVersion'' = js_int 2" "js_prop ?v ''nodeId'' = JStr (cx_node c)"
    "js_prop ?v ''epistemicPurpose'' = JStr (case cx_purpose c of ClaimBearing \<Rightarrow> ''CLAIM_BEARING''
       | ExploratoryAbduction \<Rightarrow> ''EXPLORATORY_ABDUCTION'')"
    "js_prop ?v ''intent'' = intent_value (cx_intent c)"
    "js_prop ?v ''perspective'' = (case cx_perspective c of None \<Rightarrow> JUndefined | Some p \<Rightarrow> perspective_value p)"
    "js_prop ?v ''investigationId'' = (case cx_investigation c of None \<Rightarrow> JUndefined | Some s \<Rightarrow> JStr s)"
    "js_prop ?v ''datasetFingerprint'' = (case cx_fingerprint c of None \<Rightarrow> JUndefined | Some s \<Rightarrow> JStr s)"
    "js_prop ?v ''scopeId'' = (case cx_scope c of None \<Rightarrow> JUndefined | Some s \<Rightarrow> JStr s)"
    "js_prop ?v ''committedRevision'' = (case cx_committed c of None \<Rightarrow> JUndefined | Some s \<Rightarrow> JNum (Fin s))"
    "js_prop ?v ''runtimeGeneration'' = (case cx_runtime c of None \<Rightarrow> JUndefined | Some s \<Rightarrow> JNum (Fin s))"
    by (simp_all add: context_value_def del: map_of_append) (simp_all split: option.split)
  have persp: "optional_perspective (case cx_perspective c of None \<Rightarrow> JUndefined | Some p \<Rightarrow> perspective_value p) = Inr (cx_perspective c)"
    using perspective_value_canonical
    by (cases "cx_perspective c") (auto simp: optional_perspective_def perspective_value_def)
  have node: "normalize_node_id (JStr (cx_node c)) = Inr (cx_node c)"
    using assms by (simp add: normalize_node_id_def context_canonical_def trimmed_def)
  have "js_is_object ?v" by (simp add: context_value_def)
  then show ?thesis
    using assms
    by (simp add: canonicalize_context_def keys props persp node purpose_value_canonical intent_value_canonical
        optional_value_canonical context_canonical_def Let_def)
qed

text \<open>
  Canonicalising is a normal form. Whatever value is accepted as a committed context, an intent
  or a perspective, its canonical form is accepted again unchanged, so the identity computed from a
  canonical context is the identity of the value it came from.
\<close>

theorem canonical_forms_are_stable:
  "(case canonicalize_context v of Inl e \<Rightarrow> context_identity digest v = Inl e
     | Inr c \<Rightarrow> canonicalize_context (context_value c) = Inr c \<and>
         context_identity digest (context_value c) = context_identity digest v) \<and>
   (case canonicalize_intent w of Inl e \<Rightarrow> intent_identity digest' w = Inl e
     | Inr i \<Rightarrow> canonicalize_intent (intent_value i) = Inr i) \<and>
   canonicalize_perspective (perspective_value p) = Inr p"
  using context_value_canonical [OF canonicalize_context_canonical]
    intent_value_canonical [OF canonicalize_intent_canonical] perspective_value_canonical
  by (auto simp: context_identity_def intent_identity_def split: sum.split)

section \<open>The ledger's invariant\<close>

definition entry_ok :: "context_ledger \<Rightarrow> string \<Rightarrow> nat \<Rightarrow> bool" where
  "entry_ok g k p \<longleftrightarrow> p < length (cl_store g) \<and> cx_node (le_context (cl_store g ! p)) = k \<and> js_trim k = k \<and>
     ac_epoch (le_activation (cl_store g ! p)) \<le> cl_counter g \<and> entry_revision g p \<le> cl_revision g"

definition ledger_ok :: "context_ledger \<Rightarrow> bool" where
  "ledger_ok g \<longleftrightarrow> (\<forall>k p. js_get (cl_entries g) k = Some p \<longrightarrow> entry_ok g k p) \<and>
     (\<forall>k h. js_get (cl_history g) k = Some h \<longrightarrow> (\<forall>p \<in> set h. entry_ok g k p))"

lemma entry_ok_mono:
  assumes "entry_ok g k p" and "cl_counter g \<le> cl_counter g'" and "cl_revision g \<le> cl_revision g'"
    and "cl_store g' = cl_store g @ xs"
  shows "entry_ok g' k p"
  using assms by (auto simp: entry_ok_def entry_revision_def nth_append)

datatype ledger_event =
    LCommit string js_value
  | LActivate string "nat option"
  | LReset
  | LOther

fun ledger_step :: "(inv_context \<Rightarrow> string) \<Rightarrow> context_ledger \<Rightarrow> ledger_event \<Rightarrow> context_ledger" where
  "ledger_step digest g (LCommit node v) = snd (commit digest node v g)"
| "ledger_step digest g (LActivate node rv) = snd (activate node rv g)"
| "ledger_step digest g LReset = reset_ledger g"
| "ledger_step digest g LOther = g\<lparr>cl_counter := Suc (cl_counter g)\<rparr>"

text \<open>The events that change what is active: a reset, and a commit or an activation that returns.\<close>

fun effective :: "(inv_context \<Rightarrow> string) \<Rightarrow> context_ledger \<Rightarrow> ledger_event \<Rightarrow> bool" where
  "effective digest g (LCommit node v) = (case fst (commit digest node v g) of Inl e \<Rightarrow> False | Inr a \<Rightarrow> True)"
| "effective digest g (LActivate node rv) = (case fst (activate node rv g) of Inl e \<Rightarrow> False | Inr a \<Rightarrow> True)"
| "effective digest g LReset = True"
| "effective digest g LOther = False"

lemma canonicalize_context_node:
  "canonicalize_context v = Inr c \<Longrightarrow> normalize_node_id (js_prop v ''nodeId'') = Inr (cx_node c)"
  unfolding canonicalize_context_def
  by (auto simp: bindE_Inr_iff Let_def split: if_splits option.splits)

lemma commit_cases:
  obtains (failed) e where "commit digest node v g =
      (Inl e, g\<lparr>cl_revision := Suc (cl_revision g), cl_counter := Suc (cl_counter g), cl_epoch := Suc (cl_counter g)\<rparr>)"
  | (committed) c a where
      "canonicalize_context (js_with (JObj (own_props v)) ''nodeId'' (JStr node)) = Inr c"
      "a = activation_of c (''sha256-committed-context-v2-'' @ digest c) (Suc (cl_revision g)) (Suc (cl_counter g))"
      "commit digest node v g =
        (Inr a, g\<lparr>cl_revision := Suc (cl_revision g), cl_counter := Suc (cl_counter g), cl_epoch := Suc (cl_counter g),
           cl_store := cl_store g @ [\<lparr>le_context = c, le_id = ''sha256-committed-context-v2-'' @ digest c, le_activation = a\<rparr>],
           cl_entries := js_put (cx_node c) (length (cl_store g)) (cl_entries g),
           cl_history := js_put (cx_node c) (history_of g node @ [length (cl_store g)]) (cl_history g),
           cl_active := Some (cx_node c)\<rparr>)"
      "cx_node c = js_trim node"
proof (cases "canonicalize_context (js_with (JObj (own_props v)) ''nodeId'' (JStr node))")
  case (Inl e)
  then show ?thesis by (intro failed) (simp add: commit_def Let_def)
next
  case (Inr c)
  have "cx_node c = js_trim node"
    using canonicalize_context_node [OF Inr] by (simp add: js_prop_with normalize_node_id_def del: js_with.simps split: if_splits)
  moreover have "context_identity digest (context_value c) = Inr (''sha256-committed-context-v2-'' @ digest c)"
    using context_value_canonical [OF canonicalize_context_canonical [OF Inr]] by (simp add: context_identity_def)
  ultimately show ?thesis
    using Inr by (intro committed [OF Inr refl]) (simp_all add: commit_def Let_def history_of_def)
qed

lemma activate_cases:
  obtains (failed) e where "activate node rv g = (Inl e, g)"
  | (activated) p a where
      "js_get (cl_entries g) node = Some p \<or> p \<in> set (history_of g node)"
      "a = activation_of (le_context (cl_store g ! p)) (le_id (cl_store g ! p)) (entry_revision g p) (Suc (cl_counter g))"
      "activate node rv g =
        (Inr a, g\<lparr>cl_counter := Suc (cl_counter g), cl_epoch := Suc (cl_counter g),
           cl_store := (cl_store g)[p := (cl_store g ! p)\<lparr>le_activation := a\<rparr>],
           cl_entries := js_put node p (cl_entries g),
           cl_active := Some (cx_node (le_context (cl_store g ! p)))\<rparr>)"
proof -
  let ?pick = "case rv of Some r \<Rightarrow> find_revision g r (history_of g node)
    | None \<Rightarrow> Some (case js_get (cl_entries g) node of Some p \<Rightarrow> p | None \<Rightarrow> last (history_of g node))"
  show thesis
  proof (cases "history_of g node = []")
    case True
    then show ?thesis by (intro failed) (simp add: activate_def Let_def)
  next
    case False
    show ?thesis
    proof (cases ?pick)
      case None
      then show ?thesis using False by (intro failed) (simp add: activate_def Let_def)
    next
      case (Some p)
      have "js_get (cl_entries g) node = Some p \<or> p \<in> set (history_of g node)"
        using Some False
        by (auto simp: find_revision_def find_Some_iff split: option.splits)
      then show ?thesis
        by (rule activated [OF _ refl]) (use False Some in \<open>simp add: activate_def Let_def entry_revision_def\<close>)
    qed
  qed
qed

lemma history_entry_ok: "ledger_ok g \<Longrightarrow> p \<in> set (history_of g k) \<Longrightarrow> entry_ok g k p"
  by (cases "js_get (cl_history g) k") (auto simp: ledger_ok_def history_of_def)

lemma picked_entry_ok:
  assumes "ledger_ok g" and "js_get (cl_entries g) k = Some p \<or> p \<in> set (history_of g k)"
  shows "entry_ok g k p"
  using assms(2)
proof
  assume "js_get (cl_entries g) k = Some p"
  with assms(1) show ?thesis unfolding ledger_ok_def by blast
qed (rule history_entry_ok [OF assms(1)])

lemma commit_ok:
  assumes ok: "ledger_ok g" shows "ledger_ok (snd (commit digest node v g))"
proof (cases rule: commit_cases [of digest node v g])
  case (failed e)
  show ?thesis using ok unfolding failed ledger_ok_def
    by (auto intro: entry_ok_mono [where g = g and xs = "[]"])
next
  case (committed c a)
  define g' where "g' = snd (commit digest node v g)"
  let ?g = g' and ?p = "length (cl_store g)"
  have store: "cl_store g' = cl_store g @ [\<lparr>le_context = c, le_id = ''sha256-committed-context-v2-'' @ digest c, le_activation = a\<rparr>]"
    and parts: "cl_counter g' = Suc (cl_counter g)" "cl_revision g' = Suc (cl_revision g)"
      "cl_entries g' = js_put (cx_node c) ?p (cl_entries g)"
      "cl_history g' = js_put (cx_node c) (history_of g node @ [?p]) (cl_history g)"
    by (simp_all add: g'_def committed(3))
  have old: "entry_ok ?g k q" if "entry_ok g k q" for k q
    using that by (rule entry_ok_mono) (simp_all add: store parts)
  have new: "entry_ok ?g (cx_node c) ?p"
    by (simp add: store parts entry_ok_def entry_revision_def committed(2) activation_of_def committed(4))
  have "entry_ok ?g (cx_node c) q" if "q \<in> set (history_of g node)" for q
  proof -
    have "entry_ok g node q" using ok that by (rule history_entry_ok)
    moreover from this have "node = cx_node c" by (simp add: entry_ok_def committed(4))
    ultimately show ?thesis using old by simp
  qed
  with ok old new have "ledger_ok g'"
    unfolding ledger_ok_def by (auto simp: parts js_get_put split: if_splits)
  then show ?thesis by (simp add: g'_def)
qed

lemma activate_ok:
  assumes ok: "ledger_ok g" shows "ledger_ok (snd (activate node rv g))"
proof (cases rule: activate_cases [of node rv g])
  case (failed e)
  then show ?thesis using ok by simp
next
  case (activated p a)
  define g' where "g' = snd (activate node rv g)"
  have p: "entry_ok g node p"
    using ok activated(1) by (rule picked_entry_ok)
  have parts: "cl_store g' = (cl_store g)[p := (cl_store g ! p)\<lparr>le_activation := a\<rparr>]"
      "cl_counter g' = Suc (cl_counter g)" "cl_revision g' = cl_revision g"
      "cl_entries g' = js_put node p (cl_entries g)" "cl_history g' = cl_history g"
    by (simp_all add: g'_def activated(3))
  have "entry_ok g' k q" if "entry_ok g k q" for k q
    using that p
    by (cases "q = p") (simp_all add: parts(1-3) entry_ok_def entry_revision_def activated(2) activation_of_def)
  with ok p have "ledger_ok g'"
    unfolding ledger_ok_def by (auto simp: parts js_get_put split: if_splits)
  then show ?thesis by (simp add: g'_def)
qed

lemma ledger_step_ok: "ledger_ok g \<Longrightarrow> ledger_ok (ledger_step digest g e)"
proof (cases e)
  case LOther
  then show "ledger_ok g \<Longrightarrow> ?thesis"
    by (auto simp: ledger_ok_def intro: entry_ok_mono [where g = g and xs = "[]"])
qed (simp_all add: commit_ok activate_ok, simp add: reset_ledger_def ledger_ok_def)

interpretation ledger_machine: invariant_system "ledger_step digest" ledger_ok for digest
  by unfold_locales (rule ledger_step_ok)

lemma new_ledger_ok: "ledger_ok (new_ledger n)"
  by (simp add: new_ledger_def ledger_ok_def)

subsection \<open>Epochs\<close>

text \<open>Everything active was activated after the counter stood at \<open>n\<close>.\<close>

definition fresh_after :: "nat \<Rightarrow> context_ledger \<Rightarrow> bool" where
  "fresh_after n g \<longleftrightarrow> n \<le> cl_counter g \<and> (\<forall>a. current g = Some a \<longrightarrow> n < ac_epoch a)"

lemma current_after_commit:
  assumes "commit digest node v g = (Inr a, g')"
  shows "current g' = Some a \<and> ac_epoch a = Suc (cl_counter g) \<and> cl_counter g' = Suc (cl_counter g)"
proof (cases rule: commit_cases [of digest node v g])
  case (failed e)
  with assms show ?thesis by simp
next
  case (committed c b)
  with assms show ?thesis
    by (auto simp: current_def get_activation_def js_get_put activation_of_def)
qed

lemma current_after_activate:
  assumes "ledger_ok g" and "activate node rv g = (Inr a, g')"
  shows "current g' = Some a \<and> ac_epoch a = Suc (cl_counter g) \<and> cl_counter g' = Suc (cl_counter g)"
proof (cases rule: activate_cases [of node rv g])
  case (failed e)
  with assms show ?thesis by simp
next
  case (activated p b)
  have "entry_ok g node p"
    using assms(1) activated(1) by (rule picked_entry_ok)
  then have p: "p < length (cl_store g)" "cx_node (le_context (cl_store g ! p)) = node"
    by (simp_all add: entry_ok_def)
  from activated(3) assms(2) have "a = b" "cl_store g' = (cl_store g)[p := (cl_store g ! p)\<lparr>le_activation := b\<rparr>]"
    "cl_entries g' = js_put node p (cl_entries g)" "cl_active g' = Some node" "cl_counter g' = Suc (cl_counter g)"
    using p(2) by auto
  moreover have "ac_epoch b = Suc (cl_counter g)" by (simp add: activated(2) activation_of_def)
  ultimately show ?thesis
    using p(1) by (simp add: current_def get_activation_def js_get_put)
qed

lemma failed_commit: "fst (commit digest node v g) = Inl e \<Longrightarrow> current (snd (commit digest node v g)) = current g"
  by (cases rule: commit_cases [of digest node v g])
    (simp_all add: current_def get_activation_def split: option.split)

lemma failed_activate: "fst (activate node rv g) = Inl e \<Longrightarrow> current (snd (activate node rv g)) = current g"
  by (cases rule: activate_cases [of node rv g]) simp_all

lemma other_current: "current (g\<lparr>cl_counter := n\<rparr>) = current g"
  by (simp add: current_def get_activation_def split: option.split)

lemma unchanged_current: "\<not> effective digest g e \<Longrightarrow> current (ledger_step digest g e) = current g"
  by (cases e) (auto simp: failed_commit failed_activate other_current split: sum.splits)

lemma commit_counter: "cl_counter (snd (commit digest node v g)) = Suc (cl_counter g)"
  by (cases rule: commit_cases [of digest node v g]) simp_all

lemma activate_counter: "cl_counter g \<le> cl_counter (snd (activate node rv g))"
  by (cases rule: activate_cases [of node rv g]) simp_all

lemma counter_mono: "cl_counter g \<le> cl_counter (ledger_step digest g e)"
  by (cases e) (simp_all add: commit_counter activate_counter reset_ledger_def)

lemma effective_fresh:
  assumes "ledger_ok g" and "effective digest g e" and "n \<le> cl_counter g"
  shows "fresh_after n (ledger_step digest g e)"
proof (cases e)
  case (LCommit node v)
  then obtain a g' where "commit digest node v g = (Inr a, g')"
    using assms(2) by (cases "commit digest node v g") (auto split: sum.splits)
  with current_after_commit [OF this] assms(3) LCommit show ?thesis by (simp add: fresh_after_def)
next
  case (LActivate node rv)
  then obtain a g' where "activate node rv g = (Inr a, g')"
    using assms(2) by (cases "activate node rv g") (auto split: sum.splits)
  with current_after_activate [OF assms(1) this] assms(3) LActivate show ?thesis by (simp add: fresh_after_def)
next
  case LReset
  with assms(3) show ?thesis by (simp add: fresh_after_def reset_ledger_def current_def)
qed (use assms(2) in simp)

lemma step_fresh:
  assumes "ledger_ok g" and "fresh_after n g"
  shows "fresh_after n (ledger_step digest g e)"
proof (cases "effective digest g e")
  case True
  then show ?thesis using effective_fresh assms by (auto simp: fresh_after_def)
next
  case False
  then show ?thesis
    using assms(2) unchanged_current counter_mono [of g digest e] by (auto simp: fresh_after_def)
qed

lemma run_fresh:
  assumes "ledger_ok g" and "fresh_after n g"
  shows "fresh_after n (run (ledger_step digest) g es)"
  using assms by (induction es arbitrary: g) (auto simp: step_fresh ledger_step_ok)

lemma run_counter_mono: "cl_counter g \<le> cl_counter (run (ledger_step digest) g es)"
proof (induction es arbitrary: g)
  case (Cons e es)
  show ?case using Cons.IH [of "ledger_step digest g e"] counter_mono [of g digest e] by simp
qed simp

lemma current_epoch_bound: "ledger_ok g \<Longrightarrow> current g = Some a \<Longrightarrow> ac_epoch a \<le> cl_counter g"
  by (auto simp: current_def get_activation_def ledger_ok_def entry_ok_def split: option.splits)

subsection \<open>Revisions\<close>

definition unique_revisions :: "context_ledger \<Rightarrow> bool" where
  "unique_revisions g \<longleftrightarrow> (\<forall>k. distinct (map (entry_revision g) (history_of g k)))"

text \<open>The entry at \<open>p\<close> of a node's history carries a context and a revision.\<close>

definition carries :: "context_ledger \<Rightarrow> string \<Rightarrow> nat \<Rightarrow> inv_context \<Rightarrow> nat \<Rightarrow> bool" where
  "carries g k p c rv \<longleftrightarrow> p \<in> set (history_of g k) \<and> le_context (cl_store g ! p) = c \<and> entry_revision g p = rv"

fun keeps_history :: "ledger_event \<Rightarrow> bool" where
  "keeps_history (LCommit node v) \<longleftrightarrow> js_trim node = node"
| "keeps_history (LActivate node rv) \<longleftrightarrow> True"
| "keeps_history LReset \<longleftrightarrow> False"
| "keeps_history LOther \<longleftrightarrow> True"

lemma commit_history:
  assumes ok: "ledger_ok g" and "commit digest node v g = (Inr a, g')"
  shows "cl_store g' = cl_store g @ [cl_store g' ! length (cl_store g)] \<and>
    entry_revision g' (length (cl_store g)) = Suc (cl_revision g) \<and> ac_revision a = Suc (cl_revision g) \<and>
    ac_node a = js_trim node \<and>
    canonicalize_context (js_with (JObj (own_props v)) ''nodeId'' (JStr node)) = Inr (le_context (cl_store g' ! length (cl_store g))) \<and>
    (\<forall>k. history_of g' k = (if k = js_trim node then history_of g node @ [length (cl_store g)] else history_of g k))"
proof (cases rule: commit_cases [of digest node v g])
  case (failed e)
  with assms show ?thesis by simp
next
  case (committed c b)
  let ?new = "\<lparr>le_context = c, le_id = ''sha256-committed-context-v2-'' @ digest c, le_activation = b\<rparr>"
  have eq: "(Inr a, g') = commit digest node v g" using assms(2) by simp
  have parts: "a = b" "cl_store g' = cl_store g @ [?new]"
    "cl_history g' = js_put (js_trim node) (history_of g node @ [length (cl_store g)]) (cl_history g)"
    using eq unfolding committed(3) committed(4) by simp_all
  moreover have "ac_revision b = Suc (cl_revision g)" "ac_node b = js_trim node"
    by (simp_all only: committed(2) activation_of_def activation.simps committed(4))
  moreover have "history_of g' k = (if k = js_trim node then history_of g node @ [length (cl_store g)] else history_of g k)" for k
    by (simp add: history_of_def [of g'] parts(3) js_get_put history_of_def [of g k])
  ultimately show ?thesis using committed(1) by (simp add: entry_revision_def del: js_with.simps)
qed

lemma old_revision:
  assumes "cl_store g' = cl_store g @ xs" and "p < length (cl_store g)"
  shows "entry_revision g' p = entry_revision g p" and "cl_store g' ! p = cl_store g ! p"
  using assms by (simp_all add: entry_revision_def nth_append)

lemma commit_unique:
  assumes ok: "ledger_ok g" and u: "unique_revisions g" and c: "commit digest node v g = (Inr a, g')"
  shows "unique_revisions g'"
  unfolding unique_revisions_def
proof
  fix k
  let ?n = "length (cl_store g)"
  note h = commit_history [OF ok c]
  have lt: "p < ?n \<and> entry_revision g p \<le> cl_revision g" if "p \<in> set (history_of g k')" for p k'
    using history_entry_ok [OF ok that] by (simp add: entry_ok_def)
  have same: "map (entry_revision g') (history_of g k') = map (entry_revision g) (history_of g k')" for k'
    using h lt old_revision(1) [of g' g] by (intro map_cong) auto
  have "Suc (cl_revision g) \<notin> set (map (entry_revision g') (history_of g node))"
    unfolding same using lt by fastforce
  moreover have "distinct (map (entry_revision g') (history_of g k'))" for k'
    unfolding same using u by (simp only: unique_revisions_def)
  ultimately show "distinct (map (entry_revision g') (history_of g' k))"
    using h by simp
qed

lemma failed_commit_parts:
  "fst (commit digest node v g) = Inl e \<Longrightarrow> cl_store (snd (commit digest node v g)) = cl_store g \<and>
    cl_history (snd (commit digest node v g)) = cl_history g"
  by (cases rule: commit_cases [of digest node v g]) simp_all

lemma activate_revisions:
  "cl_history (snd (activate node rv g)) = cl_history g \<and>
   entry_revision (snd (activate node rv g)) p = entry_revision g p \<and>
   le_context (cl_store (snd (activate node rv g)) ! p) = le_context (cl_store g ! p)"
proof (cases rule: activate_cases [of node rv g])
  case (activated q a)
  show ?thesis
    by (cases "p = q"; cases "q < length (cl_store g)")
      (simp_all add: activated entry_revision_def activation_of_def list_update_beyond)
qed simp

lemma same_history:
  assumes "cl_history g' = cl_history g" and "\<And>p. entry_revision g' p = entry_revision g p"
    and "\<And>p. le_context (cl_store g' ! p) = le_context (cl_store g ! p)"
  shows "unique_revisions g' = unique_revisions g" and "carries g' k p c rv = carries g k p c rv"
proof -
  have "entry_revision g' = entry_revision g" "history_of g' = history_of g"
    using assms(1,2) by (auto simp: history_of_def)
  then show "unique_revisions g' = unique_revisions g" "carries g' k p c rv = carries g k p c rv"
    using assms(3) by (simp_all add: unique_revisions_def carries_def)
qed

lemma ledger_step_revisions:
  assumes ok: "ledger_ok g" and u: "unique_revisions g"
  shows "unique_revisions (ledger_step digest g e)"
    and "keeps_history e \<Longrightarrow> carries g k p c rv \<Longrightarrow> carries (ledger_step digest g e) k p c rv"
proof -
  have "unique_revisions (ledger_step digest g e) \<and>
      (keeps_history e \<longrightarrow> carries g k p c rv \<longrightarrow> carries (ledger_step digest g e) k p c rv)"
  proof (cases e)
    case (LCommit node v)
    show ?thesis
    proof (cases "fst (commit digest node v g)")
      case (Inl x)
      note parts = failed_commit_parts [OF Inl]
      show ?thesis
        using u same_history [of "snd (commit digest node v g)" g] parts LCommit by (simp add: entry_revision_def)
    next
      case (Inr a)
      then obtain g' where c: "commit digest node v g = (Inr a, g')" by (metis prod.collapse)
      note h = commit_history [OF ok c]
      have "carries g' k p c' rv" if "carries g k p c' rv" "js_trim node = node" for c'
      proof -
        have "p < length (cl_store g)"
          using that(1) history_entry_ok [OF ok, of p k] by (simp add: carries_def entry_ok_def)
        then show ?thesis
          using that h old_revision [of g' g _ p] by (auto simp: carries_def) metis+
      qed
      then show ?thesis using commit_unique [OF ok u c] c LCommit by simp
    qed
  next
    case (LActivate node r)
    then show ?thesis
      using u same_history [of "snd (activate node r g)" g] activate_revisions [of node r g] by simp
  next
    case LReset
    then show ?thesis by (simp add: unique_revisions_def reset_ledger_def history_of_def)
  next
    case LOther
    then show ?thesis using u same_history [of "g\<lparr>cl_counter := Suc (cl_counter g)\<rparr>" g] by (simp add: entry_revision_def)
  qed
  then show "unique_revisions (ledger_step digest g e)"
    and "keeps_history e \<Longrightarrow> carries g k p c rv \<Longrightarrow> carries (ledger_step digest g e) k p c rv" by blast+
qed

lemma find_carried:
  assumes "unique_revisions g" and "carries g k p c rv"
  shows "find_revision g rv (history_of g k) = Some p"
proof -
  let ?h = "history_of g k"
  have p: "p \<in> set ?h" "entry_revision g p = rv" using assms(2) by (simp_all add: carries_def)
  then obtain q where q: "find_revision g rv ?h = Some q"
    by (cases "find_revision g rv ?h") (auto simp: find_revision_def find_None_iff)
  then have "q \<in> set ?h" "entry_revision g q = rv" by (auto simp: find_revision_def find_Some_iff)
  moreover have "inj_on (entry_revision g) (set ?h)"
    using assms(1) by (simp add: unique_revisions_def distinct_map)
  ultimately show ?thesis using p q by (auto dest: inj_onD)
qed

lemma new_ledger_unique: "unique_revisions (new_ledger n)"
  by (simp add: unique_revisions_def new_ledger_def history_of_def)

lemma run_revisions:
  assumes "ledger_ok g" and "unique_revisions g"
  shows "unique_revisions (run (ledger_step digest) g es)"
    and "list_all keeps_history es \<Longrightarrow> carries g k p c rv \<Longrightarrow> carries (run (ledger_step digest) g es) k p c rv"
  using assms
proof (induction es arbitrary: g)
  case (Cons e es)
  { case 1 then show ?case using Cons.IH(1) [of "ledger_step digest g e"] by (simp add: ledger_step_ok ledger_step_revisions) }
  { case 2 then show ?case using Cons.IH(2) [of "ledger_step digest g e"] by (simp add: ledger_step_ok ledger_step_revisions) }
qed simp_all

section \<open>Properties\<close>

text \<open>
  C29: stale adoption is always detected. A binding captured from the ledger is refused after any
  history that contains a commit or an activation that returned, or a reset, whatever was activated
  before and whatever is activated afterwards, on this ledger or another one.
\<close>

theorem stale_bindings_refused:
  assumes "current_binding (run (ledger_step digest) (new_ledger n) es0) = Some b"
    and "effective digest (run (ledger_step digest) (new_ledger n) (es0 @ es1)) e"
  shows "check_compatibility b (current (run (ledger_step digest) (new_ledger n) (es0 @ es1 @ e # es2))) \<noteq> None"
proof -
  let ?run = "run (ledger_step digest)" and ?g0 = "run (ledger_step digest) (new_ledger n) es0"
  have ok: "ledger_ok (?run (new_ledger n) es)" for es
    by (rule ledger_machine.run_inv [OF new_ledger_ok])
  obtain a where a: "current ?g0 = Some a" "b = binding_of a"
    using assms(1) by (auto simp: current_binding_def)
  let ?g1 = "?run (new_ledger n) (es0 @ es1)"
  have le: "cl_counter ?g0 \<le> cl_counter ?g1"
    using run_counter_mono [of ?g0 digest es1] by (simp add: run_append)
  have "fresh_after (cl_counter ?g0) (?run (ledger_step digest ?g1 e) es2)"
    by (intro run_fresh ledger_step_ok effective_fresh assms(2) ok le)
  moreover have "ac_epoch a \<le> cl_counter ?g0" by (rule current_epoch_bound [OF ok a(1)])
  moreover have "?run (new_ledger n) (es0 @ es1 @ e # es2) = ?run (ledger_step digest ?g1 e) es2"
    by (simp add: run_append)
  ultimately show ?thesis
    by (force simp: a(2) fresh_after_def check_compatibility_def binding_of_def Let_def split: option.split)
qed

definition sample_context :: js_value where
  "sample_context = JObj [(''schemaVersion'', js_int 2), (''epistemicPurpose'', JStr ''CLAIM_BEARING''),
     (''intent'', JObj [(''schemaVersion'', js_int 1)])]"

definition sample_committed :: "string \<Rightarrow> inv_context" where
  "sample_committed node = \<lparr>cx_node = node, cx_purpose = ClaimBearing,
     cx_intent = \<lparr>it_question = None, it_hypothesis = None, it_task = None, it_variables = None\<rparr>,
     cx_perspective = None, cx_investigation = None, cx_fingerprint = None, cx_scope = None,
     cx_committed = None, cx_runtime = None\<rparr>"

definition sample_digest :: "inv_context \<Rightarrow> string" where
  "sample_digest c = cx_node c"

theorem stale_bindings_refused_witness:
  "let g = run (ledger_step sample_digest) (new_ledger 0) [LCommit ''a'' sample_context]
   in current_binding g \<noteq> None \<and>
     check_compatibility (the (current_binding g))
       (current (run (ledger_step sample_digest) (new_ledger 0) [LCommit ''a'' sample_context, LActivate ''a'' None])) \<noteq> None"
proof -
  let ?es = "[LCommit ''a'' sample_context]"
  define g where "g = run (ledger_step sample_digest) (new_ledger 0) ?es"
  have b: "current_binding g \<noteq> None" unfolding g_def by code_simp
  then have s: "current_binding (run (ledger_step sample_digest) (new_ledger 0) ?es) = Some (the (current_binding g))"
    by (simp add: g_def)
  have e: "effective sample_digest (run (ledger_step sample_digest) (new_ledger 0) (?es @ [])) (LActivate ''a'' None)"
    by code_simp
  from stale_bindings_refused [OF s e, of "[]"] b show ?thesis unfolding g_def [symmetric] Let_def by simp
qed

text \<open>
  What was committed can be found again. After a commit, and as long as no reset happens and node
  ids are committed without surrounding white space, the revision the commit returned still names the
  context it committed, and that revision can be activated.
\<close>

theorem committed_revision_retrievable:
  assumes "g = run (ledger_step digest) (new_ledger n) es0"
    and "commit digest node v g = (Inr a, g')" and "js_trim node = node"
    and "list_all keeps_history es"
  shows "\<exists>c. canonicalize_context (js_with (JObj (own_props v)) ''nodeId'' (JStr node)) = Inr c \<and>
    get_committed node (Some (ac_revision a)) (run (ledger_step digest) g' es) = Some c \<and>
    (\<exists>a' g''. activate node (Some (ac_revision a)) (run (ledger_step digest) g' es) = (Inr a', g'') \<and>
       ac_revision a' = ac_revision a \<and> current g'' = Some a')"
proof -
  have ok: "ledger_ok g" and u: "unique_revisions g"
    unfolding assms(1) by (rule ledger_machine.run_inv [OF new_ledger_ok], rule run_revisions(1) [OF new_ledger_ok new_ledger_unique])
  note h = commit_history [OF ok assms(2)]
  let ?p = "length (cl_store g)" and ?s = "run (ledger_step digest) g' es"
  let ?c = "le_context (cl_store g' ! ?p)"
  have ok': "ledger_ok g'" and u': "unique_revisions g'"
    using commit_ok [OF ok, of digest node v] commit_unique [OF ok u assms(2)] assms(2) by simp_all
  have "carries g' node ?p ?c (ac_revision a)"
    using h assms(3) by (simp add: carries_def)
  then have s: "carries ?s node ?p ?c (ac_revision a)" and us: "unique_revisions ?s"
    using run_revisions [OF ok' u'] assms(4) by blast+
  have oks: "ledger_ok ?s" by (rule ledger_machine.run_inv [OF ok'])
  note found = find_carried [OF us s]
  have ne: "history_of ?s node \<noteq> []" using s by (auto simp: carries_def)
  obtain a' g'' where act: "activate node (Some (ac_revision a)) ?s = (Inr a', g'')"
    and rv: "ac_revision a' = entry_revision ?s ?p"
    using found ne by (simp add: activate_def Let_def activation_of_def entry_revision_def)
  have "get_committed node (Some (ac_revision a)) ?s = Some ?c"
    using found s by (simp add: get_committed_def carries_def)
  moreover have "ac_revision a' = ac_revision a" using rv s by (simp add: carries_def)
  ultimately show ?thesis
    using h act current_after_activate [OF oks act] by blast
qed

theorem committed_revision_retrievable_witness:
  "let (r, g) = commit sample_digest ''a'' sample_context (new_ledger 0)
   in get_committed ''a'' (Some 1) (run (ledger_step sample_digest) g
        [LCommit ''a'' sample_context, LActivate ''a'' None]) = Some (sample_committed ''a'')"
proof -
  let ?es = "[LCommit ''a'' sample_context, LActivate ''a'' None]"
  obtain r g where c: "commit sample_digest ''a'' sample_context (new_ledger 0) = (r, g)" by (metis prod.exhaust)
  have "case fst (commit sample_digest ''a'' sample_context (new_ledger 0)) of Inl e \<Rightarrow> False | Inr a \<Rightarrow> ac_revision a = 1"
    by code_simp
  then obtain a where r: "r = Inr a" "ac_revision a = 1" using c by (auto split: sum.splits)
  have t: "js_trim ''a'' = ''a''" "list_all keeps_history ?es" by code_simp+
  have v: "canonicalize_context (js_with (JObj (own_props sample_context)) ''nodeId'' (JStr ''a'')) = Inr (sample_committed ''a'')"
    by code_simp
  have "commit sample_digest ''a'' sample_context (run (ledger_step sample_digest) (new_ledger 0) []) = (Inr a, g)"
    using c r by simp
  from committed_revision_retrievable [OF refl this t] v c r show ?thesis by auto
qed

text \<open>
  A commit under an id with surrounding white space succeeds under the trimmed id but starts its
  history afresh: the revisions committed before are no longer listed and cannot be activated.
\<close>

theorem padded_commit_drops_history:
  "let g = run (ledger_step digest) (new_ledger n) [LCommit ''a'' sample_context, LCommit ''a'' sample_context];
       (r, g') = commit digest '' a'' sample_context g
   in length (get_revisions ''a'' g) = 2 \<and> (\<exists>a. r = Inr a \<and> ac_node a = ''a'') \<and>
     length (get_revisions ''a'' g') = 1 \<and> get_committed ''a'' (Some 1) g' = None \<and>
     (\<exists>e. activate ''a'' (Some 1) g' = (Inl e, g'))"
proof -
  have c: "canonicalize_context (js_with (JObj (own_props sample_context)) ''nodeId'' (JStr ''a'')) = Inr (sample_committed ''a'')"
    "canonicalize_context (js_with (JObj (own_props sample_context)) ''nodeId'' (JStr '' a'')) = Inr (sample_committed ''a'')"
    "canonicalize_context (context_value (sample_committed ''a'')) = Inr (sample_committed ''a'')"
    by code_simp+
  have i: "context_identity digest (context_value (sample_committed ''a'')) = Inr (''sha256-committed-context-v2-'' @ digest (sample_committed ''a''))"
    by (simp add: context_identity_def c)
  have node: "cx_node (sample_committed ''a'') = ''a''" by (simp add: sample_committed_def)
  show ?thesis
    by (simp add: commit_def c i Let_def new_ledger_def history_of_def get_revisions_def get_committed_def
        activate_def find_revision_def entry_revision_def node activation_of_def del: js_with.simps own_props.simps)
qed

end
