(* ===== verification/Moneta_Requirements.thy ===== *)
theory Moneta_Requirements
  imports Moneta_Ontology Committed_Context
begin

text \<open>
  What an investigator asks of a representation: tasks, required structures, preservation goals and
  budgets (\<open>src/moneta/representation/RepresentationRequirements.ts\<close>) with their defaults per task
  and the runtime checks, and the authority contract of source relationship graphs
  (\<open>RelationshipGraphAuthority.ts\<close>). The schema library is external: \<open>parse\<close> is a parameter, and
  \<open>requirements_schema\<close> states what the declared schema admits of a typed value.
\<close>

section \<open>Source relationship graphs\<close>

definition graph_max_nodes :: int where "graph_max_nodes = 4096"
definition graph_max_edges :: int where "graph_max_edges = 16384"
definition graph_max_bytes :: int where "graph_max_bytes = 2 * 1024 * 1024"

datatype directionality = Directed | Undirected

fun directionality_name :: "directionality \<Rightarrow> string" where
  "directionality_name Directed = ''DIRECTED''"
| "directionality_name Undirected = ''UNDIRECTED''"

definition source_graph_authority :: "directionality \<Rightarrow> js_value" where
  "source_graph_authority d = JObj
     [(''kind'', JStr ''SOURCE_EDGES''), (''directionality'', JStr (directionality_name d)),
      (''nodeIdentity'', JStr ''DATASET_ROW''), (''missingEndpointPolicy'', JStr ''REFUSE''),
      (''parallelEdgePolicy'', JStr ''PRESERVE''), (''selfLoopPolicy'', JStr ''PRESERVE'')]"

definition authority_keys :: "string list" where
  "authority_keys = [''kind'', ''directionality'', ''nodeIdentity'', ''missingEndpointPolicy'',
     ''parallelEdgePolicy'', ''selfLoopPolicy'']"

definition contract_error :: "string \<Rightarrow> string" where
  "contract_error m = ''SourceRelationshipGraphAuthority: '' @ m"

definition validate_graph_authority :: "js_value \<Rightarrow> string + js_value" where
  "validate_graph_authority v =
     (if \<not> js_is_object v then Inl (contract_error ''authority must be an object'')
      else case unknown_key authority_keys v of
        Some k \<Rightarrow> Inl (contract_error (''unknown authority field '' @ k))
      | None \<Rightarrow>
          if js_prop v ''kind'' \<noteq> JStr ''SOURCE_EDGES'' then Inl (contract_error ''kind must be SOURCE_EDGES'')
          else if js_prop v ''directionality'' \<noteq> JStr ''DIRECTED'' \<and> js_prop v ''directionality'' \<noteq> JStr ''UNDIRECTED''
            then Inl (contract_error ''directionality must be DIRECTED or UNDIRECTED'')
          else if js_prop v ''nodeIdentity'' \<noteq> JStr ''DATASET_ROW''
            then Inl (contract_error ''nodeIdentity must be DATASET_ROW'')
          else if js_prop v ''missingEndpointPolicy'' \<noteq> JStr ''REFUSE''
            then Inl (contract_error ''missingEndpointPolicy must be REFUSE in V1'')
          else if js_prop v ''parallelEdgePolicy'' \<noteq> JStr ''PRESERVE''
            then Inl (contract_error ''parallelEdgePolicy must be PRESERVE in V1'')
          else if js_prop v ''selfLoopPolicy'' \<noteq> JStr ''PRESERVE''
            then Inl (contract_error ''selfLoopPolicy must be PRESERVE in V1'')
          else Inr v)"

definition safe_count :: "js_number \<Rightarrow> bool" where
  "safe_count n \<longleftrightarrow> is_safe_integer n \<and> num_le (Fin 0) n"

definition validate_endpoint :: "js_value \<Rightarrow> string + js_value" where
  "validate_endpoint v = (case v of
     JNum n \<Rightarrow> if safe_count n then Inr v
       else Inl (contract_error ''numeric endpoints must be non-negative safe-integer source-row positions'')
   | JStr s \<Rightarrow> if s = [] \<or> js_trim s \<noteq> s
       then Inl (contract_error ''string endpoints must be non-empty durable row IDs without surrounding whitespace'')
       else Inr v
   | _ \<Rightarrow> Inl (contract_error ''endpoints must be numeric row positions or durable string row IDs''))"

text \<open>\<open>Some e\<close> is a thrown error; the limits render the counts in the source.\<close>

definition resource_envelope_error :: "js_number \<Rightarrow> js_number \<Rightarrow> js_number option \<Rightarrow> string option" where
  "resource_envelope_error nodes edges bytes =
     (if \<not> safe_count nodes then Some (contract_error ''nodeCount must be a non-negative safe integer'')
      else if \<not> safe_count edges then Some (contract_error ''edgeCount must be a non-negative safe integer'')
      else if \<not> num_le nodes (Fin (of_int graph_max_nodes)) then Some (contract_error ''node count exceeds V1 limit'')
      else if \<not> num_le edges (Fin (of_int graph_max_edges)) then Some (contract_error ''edge count exceeds V1 limit'')
      else case bytes of None \<Rightarrow> None
        | Some b \<Rightarrow>
            if \<not> safe_count b then Some (contract_error ''payloadBytes must be a non-negative safe integer when supplied'')
            else if \<not> num_le b (Fin (of_int graph_max_bytes)) then Some (contract_error ''payload bytes exceeds V1 limit'')
            else None)"

section \<open>Requirements\<close>

datatype task = Overview | DistributionAnalysis | ClusterComparison | RelationshipDiscovery
  | AnomalyDetection | TemporalAnalysis | SpatialAnalysis | HierarchicalExploration
  | IndividualInspection | GroupComparison | PatternDiscovery | TraceLineage | Explore
  | TemporalTrend | CompareClusters | IdentifyOutliers | SpatialProximity

fun task_name :: "task \<Rightarrow> string" where
  "task_name Overview = ''overview''"
| "task_name DistributionAnalysis = ''distribution-analysis''"
| "task_name ClusterComparison = ''cluster-comparison''"
| "task_name RelationshipDiscovery = ''relationship-discovery''"
| "task_name AnomalyDetection = ''anomaly-detection''"
| "task_name TemporalAnalysis = ''temporal-analysis''"
| "task_name SpatialAnalysis = ''spatial-analysis''"
| "task_name HierarchicalExploration = ''hierarchical-exploration''"
| "task_name IndividualInspection = ''individual-inspection''"
| "task_name GroupComparison = ''group-comparison''"
| "task_name PatternDiscovery = ''pattern-discovery''"
| "task_name TraceLineage = ''trace-lineage''"
| "task_name Explore = ''explore''"
| "task_name TemporalTrend = ''temporal-trend''"
| "task_name CompareClusters = ''compare-clusters''"
| "task_name IdentifyOutliers = ''identify-outliers''"
| "task_name SpatialProximity = ''spatial-proximity''"

datatype structure_type = StDistribution | StClusterSeparation | StDensity | StTemporalOrder | StPeriodicity
  | StManifold | StHierarchy | StConnectivity | StAnomalyVisibility | StObservationIdentity | StGroupComparison

record structure_requirement =
  sr_type :: structure_type
  sr_importance :: rat

datatype observation_level = Individual | Group | Population | Structural

record analytical_intent =
  ai_task :: task
  ai_structures :: "structure_requirement list"
  ai_level :: observation_level

datatype goal_priority = Critical | Desired | Optional

record preservation_goal =
  pg_information :: information
  pg_priority :: goal_priority

record loss_budget =
  lb_identity :: bool
  lb_exact_metric :: bool
  lb_cluster :: bool
  lb_frustum :: rat

datatype device_tier = Quest2 | Quest3 | QuestPro | Desktop

record hardware_constraint =
  hw_max_vertices :: "rat option"
  hw_max_draw_calls :: "rat option"
  hw_target_frame_rate :: "rat option"
  hw_low_power :: "bool option"
  hw_tier :: "device_tier option"
  hw_target_fps :: "rat option"
  hw_max_elements :: "rat option"
  hw_instanced :: "bool option"

record dimensionality =
  dm_axes :: rat
  dm_focus :: "string list"

record disclosure_level =
  dv_level :: rat
  dv_distance :: rat
  dv_reveals :: "string list"

record disclosure =
  ds_enabled :: bool
  ds_levels :: "disclosure_level list"

datatype aggregate_function = ACount | ASum | AMean | AMin | AMax

record aggregate_semantics =
  ag_grouping :: string
  ag_field :: "string option"
  ag_function :: aggregate_function

datatype scale = Small | Medium | Large | Massive
datatype interaction_budget = LowBudget | MediumBudget | HighBudget

text \<open>
  \<open>clusterAuthority\<close> is its only free field. A graph authority stays an untyped value, because the
  engine validates it again with all its keys.
\<close>

record requirements =
  rq_task :: task
  rq_dimensions :: "string list option"
  rq_goal :: "string option"
  rq_structures :: "structure_requirement list"
  rq_goals :: "preservation_goal list"
  rq_loss :: loss_budget
  rq_scale :: scale
  rq_hardware :: hardware_constraint
  rq_dimensionality :: "dimensionality option"
  rq_disclosure :: "disclosure option"
  rq_cluster :: "string option"
  rq_graph :: "js_value option"
  rq_aggregate :: "aggregate_semantics option"
  rq_frustum :: rat
  rq_budget :: interaction_budget
  rq_context :: "inv_context option"
  rq_intent :: "inv_intent option"
  rq_perspective :: "perspective option"

section \<open>The declared schema\<close>

definition unit_interval :: "rat \<Rightarrow> bool" where
  "unit_interval x \<longleftrightarrow> 0 \<le> x \<and> x \<le> 1"

definition integer_between :: "rat \<Rightarrow> rat \<Rightarrow> bool" where
  "integer_between lo x \<longleftrightarrow> of_int \<lfloor>x\<rfloor> = x \<and> lo \<le> x"

definition hardware_schema :: "hardware_constraint \<Rightarrow> bool" where
  "hardware_schema h \<longleftrightarrow> pred_option (\<lambda>x. 0 \<le> x) (hw_target_fps h) \<and>
     pred_option (\<lambda>x. 0 \<le> x) (hw_target_frame_rate h) \<and> pred_option (integer_between 1) (hw_max_elements h) \<and>
     pred_option (integer_between 1) (hw_max_vertices h) \<and> pred_option (integer_between 1) (hw_max_draw_calls h)"

definition structure_schema :: "structure_requirement \<Rightarrow> bool" where
  "structure_schema r \<longleftrightarrow> unit_interval (sr_importance r)"

definition graph_schema :: "js_value \<Rightarrow> bool" where
  "graph_schema v \<longleftrightarrow> js_is_object v \<and> set (js_own_keys v) \<subseteq> set authority_keys \<and>
     js_prop v ''kind'' = JStr ''SOURCE_EDGES'' \<and>
     js_prop v ''directionality'' \<in> {JStr ''DIRECTED'', JStr ''UNDIRECTED''} \<and>
     js_prop v ''nodeIdentity'' = JStr ''DATASET_ROW'' \<and> js_prop v ''missingEndpointPolicy'' = JStr ''REFUSE'' \<and>
     js_prop v ''parallelEdgePolicy'' = JStr ''PRESERVE'' \<and> js_prop v ''selfLoopPolicy'' = JStr ''PRESERVE''"

definition aggregate_schema :: "aggregate_semantics \<Rightarrow> bool" where
  "aggregate_schema a \<longleftrightarrow> ag_grouping a \<noteq> [] \<and> ag_field a \<noteq> Some []"

definition dimensionality_schema :: "dimensionality \<Rightarrow> bool" where
  "dimensionality_schema d \<longleftrightarrow> integer_between 1 (dm_axes d) \<and> dm_axes d \<le> 3"

definition disclosure_schema :: "disclosure \<Rightarrow> bool" where
  "disclosure_schema d \<longleftrightarrow> list_all (\<lambda>l. integer_between 0 (dv_level l) \<and> 0 \<le> dv_distance l) (ds_levels d)"

text \<open>The strict schema has no entry for the committed context, the intent or the perspective.\<close>

definition requirements_schema :: "requirements \<Rightarrow> bool" where
  "requirements_schema r \<longleftrightarrow> list_all structure_schema (rq_structures r) \<and> unit_interval (lb_frustum (rq_loss r)) \<and>
     hardware_schema (rq_hardware r) \<and> pred_option dimensionality_schema (rq_dimensionality r) \<and>
     pred_option disclosure_schema (rq_disclosure r) \<and> rq_cluster r \<noteq> Some [] \<and>
     pred_option graph_schema (rq_graph r) \<and> pred_option aggregate_schema (rq_aggregate r) \<and>
     unit_interval (rq_frustum r) \<and>
     rq_context r = None \<and> rq_intent r = None \<and> rq_perspective r = None"

section \<open>Runtime checks\<close>

definition aggregate_error :: "aggregate_semantics \<Rightarrow> string option" where
  "aggregate_error a =
     (if \<not> aggregate_schema a then Some ''schema''
      else if js_trim (ag_grouping a) \<noteq> ag_grouping a
        then Some ''RepresentationRequirements: aggregate groupingField must not contain surrounding whitespace''
      else if (case ag_field a of None \<Rightarrow> False | Some f \<Rightarrow> js_trim f \<noteq> f)
        then Some ''RepresentationRequirements: aggregate measure field must not contain surrounding whitespace''
      else if ag_function a = ACount \<and> ag_field a \<noteq> None
        then Some ''RepresentationRequirements: COUNT aggregate must not declare a measure field''
      else if ag_function a \<noteq> ACount \<and> ag_field a = None
        then Some ''RepresentationRequirements: non-COUNT aggregate requires an explicit measure field''
      else if ag_field a = Some (ag_grouping a)
        then Some ''RepresentationRequirements: aggregate grouping and measure fields must be distinct''
      else None)"

fun duplicate_level :: "rat list \<Rightarrow> disclosure_level list \<Rightarrow> bool" where
  "duplicate_level seen [] = False"
| "duplicate_level seen (l # ls) =
     (if dv_level l \<in> set seen then True else duplicate_level (js_add (dv_level l) seen) ls)"

definition declared_dimensions :: "requirements \<Rightarrow> string list" where
  "declared_dimensions r = (case rq_dimensions r of None \<Rightarrow> [] | Some ds \<Rightarrow> ds)"

definition cluster_error :: "string \<Rightarrow> string list \<Rightarrow> string option" where
  "cluster_error field coords =
     (if js_trim field \<noteq> field
        then Some ''RepresentationRequirements: clusterAuthority.field must not contain surrounding whitespace''
      else if length coords < 2 \<or> length coords > 3
        then Some ''RepresentationRequirements: SOURCE_PARTITION cluster authority requires exactly 2 or 3 primaryDimensions''
      else if list_ex (\<lambda>f. f = [] \<or> js_trim f \<noteq> f) coords
        then Some ''RepresentationRequirements: cluster coordinate fields must be non-empty and contain no surrounding whitespace''
      else if length (js_uniq coords) \<noteq> length coords
        then Some ''RepresentationRequirements: cluster coordinate fields must be distinct''
      else if field \<in> set coords
        then Some ''RepresentationRequirements: cluster partition field must be distinct from coordinate fields''
      else None)"

definition requirements_error :: "requirements \<Rightarrow> string option" where
  "requirements_error r =
     (if lb_frustum (rq_loss r) \<noteq> rq_frustum r
        then Some ''RepresentationRequirements: acceptableLoss.maxFrustumExclusionTolerance must equal maxFrustumExclusionTolerance''
      else if (case rq_disclosure r of None \<Rightarrow> False | Some d \<Rightarrow> ds_enabled d \<and> ds_levels d = [])
        then Some ''RepresentationRequirements: enabled progressive disclosure requires at least one level''
      else if (case rq_disclosure r of None \<Rightarrow> False | Some d \<Rightarrow> duplicate_level [] (ds_levels d))
        then Some ''RepresentationRequirements: duplicate progressive disclosure level''
      else case (case rq_cluster r of None \<Rightarrow> None | Some f \<Rightarrow> cluster_error f (declared_dimensions r)) of
        Some e \<Rightarrow> Some e
      | None \<Rightarrow> (case rq_aggregate r of None \<Rightarrow> None | Some a \<Rightarrow> aggregate_error a))"

definition validate_requirements :: "('i \<Rightarrow> string + requirements) \<Rightarrow> 'i \<Rightarrow> string + requirements" where
  "validate_requirements parse input =
     bindE (parse input) (\<lambda>r. case requirements_error r of Some e \<Rightarrow> Inl e | None \<Rightarrow> Inr r)"

section \<open>Defaults\<close>

definition need :: "structure_type \<Rightarrow> rat \<Rightarrow> structure_requirement" where
  "need t x = \<lparr>sr_type = t, sr_importance = lit x\<rparr>"

fun default_structures :: "task \<Rightarrow> structure_requirement list \<times> observation_level" where
  "default_structures IdentifyOutliers = ([need StAnomalyVisibility (95 / 100), need StDistribution (7 / 10)], Individual)"
| "default_structures AnomalyDetection = ([need StAnomalyVisibility (95 / 100), need StDistribution (7 / 10)], Individual)"
| "default_structures CompareClusters = ([need StClusterSeparation (9 / 10), need StGroupComparison (85 / 100)], Group)"
| "default_structures ClusterComparison = ([need StClusterSeparation (9 / 10), need StGroupComparison (85 / 100)], Group)"
| "default_structures TemporalTrend = ([need StTemporalOrder (9 / 10), need StPeriodicity (75 / 100)], Population)"
| "default_structures TemporalAnalysis = ([need StTemporalOrder (9 / 10), need StPeriodicity (75 / 100)], Population)"
| "default_structures TraceLineage = ([need StHierarchy (95 / 100)], Structural)"
| "default_structures HierarchicalExploration = ([need StHierarchy (95 / 100)], Structural)"
| "default_structures RelationshipDiscovery = ([need StConnectivity (9 / 10)], Structural)"
| "default_structures IndividualInspection = ([need StObservationIdentity 1], Individual)"
| "default_structures DistributionAnalysis = ([need StDistribution (9 / 10), need StDensity (8 / 10)], Population)"
| "default_structures SpatialProximity = ([need StDensity (9 / 10)], Population)"
| "default_structures SpatialAnalysis = ([need StDensity (9 / 10)], Population)"
| "default_structures _ = ([need StDistribution (5 / 10), need StDensity (5 / 10)], Population)"

definition default_intent :: "task \<Rightarrow> analytical_intent" where
  "default_intent t = \<lparr>ai_task = t, ai_structures = fst (default_structures t), ai_level = snd (default_structures t)\<rparr>"

definition goal :: "information \<Rightarrow> goal_priority \<Rightarrow> preservation_goal" where
  "goal i p = \<lparr>pg_information = i, pg_priority = p\<rparr>"

definition default_goals :: "task \<Rightarrow> preservation_goal list" where
  "default_goals t =
     (let intent = default_intent t;
          empirical = t \<in> {DistributionAnalysis, IdentifyOutliers, AnomalyDetection};
          density = list_ex (\<lambda>r. sr_type r = StDensity) (ai_structures intent);
          base = goal (if empirical then InfEmpiricalDistributionShape
                       else if density then InfEmpiricalBivariateBinMass
                       else InfPopulationDensityDistribution) Desired
      in if t = IndividualInspection
           then [goal InfIndividualObservationIdentity Critical, base, goal InfExactMetricValues Critical]
         else if t = IdentifyOutliers \<or> t = AnomalyDetection
           then [base, goal InfOutlierBoundaryVisibility Optional]
         else if ai_level intent = Group
           then [goal InfClusterSeparation Critical, base, goal InfAggregateGroupMagnitude Desired]
         else [base])"

definition default_hardware :: "scale \<Rightarrow> hardware_constraint" where
  "default_hardware s = \<lparr>hw_max_vertices = Some (if s = Massive then 500000 else 100000),
     hw_max_draw_calls = Some 120, hw_target_frame_rate = Some 72, hw_low_power = None, hw_tier = Some Quest3,
     hw_target_fps = Some 72, hw_max_elements = (if s = Massive then None else Some 100000),
     hw_instanced = Some True\<rparr>"

definition default_goal_name :: "task \<Rightarrow> string" where
  "default_goal_name t =
     (if t = CompareClusters then ''cluster-separation''
      else if t = TemporalTrend then ''temporal-ordering''
      else if t = TraceLineage then ''hierarchy-depth''
      else if t = SpatialProximity then ''density-gradient''
      else ''cluster-separation'')"

definition default_frustum :: "scale \<Rightarrow> rat" where
  "default_frustum s = (if s = Large \<or> s = Massive then lit (7 / 10) else lit (3 / 10))"

text \<open>The second argument of the source is a scale or the list of primary dimensions.\<close>

definition default_requirements :: "task \<Rightarrow> scale + string list \<Rightarrow> requirements" where
  "default_requirements t sd =
     (let s = (case sd of Inl s \<Rightarrow> s | Inr ds \<Rightarrow> Medium);
          intent = default_intent t
      in \<lparr>rq_task = t, rq_dimensions = (case sd of Inl s \<Rightarrow> None | Inr ds \<Rightarrow> Some ds),
          rq_goal = Some (default_goal_name t), rq_structures = ai_structures intent, rq_goals = default_goals t,
          rq_loss = \<lparr>lb_identity = (ai_level intent \<noteq> Individual \<and> s \<noteq> Small),
                     lb_exact_metric = (s = Large \<or> s = Massive), lb_cluster = False, lb_frustum = default_frustum s\<rparr>,
          rq_scale = s, rq_hardware = default_hardware s, rq_dimensionality = None, rq_disclosure = None,
          rq_cluster = None, rq_graph = None, rq_aggregate = None, rq_frustum = default_frustum s,
          rq_budget = MediumBudget, rq_context = None, rq_intent = None, rq_perspective = None\<rparr>)"

text \<open>\<open>toLowerCase\<close> on the code points 0 to 255.\<close>

definition js_lower_char :: "char \<Rightarrow> char" where
  "js_lower_char c = (let n = of_char c :: nat in
     if (65 \<le> n \<and> n \<le> 90) \<or> (192 \<le> n \<and> n \<le> 222 \<and> n \<noteq> 215) then char_of (n + 32) else c)"

definition context_tasks :: "task list" where
  "context_tasks = [Overview, DistributionAnalysis, ClusterComparison, RelationshipDiscovery, AnomalyDetection,
     TemporalAnalysis, SpatialAnalysis, HierarchicalExploration, IndividualInspection, GroupComparison,
     PatternDiscovery, TraceLineage, Explore, TemporalTrend, CompareClusters, IdentifyOutliers]"

definition resolve_task :: "string option \<Rightarrow> task" where
  "resolve_task raw = (case raw of None \<Rightarrow> Explore
   | Some s \<Rightarrow> (case find (\<lambda>t. task_name t = js_trim (map js_lower_char s)) context_tasks of
       None \<Rightarrow> Explore | Some t \<Rightarrow> t))"

text \<open>\<open>base\<close> is the spread of the caller's partial requirements over the defaults.\<close>

definition requirements_from_context :: "inv_context \<Rightarrow> (requirements \<Rightarrow> requirements) \<Rightarrow> requirements" where
  "requirements_from_context c base =
     (let r = (base (default_requirements (resolve_task (it_task (cx_intent c))) (Inl Medium)))
                \<lparr>rq_context := Some c, rq_intent := Some (cx_intent c), rq_perspective := cx_perspective c\<rparr>
      in case it_variables (cx_intent c) of
           Some (x # xs) \<Rightarrow> r\<lparr>rq_dimensions := Some (x # xs)\<rparr>
         | _ \<Rightarrow> r)"

section \<open>Properties\<close>

lemma lit_unit: "0 \<le> x \<Longrightarrow> x \<le> 1 \<Longrightarrow> unit_interval (lit x)"
  by (simp add: unit_interval_def f64.rnd_nonneg f64.rnd_le_1)

lemma need_schema: "0 \<le> x \<Longrightarrow> x \<le> 1 \<Longrightarrow> structure_schema (need t x)"
  by (simp add: structure_schema_def need_def lit_unit)

lemma default_structures_schema: "list_all structure_schema (fst (default_structures t))"
  by (cases t) (simp_all add: need_schema)

lemma default_requirements_schema: "requirements_schema (default_requirements t sd)"
proof -
  have "unit_interval (default_frustum s)" for s by (simp add: default_frustum_def lit_unit)
  moreover have "hardware_schema (default_hardware s)" for s
    by (simp add: hardware_schema_def default_hardware_def integer_between_def)
  ultimately show ?thesis
    by (simp add: requirements_schema_def default_requirements_def Let_def default_intent_def default_structures_schema)
qed

text \<open>
  The defaults are well typed. For every task and every scale or list of dimensions the default
  requirements satisfy the declared schema and every runtime check, so validating them returns them
  unchanged whenever the schema library accepts what the schema declares.
\<close>

theorem default_requirements_valid:
  assumes "parse input = Inr (default_requirements t sd)"
  shows "requirements_schema (default_requirements t sd) \<and>
    validate_requirements parse input = Inr (default_requirements t sd)"
proof -
  have "requirements_error (default_requirements t sd) = None"
    by (simp add: requirements_error_def default_requirements_def Let_def)
  then show ?thesis using assms by (simp add: validate_requirements_def default_requirements_schema)
qed

theorem default_requirements_valid_witness:
  "validate_requirements (\<lambda>u :: unit. Inr (default_requirements CompareClusters (Inl Large))) () =
     Inr (default_requirements CompareClusters (Inl Large))"
  using default_requirements_valid [of "\<lambda>u :: unit. Inr (default_requirements CompareClusters (Inl Large))" "()"
      CompareClusters "Inl Large"] by simp

text \<open>
  C30: the hand-written validator of a graph authority accepts exactly the values that the declared
  schema admits, and returns them unchanged; the authority built for either direction is accepted.
\<close>

theorem graph_validator_matches_schema:
  "(validate_graph_authority v = Inr w \<longleftrightarrow> graph_schema v \<and> w = v) \<and>
   validate_graph_authority (source_graph_authority d) = Inr (source_graph_authority d)"
proof (intro conjI)
  show "validate_graph_authority v = Inr w \<longleftrightarrow> graph_schema v \<and> w = v"
    by (cases "unknown_key authority_keys v")
      (auto simp: validate_graph_authority_def graph_schema_def simp flip: unknown_key_None)
  show "validate_graph_authority (source_graph_authority d) = Inr (source_graph_authority d)"
    by (cases d) (simp_all add: validate_graph_authority_def source_graph_authority_def unknown_key_def authority_keys_def)
qed

text \<open>
  Requirements derived from a committed context carry that context, so the strict schema of the
  validator rejects every one of them; and a context whose task is \<open>spatial-proximity\<close>, a task of the
  schema, silently becomes \<open>explore\<close>.
\<close>

theorem context_requirements_rejected:
  "\<not> requirements_schema (requirements_from_context c base) \<and>
   resolve_task (Some (task_name SpatialProximity)) = Explore"
proof
  show "\<not> requirements_schema (requirements_from_context c base)"
    by (auto simp: requirements_schema_def requirements_from_context_def Let_def split: option.split list.split)
  show "resolve_task (Some (task_name SpatialProximity)) = Explore" by code_simp
qed

end
