(* ===== verification/Moneta_Fitness.thy ===== *)
theory Moneta_Fitness
  imports Moneta_Requirements
begin

text \<open>
  The bootstrap fitness model (\<open>src/moneta/representation/FitnessModel.ts\<close>), the dataset signature it
  reads (\<open>DatasetSignature.ts\<close>), the perceptual evidence with its validator
  (\<open>src/moneta/evidence/PerceptualFitnessEvidence.ts\<close>) and the weight perturbations of
  \<open>SensitivityAnalysis.ts\<close>. Every sum and product is rounded to binary64 in the order of the source.
\<close>

section \<open>Signatures\<close>

datatype evidence_source = Measured | Derived | Heuristic | Prior | InvestigatorDeclared | UnknownSource

text \<open>
  \<open>sg_periodicity\<close> is \<open>None\<close> without a spectral structure; \<open>sg_facts\<close> maps the fact paths of the
  epistemic record to their source, and is \<open>None\<close> for a signature without one.
\<close>

record signature =
  sg_numeric :: int
  sg_categorical :: int
  sg_rows :: int
  sg_columns :: int
  sg_edges :: int
  sg_depth :: int
  sg_outliers :: "bool option"
  sg_high_variance :: "bool option"
  sg_clusters :: "bool option"
  sg_density_variation :: "rat option"
  sg_topology :: topology
  sg_time_series :: "bool option"
  sg_geospatial :: "bool option"
  sg_periodicity :: "bool option"
  sg_fingerprint :: string
  sg_kernel :: string
  sg_facts :: "(string, evidence_source) js_map option"
  sg_preferred :: "family list option"

definition fact_source :: "signature \<Rightarrow> string \<Rightarrow> evidence_source option" where
  "fact_source s path = (case sg_facts s of None \<Rightarrow> None | Some m \<Rightarrow> js_get m path)"

definition authoritative :: "signature \<Rightarrow> string \<Rightarrow> bool" where
  "authoritative s path \<longleftrightarrow> fact_source s path \<in> {Some Measured, Some Derived}"

section \<open>Perceptual evidence\<close>

record viewpoint =
  vw_position :: "js_number list"
  vw_gaze :: "js_number list"
  vw_hash :: string

record fidelity =
  fd_class :: string
  fd_method :: string

record raw_measured =
  rm_overlap :: js_number
  rm_frustum :: js_number
  rm_glyph :: js_number
  rm_crowding :: js_number
  rm_ambiguity :: js_number
  rm_extent :: js_number
  rm_travel :: js_number
  rm_viewpoints :: "viewpoint list"
  rm_device :: string
  rm_fidelity :: "(string, fidelity) js_map option"

record raw_evidence =
  re_version :: string
  re_candidate :: string
  re_fingerprint :: string
  re_source :: string
  re_measured :: "raw_measured option"
  re_occlusion :: js_number
  re_load :: js_number
  re_signals :: "(js_number \<times> js_number) option"

text \<open>The same object once its numbers are known to be finite.\<close>

record measured =
  ms_overlap :: rat
  ms_frustum :: rat
  ms_glyph :: rat
  ms_ambiguity :: rat
  ms_poses :: nat
  ms_device :: string

record evidence =
  ev_candidate :: string
  ev_fingerprint :: string
  ev_measured :: "measured option"
  ev_occlusion :: rat

definition evidence_version :: string where
  "evidence_version = ''perceptual-fitness-v1''"

definition in_unit :: "string \<Rightarrow> js_number \<Rightarrow> string + rat" where
  "in_unit name n = (case n of
     Fin x \<Rightarrow> if 0 \<le> x \<and> x \<le> 1 then Inr x else Inl (name @ '' must be a finite number in [0, 1]'')
   | _ \<Rightarrow> Inl (name @ '' must be a finite number in [0, 1]''))"

definition non_negative :: "string \<Rightarrow> js_number \<Rightarrow> string + rat" where
  "non_negative name n = (case n of
     Fin x \<Rightarrow> if 0 \<le> x then Inr x else Inl (name @ '' must be a finite non-negative number'')
   | _ \<Rightarrow> Inl (name @ '' must be a finite non-negative number''))"

fun finite_value :: "js_number \<Rightarrow> rat" where
  "finite_value (Fin x) = x"
| "finite_value _ = 0"

definition finite_vector :: "string \<Rightarrow> js_number list \<Rightarrow> string + rat list" where
  "finite_vector name vs =
     (if length vs \<noteq> 3 \<or> \<not> list_all is_finite_num vs
      then Inl (name @ '' must contain exactly three finite coordinates'') else Inr (map finite_value vs))"

definition square_sum :: "rat list \<Rightarrow> rat" where
  "square_sum vs = foldl (\<lambda>sum v. fadd sum (fmul v v)) 0 vs"

definition validate_viewpoint :: "nat \<Rightarrow> viewpoint \<Rightarrow> string + unit" where
  "validate_viewpoint i w =
     (let loc = ''viewpointEnvelope['' @ show_nat i @ '']'' in
      bindE (finite_vector (loc @ ''.position'') (vw_position w)) (\<lambda>_.
      bindE (finite_vector (loc @ ''.gazeDirection'') (vw_gaze w)) (\<lambda>gaze.
      if square_sum gaze < lit (1 / 100000000) then Inl (loc @ ''.gazeDirection must be non-zero'')
      else if vw_hash w = [] then Inl (loc @ ''.poseHash must be a non-empty string'')
      else Inr ())))"

fun validate_viewpoints :: "nat \<Rightarrow> viewpoint list \<Rightarrow> string + unit" where
  "validate_viewpoints i [] = Inr ()"
| "validate_viewpoints i (w # ws) = bindE (validate_viewpoint i w) (\<lambda>_. validate_viewpoints (Suc i) ws)"

definition fidelity_keys :: "string list" where
  "fidelity_keys = [''projectedOverlapFraction'', ''frustumExclusionFraction'',
     ''medianProjectedGlyphSizePx'', ''labelCrowdingIndex'', ''depthOrderAmbiguityFraction'']"

definition fidelity_classes :: "string list" where
  "fidelity_classes = [''measured'', ''estimated'', ''surrogate'']"

definition fidelity_prefix :: string where
  "fidelity_prefix = ''PerceptualFitnessEvidence.measured.metricFidelity''"

fun check_fidelity :: "(string, fidelity) js_map \<Rightarrow> string list \<Rightarrow> string + unit" where
  "check_fidelity m [] = Inr ()"
| "check_fidelity m (k # ks) = (case js_get m k of
     None \<Rightarrow> Inl (fidelity_prefix @ ''.'' @ k @ '' must be present'')
   | Some f \<Rightarrow>
       if fd_class f \<notin> set fidelity_classes
         then Inl (fidelity_prefix @ ''.'' @ k @ ''.class must be one of measured|estimated|surrogate'')
       else if js_trim (fd_method f) = []
         then Inl (fidelity_prefix @ ''.'' @ k @ ''.method must be a non-empty string'')
       else if k = ''frustumExclusionFraction'' \<and> fd_class f \<noteq> ''surrogate''
         then Inl (fidelity_prefix @ ''.frustumExclusionFraction must be class \"surrogate\" (it is not occlusion)'')
       else if k = ''labelCrowdingIndex'' \<and> fd_class f \<noteq> ''surrogate''
         then Inl (fidelity_prefix @ ''.labelCrowdingIndex must be class \"surrogate\" (it is not screen-space label overlap)'')
       else check_fidelity m ks)"

definition validate_measured :: "raw_measured \<Rightarrow> string + measured" where
  "validate_measured m =
     (let loc = ''PerceptualFitnessEvidence.measured.'' in
      if length (rm_viewpoints m) < 2
        then Inl ''PerceptualFitnessEvidence measured payload requires a multi-pose viewpoint envelope''
      else bindE (in_unit (loc @ ''projectedOverlapFraction'') (rm_overlap m)) (\<lambda>overlap.
           bindE (in_unit (loc @ ''frustumExclusionFraction'') (rm_frustum m)) (\<lambda>frustum.
           bindE (in_unit (loc @ ''labelCrowdingIndex'') (rm_crowding m)) (\<lambda>_.
           bindE (in_unit (loc @ ''depthOrderAmbiguityFraction'') (rm_ambiguity m)) (\<lambda>ambiguity.
           bindE (non_negative (loc @ ''medianProjectedGlyphSizePx'') (rm_glyph m)) (\<lambda>glyph.
           bindE (non_negative (loc @ ''spatialExtentMeters'') (rm_extent m)) (\<lambda>_.
           bindE (non_negative (loc @ ''requiredViewpointTravelMeters'') (rm_travel m)) (\<lambda>_.
           bindE (validate_viewpoints 0 (rm_viewpoints m)) (\<lambda>_.
           bindE (case rm_fidelity m of None \<Rightarrow> Inl (fidelity_prefix @ '' must be present'')
                  | Some f \<Rightarrow> check_fidelity f fidelity_keys) (\<lambda>_.
           Inr \<lparr>ms_overlap = overlap, ms_frustum = frustum, ms_glyph = glyph, ms_ambiguity = ambiguity,
                ms_poses = length (rm_viewpoints m), ms_device = rm_device m\<rparr>))))))))))"

definition validate_evidence :: "raw_evidence \<Rightarrow> string + evidence" where
  "validate_evidence e =
     (if re_version e \<noteq> evidence_version
        then Inl (''Unsupported perceptual fitness evidence version: '' @ re_version e)
      else if re_candidate e = [] then Inl ''PerceptualFitnessEvidence candidateId must be a non-empty string''
      else if re_fingerprint e = [] then Inl ''PerceptualFitnessEvidence datasetFingerprint must be a non-empty string''
      else bindE (in_unit ''PerceptualFitnessEvidence.priors.occlusionResistance'' (re_occlusion e)) (\<lambda>occlusion.
           bindE (in_unit ''PerceptualFitnessEvidence.priors.cognitiveLoad'' (re_load e)) (\<lambda>_.
           bindE (case re_signals e of None \<Rightarrow> Inr () | Some (miss, dwell) \<Rightarrow>
                    bindE (in_unit ''PerceptualFitnessEvidence.interactionSignals.airClickMissRate'' miss) (\<lambda>_.
                    bindE (in_unit ''PerceptualFitnessEvidence.interactionSignals.dwellHesitationRate'' dwell) (\<lambda>_. Inr ()))) (\<lambda>_.
           bindE (if re_source e = ''measured'' then
                    (case re_measured e of
                       None \<Rightarrow> Inl ''PerceptualFitnessEvidence with source \"measured\" must contain measured payload''
                     | Some m \<Rightarrow> bindE (validate_measured m) (\<lambda>x. Inr (Some x)))
                  else if re_source e = ''prior'' then
                    (if re_measured e \<noteq> None
                       then Inl ''PerceptualFitnessEvidence with source \"prior\" must have null measured field'' else Inr None)
                  else Inl (''Invalid PerceptualFitnessEvidence source: '' @ re_source e)) (\<lambda>m.
           Inr \<lparr>ev_candidate = re_candidate e, ev_fingerprint = re_fingerprint e, ev_measured = m,
                ev_occlusion = occlusion\<rparr>)))))"

section \<open>Weights\<close>

datatype dimension = DStructure | DTask | DScale | DInformation | DDensity | DPrior | DPerceptual

type_synonym raw_weights = "dimension \<Rightarrow> js_number"
type_synonym weights = "dimension \<Rightarrow> rat"

definition all_dimensions :: "dimension list" where
  "all_dimensions = [DStructure, DTask, DScale, DInformation, DDensity, DPrior, DPerceptual]"

fun dimension_name :: "dimension \<Rightarrow> string" where
  "dimension_name DStructure = ''structure''"
| "dimension_name DTask = ''task''"
| "dimension_name DScale = ''scale''"
| "dimension_name DInformation = ''informationPreservation''"
| "dimension_name DDensity = ''densityHandling''"
| "dimension_name DPrior = ''configuredPrior''"
| "dimension_name DPerceptual = ''perceptualFitness''"

fun default_weights :: weights where
  "default_weights DStructure = lit (30 / 100)"
| "default_weights DTask = lit (25 / 100)"
| "default_weights DScale = lit (15 / 100)"
| "default_weights DInformation = lit (15 / 100)"
| "default_weights DDensity = lit (5 / 100)"
| "default_weights DPrior = lit (5 / 100)"
| "default_weights DPerceptual = lit (5 / 100)"

fun weight_ok :: "js_number \<Rightarrow> bool" where
  "weight_ok (Fin x) \<longleftrightarrow> 0 \<le> x"
| "weight_ok _ \<longleftrightarrow> False"

definition total_weight :: "weights \<Rightarrow> rat" where
  "total_weight w = foldl (\<lambda>sum d. fadd sum (w d)) 0 all_dimensions"

definition validate_weights :: "raw_weights \<Rightarrow> string + weights" where
  "validate_weights w =
     (case find (\<lambda>d. \<not> weight_ok (w d)) all_dimensions of
        Some d \<Rightarrow> Inl (''Fitness weight '' @ dimension_name d @ '' must be a finite non-negative number'')
      | None \<Rightarrow>
          let v = (\<lambda>d. finite_value (w d)) in
          if \<bar>fsub (total_weight v) 1\<bar> > lit (1 / 1000000000) then Inl ''Active fitness weights must sum to 1''
          else Inr v)"

section \<open>Scores\<close>

fun requirement_capabilities :: "structure_type \<Rightarrow> capability list" where
  "requirement_capabilities StDistribution = [CapUnivariateDistribution]"
| "requirement_capabilities StClusterSeparation = [CapClusterPartition, CapContinuousDensity]"
| "requirement_capabilities StDensity = [CapBinnedEmpiricalMass, CapContinuousDensity]"
| "requirement_capabilities StTemporalOrder = [CapTemporalSequence]"
| "requirement_capabilities StPeriodicity = [CapPeriodicSpectrum]"
| "requirement_capabilities StManifold = [CapMultivariateCorrelation, CapContinuousDensity]"
| "requirement_capabilities StHierarchy = [CapTreeHierarchy]"
| "requirement_capabilities StConnectivity = [CapRelationalTopology]"
| "requirement_capabilities StAnomalyVisibility = [CapAnomalyIsolation]"
| "requirement_capabilities StObservationIdentity = [CapDiscreteObservations]"
| "requirement_capabilities StGroupComparison = [CapAggregateMetrics, CapClusterPartition]"

definition covers :: "candidate \<Rightarrow> structure_type \<Rightarrow> bool" where
  "covers c t \<longleftrightarrow> list_ex (\<lambda>k. k \<in> set (cd_supports c)) (requirement_capabilities t)"

definition score_perceptual :: "candidate \<Rightarrow> evidence option \<Rightarrow> rat" where
  "score_perceptual c e = (case (case e of None \<Rightarrow> None | Some x \<Rightarrow> ev_measured x) of
     Some m \<Rightarrow> clamp01 (fadd (fadd (fadd
         (fmul (fsub 1 (ms_overlap m)) (lit (3 / 10)))
         (fmul (fsub 1 (ms_frustum m)) (lit (3 / 10))))
         (fmul (fsub 1 (ms_ambiguity m)) (lit (2 / 10))))
         (fmul (clamp01 (fdiv (ms_glyph m) 32)) (lit (2 / 10))))
   | None \<Rightarrow> clamp01 (fadd (fmul (cd_occlusion c) (lit (6 / 10))) (fmul (fsub 1 (cd_load c)) (lit (4 / 10)))))"

definition source_graph :: "signature \<Rightarrow> requirements \<Rightarrow> bool" where
  "source_graph s r \<longleftrightarrow>
     (case rq_graph r of None \<Rightarrow> False | Some v \<Rightarrow> js_prop v ''kind'' = JStr ''SOURCE_EDGES'') \<and> sg_edges s > 0"

definition structure_base :: "signature \<Rightarrow> requirements \<Rightarrow> candidate \<Rightarrow> family \<Rightarrow> rat" where
  "structure_base s r c f =
     (let top = sg_topology s; has = (\<lambda>k. k \<in> set (cd_supports c));
          depth_known = authoritative s ''cardinality.depth'' \<and> sg_depth s > 1 in
      if f = FGraph \<and> has CapRelationalTopology \<and> source_graph s r then 1
      else if f = FHierarchical \<and> has CapTreeHierarchy \<and> (top = Hierarchy \<or> depth_known) then 1
      else if f = FTemporal \<and> has CapTemporalSequence \<and> (top = TimeSeries \<or> sg_time_series s = Some True) then 1
      else if f = FFrequency \<and> has CapPeriodicSpectrum \<and> sg_periodicity s = Some True then 1
      else if f = FField \<and> has CapSpatialCoordinates \<and> (top = VectorField \<or> top = Geo) then 1
      else if f = FCluster \<and> has CapClusterPartition \<and> authoritative s ''clusterStructure.hasClusters'' \<and>
              sg_clusters s = Some True then lit (95 / 100)
      else if f = FDistribution \<and> has CapUnivariateDistribution \<and>
              (sg_outliers s = Some True \<or> authoritative s ''distribution.highVariance'' \<and> sg_high_variance s = Some True)
        then lit (9 / 10)
      else lit (4 / 10))"

definition importance_sum :: "(structure_requirement \<Rightarrow> bool) \<Rightarrow> structure_requirement list \<Rightarrow> rat" where
  "importance_sum p rs = foldl (\<lambda>sum r. fadd sum (if p r then sr_importance r else 0)) 0 rs"

definition covered_importance :: "candidate \<Rightarrow> structure_requirement list \<Rightarrow> rat" where
  "covered_importance c rs = importance_sum (\<lambda>r. covers c (sr_type r)) rs"

definition total_importance :: "structure_requirement list \<Rightarrow> rat" where
  "total_importance rs = importance_sum (\<lambda>r. True) rs"

definition number_epsilon :: rat where
  "number_epsilon = 1 / 4503599627370496"

definition required_coverage :: "requirements \<Rightarrow> candidate \<Rightarrow> rat" where
  "required_coverage r c =
     (if rq_structures r = [] then 1
      else fdiv (covered_importance c (rq_structures r)) (max number_epsilon (total_importance (rq_structures r))))"

definition score_structure :: "signature \<Rightarrow> requirements \<Rightarrow> candidate \<Rightarrow> family \<Rightarrow> rat" where
  "score_structure s r c f =
     fadd (fmul (lit (7 / 10)) (structure_base s r c f)) (fmul (lit (3 / 10)) (required_coverage r c))"

definition score_task :: "requirements \<Rightarrow> candidate \<Rightarrow> rat" where
  "score_task r c =
     (if rq_structures r = [] then 1
      else if total_importance (rq_structures r) = 0 then 1
      else fdiv (covered_importance c (rq_structures r)) (total_importance (rq_structures r)))"

definition score_scale :: "int \<Rightarrow> candidate \<Rightarrow> rat" where
  "score_scale n c =
     (let sc = cd_scale c in
      if n < sl_min sc \<or> n > sl_max sc then 0
      else if fst (sl_optimal sc) \<le> n \<and> n \<le> snd (sl_optimal sc) then 1
      else clamp01 (sl_rating sc))"

fun priority_weight :: "goal_priority \<Rightarrow> rat" where
  "priority_weight Critical = 1"
| "priority_weight Desired = lit (6 / 10)"
| "priority_weight Optional = lit (25 / 100)"

definition add_goal :: "candidate \<Rightarrow> rat \<times> rat \<Rightarrow> preservation_goal \<Rightarrow> rat \<times> rat" where
  "add_goal c acc g =
     (let w = priority_weight (pg_priority g) in
      (fadd (fst acc) w,
       if pg_information g \<in> set (cd_preserves c) then fadd (snd acc) w
       else if pg_information g \<notin> set (cd_loses c) then fadd (snd acc) (fmul w (lit (5 / 10)))
       else snd acc))"

definition score_information :: "requirements \<Rightarrow> candidate \<Rightarrow> rat" where
  "score_information r c =
     (if rq_goals r = [] then 1
      else let (total, preserved) = foldl (add_goal c) (0, 0) (rq_goals r)
           in if total = 0 then 1 else fdiv preserved total)"

definition density_relevant :: "signature \<Rightarrow> requirements \<Rightarrow> bool" where
  "density_relevant s r \<longleftrightarrow>
     (case find (\<lambda>q. sr_type q = StDensity) (rq_structures r) of None \<Rightarrow> False | Some q \<Rightarrow> sr_importance q > 0) \<or>
     (authoritative s ''clusterStructure.densityVariation'' \<and>
      (case sg_density_variation s of None \<Rightarrow> False | Some x \<Rightarrow> x > 0))"

definition score_density :: "signature \<Rightarrow> requirements \<Rightarrow> candidate \<Rightarrow> rat" where
  "score_density s r c =
     (let has = (\<lambda>k. k \<in> set (cd_supports c)); keeps = (\<lambda>i. i \<in> set (cd_preserves c)) in
      if \<not> density_relevant s r then 1
      else if has CapContinuousDensity \<and> keeps InfPopulationDensityDistribution then 1
      else if has CapBinnedEmpiricalMass \<and> keeps InfEmpiricalBivariateBinMass then 1
      else if has CapContinuousDensity \<or> keeps InfPopulationDensityDistribution \<or>
              has CapBinnedEmpiricalMass \<or> keeps InfEmpiricalBivariateBinMass then lit (75 / 100)
      else if InfPopulationDensityDistribution \<in> set (cd_loses c) \<or> InfEmpiricalBivariateBinMass \<in> set (cd_loses c) then 0
      else lit (25 / 100))"

definition score_prior :: "signature \<Rightarrow> family \<Rightarrow> rat" where
  "score_prior s f = (if (case sg_preferred s of None \<Rightarrow> False | Some fs \<Rightarrow> f \<in> set fs) then 1 else lit (5 / 10))"

fun raw_score :: "signature \<Rightarrow> requirements \<Rightarrow> candidate \<Rightarrow> family \<Rightarrow> evidence option \<Rightarrow> dimension \<Rightarrow> rat" where
  "raw_score s r c f e DStructure = score_structure s r c f"
| "raw_score s r c f e DTask = score_task r c"
| "raw_score s r c f e DScale = score_scale (sg_rows s) c"
| "raw_score s r c f e DInformation = score_information r c"
| "raw_score s r c f e DDensity = score_density s r c"
| "raw_score s r c f e DPrior = score_prior s f"
| "raw_score s r c f e DPerceptual = score_perceptual c e"

record fitness_component =
  fc_dimension :: dimension
  fc_weight :: rat
  fc_raw :: rat
  fc_weighted :: rat

definition component :: "weights \<Rightarrow> dimension \<Rightarrow> rat \<Rightarrow> fitness_component" where
  "component w d raw = \<lparr>fc_dimension = d, fc_weight = w d, fc_raw = clamp01 raw,
     fc_weighted = fmul (clamp01 raw) (w d)\<rparr>"

record fitness_evaluation =
  fe_utility :: rat
  fe_components :: "fitness_component list"

definition evaluate ::
  "weights \<Rightarrow> signature \<Rightarrow> requirements \<Rightarrow> candidate \<Rightarrow> family \<Rightarrow> evidence option \<Rightarrow> string + fitness_evaluation" where
  "evaluate w s r c f e =
     (if \<not> assigned_to_family (cd_id c) f
      then Inl (''Candidate '' @ candidate_name (cd_id c) @ '' is not assigned to reasoning family '' @ family_name f)
      else let cs = map (\<lambda>d. component w d (raw_score s r c f e d)) all_dimensions
           in Inr \<lparr>fe_utility = clamp01 (foldl (\<lambda>sum x. fadd sum (fc_weighted x)) 0 cs), fe_components = cs\<rparr>)"

section \<open>Weight perturbations\<close>

datatype direction = Decrease | Increase

definition normalize_weights :: "weights \<Rightarrow> string + weights" where
  "normalize_weights w =
     (let total = total_weight w in
      if total \<le> 0 then Inl ''Sensitivity analysis requires a positive finite weight total''
      else Inr (\<lambda>d. fdiv (w d) total))"

definition perturbed :: "weights \<Rightarrow> rat \<Rightarrow> dimension \<Rightarrow> direction \<Rightarrow> weights" where
  "perturbed w amount d dir =
     w(d := fmul (w d) (case dir of Increase \<Rightarrow> fadd 1 amount | Decrease \<Rightarrow> fsub 1 amount))"

definition perturbation_plan :: "(dimension \<times> direction) list" where
  "perturbation_plan = concat (map (\<lambda>d. [(d, Decrease), (d, Increase)]) all_dimensions)"

definition weight_perturbations :: "weights \<Rightarrow> rat \<Rightarrow> string + ((dimension \<times> direction) \<times> weights) list" where
  "weight_perturbations w amount =
     (if amount \<le> 0 \<or> amount \<ge> 1 then Inl ''perturbationFraction must be finite and in (0, 1)''
      else mapE (\<lambda>(d, dir). bindE (normalize_weights (perturbed w amount d dir)) (\<lambda>v. Inr ((d, dir), v))) perturbation_plan)"

record sensitivity =
  sn_fraction :: rat
  sn_scenarios :: nat
  sn_changes :: nat
  sn_rate :: rat
  sn_stable :: bool

definition winner_sensitivity ::
  "string \<Rightarrow> weights \<Rightarrow> (weights \<Rightarrow> string + string option) \<Rightarrow> rat \<Rightarrow> string + sensitivity" where
  "winner_sensitivity base w ranker amount =
     bindE (weight_perturbations w amount) (\<lambda>scenarios.
     bindE (mapE (\<lambda>(_, v). bindE (ranker v) (\<lambda>k. Inr (k \<noteq> Some base))) scenarios) (\<lambda>changed.
     let changes = length (filter id changed); n = length changed
     in Inr \<lparr>sn_fraction = amount, sn_scenarios = n, sn_changes = changes,
             sn_rate = (if n = 0 then 0 else fdiv (of_nat changes) (of_nat n)), sn_stable = (changes = 0)\<rparr>))"

section \<open>Every score is a fraction\<close>

text \<open>The folds of the source are the rounded sums of the arithmetic library.\<close>

lemma foldl_fadd: "foldl (\<lambda>s x. fadd s (f x)) acc xs = f64.sum_from acc (map f xs)"
  by (induction xs arbitrary: acc) (simp_all add: fadd_def)

lemma unit_intervalI: "0 \<le> x \<Longrightarrow> x \<le> 1 \<Longrightarrow> unit_interval x"
  by (simp add: unit_interval_def)

lemma unit_0 [simp]: "unit_interval 0" and unit_1 [simp]: "unit_interval 1"
  by (simp_all add: unit_interval_def)

lemma unit_clamp01 [simp]: "unit_interval (clamp01 x)"
  by (simp add: unit_interval_def)

lemma clamp01_unit: "unit_interval x \<Longrightarrow> clamp01 x = x"
  by (simp add: unit_interval_def clamp01_id)

lemma unit_lit [simp]: "0 \<le> x \<Longrightarrow> x \<le> 1 \<Longrightarrow> unit_interval (lit x)"
  by (simp add: unit_interval_def f64.rnd_nonneg f64.rnd_le_1)

lemma unit_div: "0 \<le> a \<Longrightarrow> a \<le> b \<Longrightarrow> 0 < b \<Longrightarrow> unit_interval (fdiv a b)"
  using f64.div_unit [of a b] by (simp add: unit_interval_def fdiv_def)

lemma unit_mul: "unit_interval a \<Longrightarrow> unit_interval b \<Longrightarrow> unit_interval (fmul a b)"
  using f64.mul_unit [of a b] by (simp add: unit_interval_def fmul_def)

lemma importance_sum_map:
  "importance_sum p rs = f64.sum_from 0 (map (\<lambda>r. if p r then sr_importance r else 0) rs)"
  by (simp add: importance_sum_def foldl_fadd)

lemma importance_sum_nonneg:
  assumes "list_all structure_schema rs"
  shows "0 \<le> importance_sum p rs"
  unfolding importance_sum_map
  by (rule f64.sum_from_ge)
     (use assms in \<open>auto simp: list_all_iff structure_schema_def unit_interval_def\<close>)

lemma covered_le_total:
  assumes "list_all structure_schema rs"
  shows "covered_importance c rs \<le> total_importance rs"
  unfolding covered_importance_def total_importance_def importance_sum_map
  by (rule f64.sum_from_mono)
     (use assms in \<open>auto simp: list_all_iff structure_schema_def unit_interval_def list.rel_map intro!: list.rel_refl_strong\<close>)

lemma covered_nonneg: "list_all structure_schema rs \<Longrightarrow> 0 \<le> covered_importance c rs"
  unfolding covered_importance_def by (rule importance_sum_nonneg)

lemma unit_required_coverage: "list_all structure_schema (rq_structures r) \<Longrightarrow> unit_interval (required_coverage r c)"
  using covered_le_total [of "rq_structures r" c] covered_nonneg [of "rq_structures r" c]
  by (auto simp: required_coverage_def number_epsilon_def max_def intro!: unit_div)

lemma unit_structure_base: "unit_interval (structure_base s r c f)"
  by (simp add: structure_base_def Let_def)

lemma unit_score_structure:
  assumes "list_all structure_schema (rq_structures r)"
  shows "unit_interval (score_structure s r c f)"
proof -
  let ?a = "lit (7 / 10)" and ?b = "lit (3 / 10)"
  have pos: "0 \<le> ?a" "0 \<le> ?b" and sum: "fadd ?a ?b \<le> 1" by (code_simp, code_simp, code_simp)
  have base: "0 \<le> fmul ?a (structure_base s r c f)" "fmul ?a (structure_base s r c f) \<le> ?a"
    using unit_structure_base [of s r c f] pos
    by (simp_all add: fmul_def unit_interval_def f64.rnd_nonneg f64.mul_le_left)
  have cov: "0 \<le> fmul ?b (required_coverage r c)" "fmul ?b (required_coverage r c) \<le> ?b"
    using unit_required_coverage [OF assms, of c] pos
    by (simp_all add: fmul_def unit_interval_def f64.rnd_nonneg f64.mul_le_left)
  have "score_structure s r c f \<le> fadd ?a ?b"
    unfolding score_structure_def fadd_def by (rule f64.rnd_mono) (use base cov in linarith)
  moreover have "0 \<le> score_structure s r c f"
    using base cov by (simp add: score_structure_def fadd_def f64.rnd_nonneg)
  ultimately show ?thesis using sum by (simp add: unit_interval_def)
qed

lemma unit_score_task: "list_all structure_schema (rq_structures r) \<Longrightarrow> unit_interval (score_task r c)"
  using covered_le_total [of "rq_structures r" c] covered_nonneg [of "rq_structures r" c]
  by (auto simp: score_task_def intro!: unit_div)

lemma unit_score_scale: "unit_interval (score_scale n c)"
  by (simp add: score_scale_def Let_def)

lemma priority_weight_nonneg: "0 \<le> priority_weight p"
  by (cases p) (simp_all add: f64.rnd_nonneg)

lemma half_priority_nonneg: "0 \<le> fmul (priority_weight p) (lit (5 / 10))"
  by (simp add: fmul_def f64.rnd_nonneg priority_weight_nonneg)

lemma half_priority_le: "fmul (priority_weight p) (lit (5 / 10)) \<le> priority_weight p"
  unfolding fmul_def
  by (rule f64.mul_le_left) (cases p, simp_all add: f64.rnd_le_1 priority_weight_nonneg)

lemmas priority_bounds = priority_weight_nonneg half_priority_nonneg half_priority_le

lemma fadd_mono: "a \<le> a' \<Longrightarrow> b \<le> b' \<Longrightarrow> fadd a b \<le> fadd a' b'"
  unfolding fadd_def by (rule f64.rnd_mono) simp

lemma fadd_nonneg: "0 \<le> a \<Longrightarrow> 0 \<le> b \<Longrightarrow> 0 \<le> fadd a b"
  by (simp add: fadd_def f64.add_nonneg)

lemma fadd_ge: "rnd64 a = a \<Longrightarrow> 0 \<le> b \<Longrightarrow> a \<le> fadd a b"
  unfolding fadd_def by (rule f64.add_ge_left)

lemma add_goal_bounds:
  assumes "0 \<le> snd acc" and "snd acc \<le> fst acc" and "rnd64 (fst acc) = fst acc"
  shows "0 \<le> snd (add_goal c acc g)" and "snd (add_goal c acc g) \<le> fst (add_goal c acc g)"
    and "rnd64 (fst (add_goal c acc g)) = fst (add_goal c acc g)"
proof -
  have ge: "snd acc \<le> fadd (fst acc) (priority_weight (pg_priority g))"
    using fadd_ge [OF assms(3) priority_weight_nonneg] assms(2) by (rule order_trans [rotated])
  show "0 \<le> snd (add_goal c acc g)" "snd (add_goal c acc g) \<le> fst (add_goal c acc g)"
    using assms ge priority_bounds [of "pg_priority g"]
    by (auto simp: add_goal_def Let_def intro!: fadd_nonneg fadd_mono)
  show "rnd64 (fst (add_goal c acc g)) = fst (add_goal c acc g)" by (simp add: add_goal_def Let_def fadd_def)
qed

lemma goals_bounds:
  "0 \<le> snd acc \<Longrightarrow> snd acc \<le> fst acc \<Longrightarrow> rnd64 (fst acc) = fst acc \<Longrightarrow>
   0 \<le> snd (foldl (add_goal c) acc gs) \<and> snd (foldl (add_goal c) acc gs) \<le> fst (foldl (add_goal c) acc gs)"
proof (induction gs arbitrary: acc)
  case (Cons g gs)
  show ?case using Cons.IH [OF add_goal_bounds [OF Cons.prems]] by simp
qed simp

lemma unit_score_information: "unit_interval (score_information r c)"
  using goals_bounds [of "(0, 0)" c "rq_goals r"]
  by (auto simp: score_information_def Let_def split: prod.split intro!: unit_div)

lemma unit_score_density: "unit_interval (score_density s r c)"
  by (simp add: score_density_def Let_def)

lemma unit_score_perceptual: "unit_interval (score_perceptual c e)"
  by (simp add: score_perceptual_def split: option.split)

lemma unit_raw_score:
  "list_all structure_schema (rq_structures r) \<Longrightarrow> unit_interval (raw_score s r c f e d)"
  by (cases d)
     (simp_all add: unit_score_structure unit_score_task unit_score_scale unit_score_information
       unit_score_density unit_score_perceptual score_prior_def)

lemma utility_range:
  "evaluate w s r c f e = Inr v \<Longrightarrow> unit_interval (fe_utility v)"
  by (auto simp: evaluate_def Let_def split: if_splits)

lemma evaluate_components:
  assumes "evaluate w s r c f e = Inr v"
  shows "fe_components v = map (\<lambda>d. component w d (raw_score s r c f e d)) all_dimensions"
  using assms by (auto simp: evaluate_def Let_def split: if_splits)

section \<open>Perturbed weights\<close>

lemma total_weight_map: "total_weight w = f64.sum_from 0 (map w all_dimensions)"
  by (simp add: total_weight_def foldl_fadd)

lemma set_all_dimensions [simp]: "set all_dimensions = UNIV"
  by (auto simp: all_dimensions_def intro: dimension.exhaust)

lemma validate_weightsD:
  assumes "validate_weights raw = Inr w"
  shows "\<forall>d. 0 \<le> w d" and "raw d = Fin (w d)" and "\<bar>fsub (total_weight w) 1\<bar> \<le> lit (1 / 1000000000)"
proof -
  have ok: "\<forall>d. weight_ok (raw d)"
    using assms by (auto simp: validate_weights_def find_Some_iff find_None_iff split: option.splits)
  have "w = (\<lambda>d. finite_value (raw d))" and "\<bar>fsub (total_weight w) 1\<bar> \<le> lit (1 / 1000000000)"
    using assms by (auto simp: validate_weights_def Let_def split: option.splits if_splits)
  moreover have "0 \<le> finite_value (raw d) \<and> raw d = Fin (finite_value (raw d))" for d
    using spec [OF ok, of d] by (cases "raw d") auto
  ultimately show "\<forall>d. 0 \<le> w d" "raw d = Fin (w d)" "\<bar>fsub (total_weight w) 1\<bar> \<le> lit (1 / 1000000000)" by auto
qed

lemma some_weight_large:
  assumes "\<bar>fsub (total_weight w) 1\<bar> \<le> lit (1 / 1000000000)"
  shows "\<exists>d. 1 / 16 \<le> w d"
proof (rule ccontr)
  assume "\<nexists>d. 1 / 16 \<le> w d"
  then have "total_weight w \<le> total_weight (\<lambda>d. 1 / 16)"
    unfolding total_weight_map by (intro f64.sum_from_mono) (auto simp: list.rel_map not_le intro!: list.rel_refl_strong less_imp_le)
  then have "fsub (total_weight w) 1 \<le> fsub (total_weight (\<lambda>d. 1 / 16)) 1"
    unfolding fsub_def by (intro f64.sub_mono) simp_all
  moreover have "fsub (total_weight (\<lambda>d. 1 / 16)) 1 < - lit (1 / 1000000000)" by code_simp
  ultimately show False using assms by linarith
qed

definition largest_fraction :: rat where
  "largest_fraction = 9007199254740991 / 9007199254740992"

fun factor :: "direction \<Rightarrow> rat \<Rightarrow> rat" where
  "factor Increase a = fadd 1 a"
| "factor Decrease a = fsub 1 a"

definition smallest_total :: rat where
  "smallest_total = 1 / 144115188075855872"

lemma factor_lower:
  assumes "0 \<le> a" and "a \<le> largest_fraction"
  shows "1 / 9007199254740992 \<le> factor dir a"
proof (cases dir)
  case Decrease
  have "fsub 1 largest_fraction \<le> fsub 1 a" unfolding fsub_def using assms by (intro f64.sub_mono) simp_all
  moreover have "fsub 1 largest_fraction = 1 / 9007199254740992" by code_simp
  ultimately show ?thesis using Decrease by simp
next
  case Increase
  have "1 \<le> fadd 1 a" using assms by (intro fadd_ge) simp_all
  then show ?thesis using Increase by simp
qed

lemma perturbed_factor: "perturbed w a d dir = w(d := fmul (w d) (factor dir a))"
  by (simp add: perturbed_def split: direction.split)

lemma perturbed_total:
  assumes "\<forall>d. 0 \<le> w d" and "1 / 16 \<le> w k" and "0 \<le> a" and "a \<le> largest_fraction"
  shows "smallest_total \<le> total_weight (perturbed w a d dir)"
proof -
  let ?low = "\<lambda>x. if x = k then smallest_total else 0"
  have small: "smallest_total \<le> 1 / 16" "smallest_total = 1 / 16 * (1 / 9007199254740992)"
    "rnd64 smallest_total = smallest_total" "0 \<le> smallest_total" by code_simp+
  have f: "1 / 9007199254740992 \<le> factor dir a" using factor_lower [OF assms(3,4)] .
  then have "0 \<le> factor dir a" by (rule order_trans [rotated]) simp
  then have nonneg: "0 \<le> fmul (w d) (factor dir a)" using assms(1) by (simp add: fmul_def f64.rnd_nonneg)
  have "smallest_total \<le> fmul (w k) (factor dir a)"
    unfolding fmul_def small(2) [symmetric]
    by (subst small(3) [symmetric], rule f64.rnd_mono, subst small(2), rule mult_mono) (use assms f in simp_all)
  then have "?low x \<le> perturbed w a d dir x" for x
    using assms(1,2) small nonneg by (auto simp: perturbed_factor intro: order_trans)
  then have "f64.sum_from 0 (map ?low all_dimensions) \<le> total_weight (perturbed w a d dir)"
    unfolding total_weight_map by (intro f64.sum_from_mono) (auto simp: list.rel_map intro!: list.rel_refl_strong)
  moreover have "smallest_total \<le> f64.sum_from 0 (map ?low all_dimensions)"
    using small by (intro f64.sum_from_ge_term) auto
  ultimately show ?thesis by simp
qed

lemma normalize_perturbed:
  assumes "\<forall>d. 0 \<le> w d" and "\<forall>d. rnd64 (w d) = w d" and "1 / 16 \<le> w k" and "0 \<le> a" and "a \<le> largest_fraction"
  shows "\<exists>v. normalize_weights (perturbed w a d dir) = Inr v \<and> (\<forall>x. unit_interval (v x))"
proof -
  let ?p = "perturbed w a d dir"
  have low: "smallest_total \<le> total_weight ?p" using perturbed_total [OF assms(1,3,4,5)] .
  have "0 < smallest_total" by (simp add: smallest_total_def)
  with low have pos: "0 < total_weight ?p" by linarith
  have "0 \<le> factor dir a" using factor_lower [OF assms(4,5), of dir] by (rule order_trans [rotated]) simp
  then have nonneg: "0 \<le> ?p x" for x using assms(1) by (auto simp: perturbed_factor fmul_def intro!: f64.rnd_nonneg)
  have "rnd64 (?p x) = ?p x" for x using assms(2) by (simp add: perturbed_factor fmul_def)
  then have "?p x \<le> total_weight ?p" for x
    unfolding total_weight_map by (intro f64.sum_from_ge_term) (auto simp: nonneg)
  then have "unit_interval (fdiv (?p x) (total_weight ?p))" for x using nonneg pos by (intro unit_div)
  then show ?thesis using pos by (simp add: normalize_weights_def Let_def not_le)
qed

lemma length_perturbation_plan: "length perturbation_plan = 14"
  by (simp add: perturbation_plan_def all_dimensions_def)

lemma perturbations_exist:
  assumes "\<forall>x\<in>set plan. \<exists>v. normalize_weights (perturbed w a (fst x) (snd x)) = Inr v \<and> (\<forall>d. unit_interval (v d))"
  shows "\<exists>ss. mapE (\<lambda>(d, dir). bindE (normalize_weights (perturbed w a d dir)) (\<lambda>v. Inr ((d, dir), v))) plan = Inr ss \<and>
    map fst ss = plan \<and> (\<forall>p\<in>set ss. \<forall>d. unit_interval (snd p d))"
  using assms
proof (induction plan)
  case (Cons x plan)
  obtain d dir where "x = (d, dir)" by (cases x)
  with Cons show ?case by fastforce
qed simp

lemma mapE_total: "mapE (\<lambda>x. Inr (f x)) xs = Inr (map f xs)"
  by (induction xs) simp_all

section \<open>Perturbed weights are valid weights\<close>

text \<open>
  The tolerance of \<open>validate_weights\<close> absorbs every rounding of a normalisation: the weights of each
  perturbation by a tenth pass the validation that the ranker applies to them.
\<close>

definition exact_total :: "weights \<Rightarrow> rat" where
  "exact_total w = sum_list (map w all_dimensions)"

lemma length_all_dimensions [simp]: "length all_dimensions = 7"
  by (simp add: all_dimensions_def)

lemma exact_total_unfold: "exact_total w = w DStructure + w DTask + w DScale + w DInformation + w DDensity + w DPrior + w DPerceptual"
  by (simp add: exact_total_def all_dimensions_def)

lemma exact_total_close:
  assumes "\<And>d. \<bar>v d - u d\<bar> \<le> e"
  shows "\<bar>exact_total v - exact_total u\<bar> \<le> 7 * e"
proof -
  have up: "v d \<le> u d + e" and low: "u d - e \<le> v d" for d using assms [of d] by (simp_all add: abs_le_iff)
  have "exact_total v \<le> exact_total u + 7 * e"
    using up [of DStructure] up [of DTask] up [of DScale] up [of DInformation] up [of DDensity] up [of DPrior] up [of DPerceptual]
    unfolding exact_total_unfold by linarith
  moreover have "exact_total u - 7 * e \<le> exact_total v"
    using low [of DStructure] low [of DTask] low [of DScale] low [of DInformation] low [of DDensity] low [of DPrior] low [of DPerceptual]
    unfolding exact_total_unfold by linarith
  ultimately show ?thesis by (simp add: abs_le_iff)
qed

lemma total_close:
  assumes "\<forall>d. 0 \<le> w d" and "exact_total w \<le> 3 / 2"
  shows "\<bar>total_weight w - exact_total w\<bar> \<le> 7 * round_error"
  using sum_from_error [of 0 0 0 "map w all_dimensions"] assms
  by (auto simp: total_weight_map exact_total_def)

lemma valid_total:
  assumes "\<forall>d. 0 \<le> w d" and "\<bar>fsub (total_weight w) 1\<bar> \<le> lit (1 / 1000000000)"
  shows "\<bar>exact_total w - 1\<bar> \<le> 1 / 100000000"
proof -
  have c: "lit (1 / 1000000000) < lit (2 / 1000000000)" by code_simp
  have "total_weight w - 1 \<le> 2 / 1000000000"
  proof (rule ccontr)
    assume "\<not> ?thesis"
    then have "lit (2 / 1000000000) \<le> fsub (total_weight w) 1" unfolding fsub_def by (intro rnd64_mono) simp
    with c assms(2) show False by linarith
  qed
  moreover have "- (2 / 1000000000) \<le> total_weight w - 1"
  proof (rule ccontr)
    assume "\<not> ?thesis"
    then have "fsub (total_weight w) 1 \<le> rnd64 (- (2 / 1000000000))" unfolding fsub_def by (intro rnd64_mono) simp
    then have "fsub (total_weight w) 1 \<le> - lit (2 / 1000000000)" by (simp only: rnd64_uminus)
    with c assms(2) show False by linarith
  qed
  moreover have "\<bar>total_weight w - exact_total w\<bar> \<le> 7 * round_error" if "total_weight w < 2"
    using sum_from_error_result [of 0 "map w all_dimensions"] assms(1) that
    by (auto simp: total_weight_map exact_total_def)
  ultimately show ?thesis unfolding round_error_def by linarith
qed

lemma exact_total_ge: "\<forall>d. 0 \<le> w d \<Longrightarrow> w d \<le> exact_total w"
  unfolding exact_total_def by (rule member_le_sum_list) auto

lemma exact_total_upd: "exact_total (w(d := x)) = exact_total w - w d + x"
  by (cases d) (simp_all add: exact_total_unfold)

lemma valid_closeI:
  assumes "\<forall>d. 0 \<le> v d" and "\<bar>exact_total v - 1\<bar> \<le> 1 / 100000000000"
  shows "validate_weights (\<lambda>d. Fin (v d)) = Inr v"
proof -
  have t: "\<bar>total_weight v - exact_total v\<bar> \<le> 7 * round_error"
    by (rule total_close [OF assms(1)]) (use assms(2) in linarith)
  then have near: "\<bar>total_weight v - 1\<bar> \<le> 1 / 10000000000" using assms(2) unfolding round_error_def by linarith
  have "\<bar>fsub (total_weight v) 1\<bar> \<le> lit (1 / 10000000000)"
  proof -
    have "fsub (total_weight v) 1 \<le> lit (1 / 10000000000)"
      unfolding fsub_def by (rule rnd64_mono) (use near in linarith)
    moreover have "rnd64 (- (1 / 10000000000)) \<le> fsub (total_weight v) 1"
      unfolding fsub_def by (rule rnd64_mono) (use near in linarith)
    ultimately show ?thesis unfolding rnd64_uminus by linarith
  qed
  also have "lit (1 / 10000000000) \<le> lit (1 / 1000000000)" by (rule rnd64_mono) simp
  finally have "\<not> lit (1 / 1000000000) < \<bar>fsub (total_weight v) 1\<bar>" by simp
  moreover have "find (\<lambda>d. \<not> weight_ok (Fin (v d))) all_dimensions = None"
    using assms(1) by (simp add: find_None_iff)
  ultimately show ?thesis by (simp add: validate_weights_def)
qed

fun intended_weight :: weights where
  "intended_weight DStructure = 30 / 100"
| "intended_weight DTask = 25 / 100"
| "intended_weight DScale = 15 / 100"
| "intended_weight DInformation = 15 / 100"
| "intended_weight d = 5 / 100"

lemma default_weights_valid: "validate_weights (\<lambda>d. Fin (default_weights d)) = Inr default_weights"
proof (rule valid_closeI)
  have range: "0 \<le> intended_weight d" "intended_weight d \<le> 1" and lit: "default_weights d = rnd64 (intended_weight d)" for d
    by (cases d; simp)+
  show "\<forall>d. 0 \<le> default_weights d" by (simp add: lit range f64.rnd_nonneg)
  have "\<bar>default_weights d - intended_weight d\<bar> \<le> round_error" for d
    unfolding lit using range [of d] by (intro rnd64_error) simp
  then have "\<bar>exact_total default_weights - exact_total intended_weight\<bar> \<le> 7 * round_error" by (rule exact_total_close)
  moreover have "exact_total intended_weight = 1" by (simp add: exact_total_unfold)
  ultimately show "\<bar>exact_total default_weights - 1\<bar> \<le> 1 / 100000000000" unfolding round_error_def by linarith
qed

lemma tenth_factor: "4 / 5 \<le> factor dir (lit (1 / 10))" "factor dir (lit (1 / 10)) \<le> 6 / 5"
proof -
  have "4 / 5 \<le> factor Decrease (lit (1 / 10))" "4 / 5 \<le> factor Increase (lit (1 / 10))"
    "factor Decrease (lit (1 / 10)) \<le> 6 / 5" "factor Increase (lit (1 / 10)) \<le> 6 / 5"
    by code_simp+
  then show "4 / 5 \<le> factor dir (lit (1 / 10))" "factor dir (lit (1 / 10)) \<le> 6 / 5" by (cases dir; simp)+
qed

lemma perturbed_exact:
  assumes "\<forall>d. 0 \<le> w d" and "\<bar>exact_total w - 1\<bar> \<le> 1 / 100000000"
  shows "\<forall>x. 0 \<le> perturbed w (lit (1 / 10)) d dir x"
    and "3 / 4 \<le> exact_total (perturbed w (lit (1 / 10)) d dir)"
    and "exact_total (perturbed w (lit (1 / 10)) d dir) \<le> 3 / 2"
proof -
  let ?f = "factor dir (lit (1 / 10))"
  have w: "0 \<le> w d" "w d \<le> exact_total w" using assms(1) exact_total_ge [OF assms(1)] by simp_all
  have lo: "4 / 5 * w d \<le> w d * ?f" using mult_right_mono [OF tenth_factor(1) w(1)] by (simp add: mult.commute)
  have hi: "w d * ?f \<le> 6 / 5 * w d" using mult_right_mono [OF tenth_factor(2) w(1)] by (simp add: mult.commute)
  have "\<bar>w d * ?f\<bar> \<le> 2" using lo hi w assms(2) by linarith
  then have e: "\<bar>fmul (w d) ?f - w d * ?f\<bar> \<le> round_error" unfolding fmul_def by (rule rnd64_error)
  have "0 \<le> ?f" using tenth_factor(1) by (rule order_trans [rotated]) simp
  then show "\<forall>x. 0 \<le> perturbed w (lit (1 / 10)) d dir x"
    using assms(1) by (auto simp: perturbed_factor fmul_def intro!: rnd64_nonneg)
  show "3 / 4 \<le> exact_total (perturbed w (lit (1 / 10)) d dir)"
    "exact_total (perturbed w (lit (1 / 10)) d dir) \<le> 3 / 2"
    using e lo hi w assms(2) unfolding perturbed_factor exact_total_upd round_error_def by linarith+
qed

lemma normalized_valid:
  assumes "\<forall>d. 0 \<le> p d" and "3 / 4 \<le> exact_total p" and "exact_total p \<le> 3 / 2"
  shows "\<exists>v. normalize_weights p = Inr v \<and> validate_weights (\<lambda>d. Fin (v d)) = Inr v"
proof -
  let ?T = "total_weight p" and ?S = "exact_total p"
  have t: "\<bar>?T - ?S\<bar> \<le> 7 * round_error" using total_close [OF assms(1,3)] .
  then have T: "1 / 2 \<le> ?T" using assms(2) unfolding round_error_def by linarith
  define v where "v d = fdiv (p d) ?T" for d
  have q: "0 \<le> p d / ?T" "p d / ?T \<le> 2" for d
  proof -
    have "p d \<le> 2 * ?T" using exact_total_ge [OF assms(1), of d] t assms(2) unfolding round_error_def by linarith
    then show "p d / ?T \<le> 2" using T by (simp add: divide_le_eq)
    show "0 \<le> p d / ?T" using T assms(1) by simp
  qed
  then have v_nonneg: "\<forall>d. 0 \<le> v d" by (simp add: v_def fdiv_def rnd64_nonneg)
  have e: "\<bar>v d - p d / ?T\<bar> \<le> round_error" for d
    unfolding v_def fdiv_def using q [of d] by (intro rnd64_error) simp
  have "exact_total (\<lambda>d. p d / ?T) = ?S / ?T" by (simp add: exact_total_unfold add_divide_distrib)
  then have "\<bar>exact_total v - ?S / ?T\<bar> \<le> 7 * round_error"
    using exact_total_close [where v = v and u = "\<lambda>d. p d / ?T", OF e] by simp
  moreover have "\<bar>?S / ?T - 1\<bar> \<le> 14 * round_error"
  proof -
    have "\<bar>?S / ?T - 1\<bar> = \<bar>?S - ?T\<bar> / ?T" using T by (simp add: field_simps abs_if)
    also have "\<dots> \<le> 7 * round_error / (1 / 2)" using t T by (intro frac_le) (simp_all add: abs_minus_commute round_error_def)
    finally show ?thesis by simp
  qed
  ultimately have "\<bar>exact_total v - 1\<bar> \<le> 1 / 100000000000" unfolding round_error_def by linarith
  then have "validate_weights (\<lambda>d. Fin (v d)) = Inr v" by (rule valid_closeI [OF v_nonneg])
  moreover have "normalize_weights p = Inr v" using T by (auto simp: normalize_weights_def Let_def v_def)
  ultimately show ?thesis by blast
qed

lemma perturbation_valid:
  assumes "validate_weights raw = Inr w"
  shows "\<exists>v. normalize_weights (perturbed w (lit (1 / 10)) d dir) = Inr v \<and> validate_weights (\<lambda>d. Fin (v d)) = Inr v"
proof -
  note w = validate_weightsD [OF assms]
  show ?thesis by (rule normalized_valid) (rule perturbed_exact [OF w(1) valid_total [OF w(1,3)]])+
qed

text \<open>The rounded and clamped utility stays close to the exact weighted sum.\<close>

lemma utility_close:
  assumes "validate_weights raw = Inr w" and "\<forall>d. unit_interval (x d)"
  shows "\<bar>clamp01 (total_weight (\<lambda>d. fmul (x d) (w d))) - exact_total (\<lambda>d. x d * w d)\<bar> \<le> 1 / 50000000"
proof -
  let ?u = "\<lambda>d. x d * w d" and ?v = "\<lambda>d. fmul (x d) (w d)"
  note w = validate_weightsD [OF assms(1)]
  have one: "\<bar>exact_total w - 1\<bar> \<le> 1 / 100000000" by (rule valid_total [OF w(1,3)])
  have x: "0 \<le> x d" "x d \<le> 1" for d using assms(2) by (simp_all add: unit_interval_def)
  have u: "0 \<le> ?u d" "?u d \<le> w d" for d using x [of d] w(1) by (simp_all add: mult_left_le_one_le)
  have "exact_total ?u \<le> exact_total w" unfolding exact_total_def by (rule sum_list_mono) (rule u)
  then have top: "exact_total ?u \<le> 1 + 1 / 100000000" using one by linarith
  have "\<bar>?v d - ?u d\<bar> \<le> round_error" for d
  proof -
    have "w d \<le> 2" using exact_total_ge [OF w(1), of d] one by linarith
    then have "?u d \<le> 2" using u(2) [of d] by linarith
    then show ?thesis unfolding fmul_def using u(1) [of d] by (intro rnd64_error) simp
  qed
  then have products: "\<bar>exact_total ?v - exact_total ?u\<bar> \<le> 7 * round_error" by (rule exact_total_close)
  have v: "\<forall>d. 0 \<le> ?v d" using u(1) by (simp add: fmul_def f64.rnd_nonneg)
  have "\<bar>total_weight ?v - exact_total ?v\<bar> \<le> 7 * round_error"
    by (rule total_close [OF v]) (use products top in \<open>unfold round_error_def, linarith\<close>)
  then have sum: "\<bar>total_weight ?v - exact_total ?u\<bar> \<le> 14 * round_error" using products by linarith
  have "0 \<le> total_weight ?v" unfolding total_weight_map by (rule f64.sum_from_ge) (use v in simp_all)
  then have "clamp01 (total_weight ?v) = min 1 (total_weight ?v)" by (simp add: clamp01_def)
  then show ?thesis using sum top unfolding round_error_def by (simp only: min_def split: if_split) linarith
qed

lemma evaluate_utility:
  assumes "evaluate w s r c f e = Inr v" and "\<forall>d. unit_interval (raw_score s r c f e d)"
  shows "fe_utility v = clamp01 (total_weight (\<lambda>d. fmul (raw_score s r c f e d) (w d)))"
  using assms by (auto simp: evaluate_def Let_def total_weight_map foldl_fadd component_def comp_def clamp01_unit split: if_splits)

section \<open>Properties\<close>

text \<open>
  C14: the utility is the weighted mean of the seven scores. For requirements that satisfy the declared
  schema and weights that passed the model's validation, the components come in the declared order, each
  carries the score of its dimension as computed (the clamp of \<open>component\<close> changes none of them) and
  lies in the unit interval, and the reported utility, whatever binary64 rounded in its products and its
  sum and whatever its own clamp cut off, is within \<open>2e-8\<close> of the exact weighted sum of the scores. The
  bound covers a total weight that the validation lets differ from 1.
\<close>

theorem fitness_scores_are_fractions:
  assumes "requirements_schema r" and "validate_weights raw = Inr w" and "evaluate w s r c f e = Inr v"
  shows "map fc_dimension (fe_components v) = all_dimensions \<and>
    map fc_raw (fe_components v) = map (raw_score s r c f e) all_dimensions \<and>
    list_all unit_interval (map fc_raw (fe_components v)) \<and>
    \<bar>fe_utility v - (\<Sum>d\<leftarrow>all_dimensions. raw_score s r c f e d * w d)\<bar> \<le> 1 / 50000000"
proof -
  have "list_all structure_schema (rq_structures r)" using assms(1) by (simp add: requirements_schema_def)
  then have unit: "\<forall>d. unit_interval (raw_score s r c f e d)" by (simp add: unit_raw_score)
  show ?thesis
    using utility_close [OF assms(2) unit] unit
    by (simp add: evaluate_utility [OF assms(3) unit] exact_total_def evaluate_components [OF assms(3)]
        component_def comp_def clamp01_unit list_all_iff)
qed

text \<open>
  C28: the sensitivity analysis always runs on validated weights. For every representable fraction
  below one, each of the fourteen perturbations (each dimension once decreased and once increased, in
  order) has a positive total and normalises to weights in the unit interval, and the analysis reports
  stability exactly when no perturbation changes the winner.
\<close>

theorem sensitivity_runs_and_is_complete:
  assumes "validate_weights raw = Inr w" and "\<forall>d. rnd64 (w d) = w d" and "0 < a" and "a \<le> largest_fraction"
  shows "\<exists>ss. weight_perturbations w a = Inr ss \<and> map fst ss = perturbation_plan \<and>
    (\<forall>p\<in>set ss. \<forall>d. unit_interval (snd p d)) \<and>
    (\<exists>sn. winner_sensitivity base w (\<lambda>v. Inr (rank v)) a = Inr sn \<and> sn_scenarios sn = 14 \<and>
       (sn_stable sn \<longleftrightarrow> (\<forall>p\<in>set ss. rank (snd p) = Some base)))"
proof -
  note w = validate_weightsD [OF assms(1)]
  obtain k where k: "1 / 16 \<le> w k" using some_weight_large [OF w(3)] by blast
  have "a < 1" using assms(4) by (simp add: largest_fraction_def)
  then obtain ss where ss: "weight_perturbations w a = Inr ss" "map fst ss = perturbation_plan"
    "\<forall>p\<in>set ss. \<forall>d. unit_interval (snd p d)"
    using perturbations_exist [of perturbation_plan w a] normalize_perturbed [OF w(1) assms(2) k _ assms(4)] assms(3)
    by (force simp: weight_perturbations_def)
  have len: "length ss = 14" using arg_cong [OF ss(2), of length] by (simp add: length_perturbation_plan)
  have "mapE (\<lambda>(_, v). bindE (Inr (rank v)) (\<lambda>k. Inr (k \<noteq> Some base))) ss =
      (Inr (map (\<lambda>p. rank (snd p) \<noteq> Some base) ss) :: string + bool list)"
    by (subst mapE_total [symmetric]) (simp add: case_prod_unfold)
  then obtain sn where "winner_sensitivity base w (\<lambda>v. Inr (rank v)) a = Inr sn" "sn_scenarios sn = 14"
    "sn_stable sn \<longleftrightarrow> filter id (map (\<lambda>p. rank (snd p) \<noteq> Some base) ss) = []"
    by (simp add: winner_sensitivity_def ss(1) Let_def len)
  then show ?thesis using ss by (auto simp: filter_empty_conv)
qed

definition sample_signature :: signature where
  "sample_signature = \<lparr>sg_numeric = 2, sg_categorical = 1, sg_rows = 200, sg_columns = 3, sg_edges = 0, sg_depth = 0,
     sg_outliers = None, sg_high_variance = None, sg_clusters = None, sg_density_variation = None,
     sg_topology = Tabular, sg_time_series = None, sg_geospatial = None, sg_periodicity = None,
     sg_fingerprint = ''fp'', sg_kernel = ''k'', sg_facts = None, sg_preferred = None\<rparr>"

theorem fitness_scores_are_fractions_witness:
  "\<exists>v. evaluate default_weights sample_signature (default_requirements CompareClusters (Inl Large))
       (candidate_of ClusterRegions) FCluster None = Inr v \<and> list_all unit_interval (map fc_raw (fe_components v)) \<and>
     \<bar>fe_utility v - (\<Sum>d\<leftarrow>all_dimensions. raw_score sample_signature (default_requirements CompareClusters (Inl Large))
       (candidate_of ClusterRegions) FCluster None d * default_weights d)\<bar> \<le> 1 / 50000000"
proof -
  let ?r = "default_requirements CompareClusters (Inl Large)"
  have ok: "requirements_schema ?r"
    using default_requirements_schema by simp
  obtain v where v: "evaluate default_weights sample_signature ?r (candidate_of ClusterRegions) FCluster None = Inr v"
    by (simp add: evaluate_def assigned_to_family_def Let_def candidate_id_of del: candidate_of.simps)
  from fitness_scores_are_fractions [OF ok default_weights_valid v] v show ?thesis by blast
qed

theorem sensitivity_runs_and_is_complete_witness:
  "\<exists>sn. winner_sensitivity ''k'' default_weights (\<lambda>v. Inr (if v DTask < v DStructure then Some ''k'' else None))
       (lit (1 / 10)) = Inr sn \<and> sn_scenarios sn = 14"
proof -
  let ?raw = "\<lambda>d. Fin (default_weights d)"
  note valid = default_weights_valid
  have rep: "\<forall>d. rnd64 (default_weights d) = default_weights d"
  proof
    show "rnd64 (default_weights d) = default_weights d" for d by (cases d) simp_all
  qed
  have a: "0 < lit (1 / 10)" "lit (1 / 10) \<le> largest_fraction" by code_simp+
  from sensitivity_runs_and_is_complete
    [OF valid rep a, of "''k''" "\<lambda>v. if v DTask < v DStructure then Some ''k'' else None"]
  show ?thesis by blast
qed

end
