(* ===== verification/Moneta_Constraints.thy ===== *)
theory Moneta_Constraints
  imports Moneta_Fitness
begin

text \<open>
  The first stage of the hypothesis engine (\<open>src/moneta/representation/MonetaHypothesisEngine.ts\<close>): the
  candidates it considers and the hard constraints each must pass, with the reason and the
  machine-readable code of the first one it fails.
\<close>

section \<open>Rendering of numbers\<close>

text \<open>
  \<open>x.toFixed(f)\<close> for \<open>0 <= x\<close>: the integer nearest to \<open>x * 10 ^ f\<close>, the larger one on a tie, with the
  decimal point put back.
\<close>

definition pad_zeros :: "nat \<Rightarrow> string \<Rightarrow> string" where
  "pad_zeros n s = replicate (n - length s) (CHR ''0'') @ s"

definition to_fixed :: "nat \<Rightarrow> rat \<Rightarrow> string" where
  "to_fixed f x =
     (let n = nat \<lfloor>x * 10 ^ f + 1 / 2\<rfloor>; s = pad_zeros (Suc f) (show_nat n); k = length s - f
      in if f = 0 then show_nat n else take k s @ ''.'' @ drop k s)"

lemma to_fixed_examples: "to_fixed 3 (1 / 20) = ''0.050''" "to_fixed 1 100 = ''100.0''" "to_fixed 2 (5 / 1000) = ''0.01''"
  by code_simp+

section \<open>Checks\<close>

type_synonym failure = "string \<times> constraint_code"

fun first_failure :: "failure option list \<Rightarrow> failure option" where
  "first_failure [] = None"
| "first_failure (None # fs) = first_failure fs"
| "first_failure (Some f # fs) = Some f"

lemma first_failure_None: "first_failure fs = None \<longleftrightarrow> (\<forall>f\<in>set fs. f = None)"
  by (induction fs rule: first_failure.induct) simp_all

definition fail_if :: "bool \<Rightarrow> string \<Rightarrow> constraint_code \<Rightarrow> failure option" where
  "fail_if b reason code = (if b then Some (reason, code) else None)"

lemma fail_if_None [simp]: "fail_if b reason code = None \<longleftrightarrow> \<not> b"
  by (simp add: fail_if_def)

definition hardware_check :: "signature \<Rightarrow> requirements \<Rightarrow> failure option" where
  "hardware_check s r = (case hw_max_elements (rq_hardware r) of
     None \<Rightarrow> None
   | Some m \<Rightarrow> fail_if (of_int (sg_rows s) > m)
       (''Dataset has '' @ show_int (sg_rows s) @ '' rows but hardware allows at most '' @ show_int \<lfloor>m\<rfloor> @ '' elements'')
       HardwareElementBudget)"

definition frustum_check :: "requirements \<Rightarrow> evidence option \<Rightarrow> failure option" where
  "frustum_check r e = (case (case e of None \<Rightarrow> None | Some x \<Rightarrow> ev_measured x) of
     None \<Rightarrow> None
   | Some m \<Rightarrow> fail_if (ms_frustum m > rq_frustum r)
       (''Candidate frustum exclusion fraction '' @ to_fixed 2 (ms_frustum m) @
        '' exceeds maximum frustum exclusion tolerance '' @ to_fixed 2 (rq_frustum r))
       FrustumExclusion)"

definition has_critical_goal :: "requirements \<Rightarrow> information \<Rightarrow> bool" where
  "has_critical_goal r i = list_ex (\<lambda>g. pg_information g = i \<and> pg_priority g = Critical) (rq_goals r)"

definition requires_structure :: "requirements \<Rightarrow> structure_type \<Rightarrow> bool" where
  "requires_structure r t = list_ex (\<lambda>q. sr_type q = t \<and> sr_importance q \<ge> 1 / 2) (rq_structures r)"

definition critical_loss_check :: "requirements \<Rightarrow> candidate \<Rightarrow> failure option" where
  "critical_loss_check r c =
     (case find (\<lambda>g. pg_priority g = Critical \<and> pg_information g \<in> set (cd_loses c)) (rq_goals r) of
        None \<Rightarrow> None
      | Some g \<Rightarrow> Some (''Candidate loses critical information: '' @ information_name (pg_information g),
          InformationLossCritical))"

definition identity_loss_check :: "requirements \<Rightarrow> candidate \<Rightarrow> failure option" where
  "identity_loss_check r c = fail_if
     (InfIndividualObservationIdentity \<in> set (cd_loses c) \<and> \<not> lb_identity (rq_loss r) \<and>
      (has_critical_goal r InfIndividualObservationIdentity \<or> requires_structure r StObservationIdentity))
     ''Identity loss is not acceptable for this request'' IdentityLoss"

definition metric_loss_check :: "requirements \<Rightarrow> candidate \<Rightarrow> failure option" where
  "metric_loss_check r c = fail_if
     (InfExactMetricValues \<in> set (cd_loses c) \<and> \<not> lb_exact_metric (rq_loss r) \<and> has_critical_goal r InfExactMetricValues)
     ''Exact metric loss is not acceptable for this request'' ExactMetricLoss"

definition cluster_loss_check :: "requirements \<Rightarrow> candidate \<Rightarrow> failure option" where
  "cluster_loss_check r c = fail_if
     (InfClusterSeparation \<in> set (cd_loses c) \<and> \<not> lb_cluster (rq_loss r) \<and>
      (has_critical_goal r InfClusterSeparation \<or> requires_structure r StClusterSeparation))
     ''Cluster separation loss is not acceptable for this request'' ClusterSeparationLoss"

definition well_named :: "string \<Rightarrow> bool" where
  "well_named f \<longleftrightarrow> f \<noteq> [] \<and> js_trim f = f"

definition manifold_check :: "candidate \<Rightarrow> failure option" where
  "manifold_check c = fail_if (cd_id c = ManifoldEmbedding)
     ''MANIFOLD_EMBEDDING requires authoritative manifold coordinates/evidence; the current DatasetSignature does not carry manifold authority''
     ManifoldAuthorityRequired"

definition distribution_check :: "requirements \<Rightarrow> candidate \<Rightarrow> failure option" where
  "distribution_check r c = fail_if
     (cd_id c = DistributionField \<and>
      \<not> (case declared_dimensions r of [d] \<Rightarrow> well_named d | _ \<Rightarrow> False))
     ''DISTRIBUTION_FIELD requires exactly one explicit primary analytical dimension; dataset numeric-column availability is not analytical intent''
     AnalyticalDimensionsRequired"

definition density_check :: "requirements \<Rightarrow> candidate \<Rightarrow> failure option" where
  "density_check r c = fail_if
     (cd_id c = DensityField \<and>
      \<not> (case declared_dimensions r of [x, y] \<Rightarrow> well_named x \<and> well_named y \<and> x \<noteq> y | _ \<Rightarrow> False))
     ''DENSITY_FIELD requires exactly two explicit, distinct primary analytical dimensions; dataset numeric-column availability is not analytical intent''
     AnalyticalDimensionsRequired"

definition aggregate_check :: "requirements \<Rightarrow> candidate \<Rightarrow> failure option" where
  "aggregate_check r c = fail_if
     (cd_id c = AggregateVolume \<and>
      (case rq_aggregate r of None \<Rightarrow> True | Some a \<Rightarrow> aggregate_error a \<noteq> None))
     ''AGGREGATE_VOLUME requires explicit grouped-aggregate semantics; presentation encodings and dataset columns are not analytical intent''
     AggregateSemanticsRequired"

definition cluster_authority_valid :: "requirements \<Rightarrow> bool" where
  "cluster_authority_valid r = (case rq_cluster r of None \<Rightarrow> False | Some f \<Rightarrow> well_named f)"

definition cluster_coordinates_valid :: "requirements \<Rightarrow> bool" where
  "cluster_coordinates_valid r =
     (let fs = declared_dimensions r in
      2 \<le> length fs \<and> length fs \<le> 3 \<and> list_all well_named fs \<and> length (js_uniq fs) = length fs \<and>
      (\<not> cluster_authority_valid r \<or> the (rq_cluster r) \<notin> set fs))"

definition cluster_check :: "signature \<Rightarrow> requirements \<Rightarrow> candidate \<Rightarrow> failure option" where
  "cluster_check s r c =
     (if cd_id c \<noteq> ClusterRegions then None
      else if \<not> cluster_authority_valid r \<or> \<not> cluster_coordinates_valid r
        then Some (''CLUSTER_REGIONS requires one explicit SOURCE_PARTITION field plus 2 or 3 distinct coordinate fields; categorical/color/layout/density inference is not authority'',
          ClusterAuthorityRequired)
      else fail_if (sg_categorical s < 1 \<or> sg_numeric s < int (length (declared_dimensions r)))
        ''Dataset signature cannot support the declared source partition and requested cluster coordinate dimensionality''
        ClusterAuthorityRequired)"

definition graph_authority_valid :: "requirements \<Rightarrow> bool" where
  "graph_authority_valid r =
     (case rq_graph r of None \<Rightarrow> False
      | Some v \<Rightarrow> (case validate_graph_authority v of Inr _ \<Rightarrow> True | Inl _ \<Rightarrow> False))"

definition graph_check :: "signature \<Rightarrow> requirements \<Rightarrow> candidate \<Rightarrow> failure option" where
  "graph_check s r c =
     (if cd_id c \<noteq> RelationshipGraph then None
      else if \<not> graph_authority_valid r \<or> sg_edges s \<le> 0
        then Some (''RELATIONSHIP_GRAPH requires explicit SOURCE_EDGES authority plus source-provided edges; GRAPH topology, edge-count heuristics, layout, proximity, correlation and k-NN inference are not authority'',
          GraphAuthorityRequired)
      else fail_if (sg_rows s > graph_max_nodes \<or> sg_edges s > graph_max_edges)
        (''RELATIONSHIP_GRAPH exceeds V1 source-graph envelope ('' @ show_int graph_max_nodes @ '' nodes / '' @
         show_int graph_max_edges @ '' edges)'')
        GraphResourceEnvelope)"

definition layout_check :: "signature \<Rightarrow> candidate \<Rightarrow> vr_layout \<Rightarrow> failure option" where
  "layout_check s c l = first_failure
     [fail_if (l = ForceDirected3d \<and> sg_topology s \<noteq> Graph \<and> sg_edges s = 0 \<and>
               cd_id c \<noteq> RelationshipGraph \<and> cd_id c \<noteq> ClusterRegions)
        ''ForceDirected requires graph topology or cluster relationships'' LayoutTopologyRequirement,
      fail_if (l = RadialOrbital \<and> sg_topology s \<noteq> Hierarchy \<and> sg_depth s \<le> 1 \<and> cd_id c \<noteq> HierarchicalSpace)
        ''RadialOrbital requires hierarchical structure'' LayoutTopologyRequirement,
      fail_if (l = GeoSurface \<and> sg_geospatial s \<noteq> Some True \<and> sg_topology s \<noteq> Geo)
        ''GeoSurface requires geospatial coordinates'' LayoutTopologyRequirement,
      fail_if (l = TimeRibbon \<and> sg_time_series s \<noteq> Some True \<and> sg_topology s \<noteq> TimeSeries)
        ''TimeRibbon requires temporal time-series structure'' LayoutTopologyRequirement,
      fail_if (l = VectorStreamline \<and> sg_topology s \<noteq> VectorField)
        ''VectorStreamline layout requires vector field topology'' LayoutTopologyRequirement,
      fail_if (l = SpectralVolume \<and> sg_periodicity s \<noteq> Some True)
        ''SpectralVolume layout requires detectable harmonic frequency structure'' LayoutTopologyRequirement]"

definition candidate_constraint_check :: "signature \<Rightarrow> candidate_constraint \<Rightarrow> failure option" where
  "candidate_constraint_check s k = first_failure
     [fail_if (cc_temporal k \<and> sg_time_series s \<noteq> Some True \<and> sg_topology s \<noteq> TimeSeries)
        (cc_description k) CandidateStructureRequirement,
      fail_if (cc_graph k \<and> sg_edges s = 0 \<and> sg_topology s \<noteq> Graph) (cc_description k) CandidateStructureRequirement,
      fail_if (cc_hierarchy k \<and> sg_topology s \<noteq> Hierarchy \<and> sg_depth s \<le> 1)
        (cc_description k) CandidateStructureRequirement,
      fail_if (cc_geospatial k \<and> sg_geospatial s \<noteq> Some True \<and> sg_topology s \<noteq> Geo)
        (cc_description k) CandidateStructureRequirement,
      (case cc_min_dims k of None \<Rightarrow> None
       | Some n \<Rightarrow> fail_if (n \<noteq> 0 \<and> sg_numeric s < n)
           (''Requires at least '' @ show_int n @ '' numeric dimensions'') CandidateStructureRequirement),
      (case cc_max_dims k of None \<Rightarrow> None
       | Some n \<Rightarrow> fail_if (n \<noteq> 0 \<and> sg_numeric s > n)
           (''Supports at most '' @ show_int n @ '' numeric dimensions'') CandidateStructureRequirement)]"

definition scale_check :: "signature \<Rightarrow> candidate \<Rightarrow> failure option" where
  "scale_check s c = first_failure
     [fail_if (sg_rows s < sl_min (cd_scale c))
        (''Candidate requires at least '' @ show_int (sl_min (cd_scale c)) @ '' rows, received '' @ show_int (sg_rows s))
        ScaleRange,
      fail_if (sg_rows s > sl_max (cd_scale c))
        (''Candidate supports at most '' @ show_int (sl_max (cd_scale c)) @ '' rows, received '' @ show_int (sg_rows s))
        ScaleRange]"

text \<open>The first failing check, in the order of the source; \<open>None\<close> when all are satisfied.\<close>

definition check_hard_constraints ::
  "signature \<Rightarrow> requirements \<Rightarrow> candidate \<Rightarrow> vr_layout \<Rightarrow> evidence option \<Rightarrow> failure option" where
  "check_hard_constraints s r c l e = first_failure
     ([hardware_check s r, frustum_check r e, critical_loss_check r c, identity_loss_check r c,
       metric_loss_check r c, cluster_loss_check r c, manifold_check c, distribution_check r c,
       density_check r c, aggregate_check r c, cluster_check s r c, graph_check s r c, layout_check s c l] @
      map (candidate_constraint_check s) (cd_constraints c) @ [scale_check s c])"

definition all_satisfied :: string where
  "all_satisfied = ''All hard constraints satisfied''"

section \<open>Candidates\<close>

definition generate_candidates :: "(family \<times> candidate_id \<times> vr_layout) list" where
  "generate_candidates =
     concat (map (\<lambda>f. concat (map (\<lambda>l. map (\<lambda>c. (f, c, l)) (family_candidates f)) (family_layouts f))) all_families)"

definition infer_scale :: "int \<Rightarrow> scale" where
  "infer_scale n = (if n \<le> 100 then Small else if n \<le> 2000 then Medium else if n \<le> 50000 then Large else Massive)"

lemma generated_assigned: "(f, c, l) \<in> set generate_candidates \<Longrightarrow> reasoning_family c = f \<and> layout_compatible f l"
  by (auto simp: generate_candidates_def family_candidates_iff layout_compatible_def)

lemma set_all_families: "set all_families = UNIV"
  by (auto simp: all_families_def intro: family.exhaust)

lemma generated_iff: "(f, c, l) \<in> set generate_candidates \<longleftrightarrow> reasoning_family c = f \<and> layout_compatible f l"
  by (auto simp: generate_candidates_def family_candidates_iff layout_compatible_def set_all_families image_iff)

section \<open>What a passing candidate guarantees\<close>

lemma passed_all: "check_hard_constraints s r c l e = None \<Longrightarrow> f \<in> set
     ([hardware_check s r, frustum_check r e, critical_loss_check r c, identity_loss_check r c,
       metric_loss_check r c, cluster_loss_check r c, manifold_check c, distribution_check r c,
       density_check r c, aggregate_check r c, cluster_check s r c, graph_check s r c, layout_check s c l] @
      map (candidate_constraint_check s) (cd_constraints c) @ [scale_check s c]) \<Longrightarrow> f = None"
  unfolding check_hard_constraints_def first_failure_None by blast

lemma passed_critical:
  assumes "check_hard_constraints s r c l e = None" and "g \<in> set (rq_goals r)" and "pg_priority g = Critical"
  shows "pg_information g \<notin> set (cd_loses c)"
proof -
  have "critical_loss_check r c = None" using passed_all [OF assms(1), of "critical_loss_check r c"] by simp
  then show ?thesis using assms(2,3) by (auto simp: critical_loss_check_def find_None_iff split: option.splits)
qed

lemma passed_scale:
  assumes "check_hard_constraints s r c l e = None"
  shows "sl_min (cd_scale c) \<le> sg_rows s \<and> sg_rows s \<le> sl_max (cd_scale c)"
  using passed_all [OF assms, of "scale_check s c"] by (auto simp: scale_check_def first_failure_None)

lemma passed_hardware:
  assumes "check_hard_constraints s r c l e = None" and "hw_max_elements (rq_hardware r) = Some m"
  shows "of_int (sg_rows s) \<le> m"
  using passed_all [OF assms(1), of "hardware_check s r"] assms(2) by (simp add: hardware_check_def not_less)

lemma passed_frustum:
  assumes "check_hard_constraints s r c l (Some e) = None" and "ev_measured e = Some m"
  shows "ms_frustum m \<le> rq_frustum r"
  using passed_all [OF assms(1), of "frustum_check r (Some e)"] assms(2) by (simp add: frustum_check_def not_less)

lemma passed_graph:
  assumes "check_hard_constraints s r (candidate_of RelationshipGraph) l e = None"
  shows "graph_authority_valid r \<and> 0 < sg_edges s \<and> sg_rows s \<le> graph_max_nodes \<and> sg_edges s \<le> graph_max_edges"
  using passed_all [OF assms, of "graph_check s r (candidate_of RelationshipGraph)"]
  by (simp add: graph_check_def not_less not_le del: candidate_of.simps split: if_splits)

lemma manifold_never_passes: "check_hard_constraints s r (candidate_of ManifoldEmbedding) l e \<noteq> None"
  using passed_all [of s r "candidate_of ManifoldEmbedding" l e "manifold_check (candidate_of ManifoldEmbedding)"]
  by (force simp: manifold_check_def simp del: candidate_of.simps)

lemmas check_defs = hardware_check_def frustum_check_def critical_loss_check_def identity_loss_check_def
  metric_loss_check_def cluster_loss_check_def manifold_check_def distribution_check_def density_check_def
  aggregate_check_def cluster_check_def graph_check_def layout_check_def candidate_constraint_check_def scale_check_def

section \<open>Properties\<close>

text \<open>
  A candidate that passes the hard constraints loses no information a critical goal asks for, is
  inside its declared row range and the element budget of the hardware, keeps any measured frustum
  exclusion within the tolerance, is never the manifold embedding, and if it is the relationship graph
  then the requirements carry a valid source-edge authority and the graph fits the envelope.
\<close>

theorem passing_candidate_is_admissible:
  assumes "check_hard_constraints s r (candidate_of c) l e = None"
  shows "{pg_information g |g. g \<in> set (rq_goals r) \<and> pg_priority g = Critical} \<inter> set (cd_loses (candidate_of c)) = {} \<and>
    sl_min (cd_scale (candidate_of c)) \<le> sg_rows s \<and> sg_rows s \<le> sl_max (cd_scale (candidate_of c)) \<and>
    pred_option (\<lambda>m. of_int (sg_rows s) \<le> m) (hw_max_elements (rq_hardware r)) \<and>
    pred_option (\<lambda>x. pred_option (\<lambda>m. ms_frustum m \<le> rq_frustum r) (ev_measured x)) e \<and>
    c \<noteq> ManifoldEmbedding \<and>
    (c = RelationshipGraph \<longrightarrow> graph_authority_valid r \<and> 0 < sg_edges s \<and> sg_rows s \<le> graph_max_nodes \<and>
       sg_edges s \<le> graph_max_edges)"
proof -
  have "pred_option (\<lambda>m. of_int (sg_rows s) \<le> m) (hw_max_elements (rq_hardware r))"
    using passed_hardware [OF assms] by (cases "hw_max_elements (rq_hardware r)") auto
  moreover have "pred_option (\<lambda>x. pred_option (\<lambda>m. ms_frustum m \<le> rq_frustum r) (ev_measured x)) e"
    using passed_frustum assms by (cases e) (auto simp: option.pred_set)
  moreover have "c \<noteq> ManifoldEmbedding" using assms manifold_never_passes by blast
  moreover have "c = RelationshipGraph \<longrightarrow> graph_authority_valid r \<and> 0 < sg_edges s \<and> sg_rows s \<le> graph_max_nodes \<and>
       sg_edges s \<le> graph_max_edges"
    using passed_graph assms by blast
  ultimately show ?thesis using passed_critical [OF assms] passed_scale [OF assms] by blast
qed

definition sample_requirements :: requirements where
  "sample_requirements = default_requirements DistributionAnalysis (Inr [''x'', ''y''])"

lemma sample_density_passes:
  "check_hard_constraints sample_signature sample_requirements (candidate_of DensityField) Grid3d None = None"
  unfolding check_hard_constraints_def first_failure_None
    by (simp add: check_defs candidate_density_field_def sample_signature_def sample_requirements_def
      default_requirements_def default_intent_def default_goals_def default_hardware_def Let_def goal_def need_def
      has_critical_goal_def requires_structure_def
      declared_dimensions_def well_named_def js_trim_def js_ws_def first_failure_None find_None_iff)

theorem passing_candidate_is_admissible_witness:
  "check_hard_constraints sample_signature sample_requirements (candidate_of DensityField) Grid3d None = None \<and>
   sl_min (cd_scale (candidate_of DensityField)) \<le> sg_rows sample_signature"
  using passing_candidate_is_admissible [OF sample_density_passes] sample_density_passes by blast

end
