(* ===== verification/Moneta_Policy.thy ===== *)
theory Moneta_Policy
  imports Moneta_Constraints "HOL-Library.Product_Lexorder" "HOL-Library.List_Lexorder" "HOL-Library.Multiset"
begin

text \<open>
  Scored candidates, their order, and the decision policy
  (\<open>src/moneta/representation/DecisionPolicy.ts\<close>, \<open>sortCandidates\<close> and the candidate records of
  \<open>RepresentationDecision.ts\<close>). Equal scores are ordered by \<open>localeCompare\<close> of the candidate keys; the
  keys hold upper-case letters, digits, underscores and a colon, which the root collation orders as
  underscore, colon, digits, letters.
\<close>

section \<open>Scored candidates\<close>

record candidate_score =
  cs_family :: family
  cs_id :: candidate_id
  cs_layout :: vr_layout
  cs_score :: rat
  cs_components :: "fitness_component list"
  cs_disqualified :: bool
  cs_reason :: "string option"
  cs_code :: "constraint_code option"
  cs_preserves :: "information list"
  cs_loses :: "information list"

definition key_of :: "candidate_id \<Rightarrow> vr_layout \<Rightarrow> string" where
  "key_of c l = candidate_name c @ '':'' @ layout_name l"

definition candidate_key :: "candidate_score \<Rightarrow> string" where
  "candidate_key c = key_of (cs_id c) (cs_layout c)"

definition collation_weight :: "char \<Rightarrow> nat" where
  "collation_weight c = (if c = CHR ''_'' then 0 else if c = CHR '':'' then 1 else of_char c)"

definition sort_rank :: "candidate_score \<Rightarrow> rat \<times> nat list" where
  "sort_rank c = (- cs_score c, map collation_weight (candidate_key c))"

definition sort_candidates :: "candidate_score list \<Rightarrow> candidate_score list" where
  "sort_candidates cs = sort_key sort_rank cs"

lemma set_sort_candidates [simp]: "set (sort_candidates cs) = set cs"
  by (simp add: sort_candidates_def)

lemma length_sort_candidates [simp]: "length (sort_candidates cs) = length cs"
  by (simp add: sort_candidates_def)

lemma sorted_by_score: "sorted_wrt (\<lambda>a b. cs_score b \<le> cs_score a) (sort_candidates cs)"
proof -
  have "sorted_wrt (\<lambda>a b. sort_rank a \<le> sort_rank b) (sort_candidates cs)"
    using sorted_sort_key [of sort_rank cs] by (simp add: sort_candidates_def sorted_map)
  then show ?thesis by (rule sorted_wrt_mono_rel [rotated]) (auto simp: sort_rank_def less_eq_prod_def)
qed

lemma sort_candidates_head:
  assumes "sort_candidates cs = c # rest"
  shows "c \<in> set cs" and "\<forall>x\<in>set cs. cs_score x \<le> cs_score c"
proof -
  have s: "set cs = insert c (set rest)" using set_sort_candidates [of cs] assms by simp
  then show "c \<in> set cs" by simp
  show "\<forall>x\<in>set cs. cs_score x \<le> cs_score c"
    using sorted_by_score [of cs] assms unfolding s by simp
qed

section \<open>The policy\<close>

datatype decision_status = Decisive | Ambiguous | Abstain | Infeasible | Underdetermined

record policy =
  pl_minimum :: js_number
  pl_decisive :: js_number
  pl_underdetermined :: js_number

definition default_policy :: policy where
  "default_policy = \<lparr>pl_minimum = Fin (lit (35 / 100)), pl_decisive = Fin (lit (8 / 100)),
     pl_underdetermined = Fin (lit (2 / 100))\<rparr>"

record assessment =
  as_status :: decision_status
  as_winner :: "candidate_score option"
  as_runner :: "candidate_score option"
  as_margin :: "rat option"
  as_rationale :: string

fun policy_value :: "js_number \<Rightarrow> rat option" where
  "policy_value (Fin x) = (if 0 \<le> x \<and> x \<le> 1 then Some x else None)"
| "policy_value _ = None"

definition policy_entry :: "string \<Rightarrow> js_number \<Rightarrow> string + rat" where
  "policy_entry name n = (case policy_value n of
     None \<Rightarrow> Inl (name @ '' must be a finite value in [0, 1]'') | Some x \<Rightarrow> Inr x)"

text \<open>The thresholds once they are known to be finite: minimum utility, decisive and underdetermined margin.\<close>

definition validate_policy :: "policy \<Rightarrow> string + rat \<times> rat \<times> rat" where
  "validate_policy p =
     bindE (policy_entry ''minimumUtility'' (pl_minimum p)) (\<lambda>m.
     bindE (policy_entry ''decisiveMargin'' (pl_decisive p)) (\<lambda>d.
     bindE (policy_entry ''underdeterminedMargin'' (pl_underdetermined p)) (\<lambda>u.
     if u > d then Inl ''underdeterminedMargin cannot exceed decisiveMargin'' else Inr (m, d, u))))"

definition margin_between :: "candidate_score \<Rightarrow> candidate_score \<Rightarrow> rat" where
  "margin_between w c = fsub (cs_score w) (cs_score c)"

definition feasible :: "candidate_score list \<Rightarrow> candidate_score list" where
  "feasible cs = filter (\<lambda>c. \<not> cs_disqualified c) cs"

definition judge :: "rat \<Rightarrow> rat \<Rightarrow> rat \<Rightarrow> candidate_score \<Rightarrow> candidate_score option \<Rightarrow> assessment" where
  "judge m d u w ru =
     (let verdict = (\<lambda>st why. \<lparr>as_status = st, as_winner = Some w, as_runner = ru,
                       as_margin = map_option (margin_between w) ru, as_rationale = why\<rparr>) in
      if cs_score w < m then verdict Underdetermined
        (''Best utility '' @ to_fixed 3 (cs_score w) @ '' is below the minimum '' @ to_fixed 3 m @ ''.'')
      else case ru of
        None \<Rightarrow> verdict Decisive ''Only one feasible candidate remains after hard constraints.''
      | Some r \<Rightarrow>
          let margin = margin_between w r; shown = to_fixed 3 margin in
          if margin < u then verdict Underdetermined (''Top candidates are effectively tied (margin '' @ shown @ '').'')
          else if margin < d then verdict Ambiguous
            (''Top candidates are close (margin '' @ shown @ ''); expose alternatives rather than implying certainty.'')
          else verdict Decisive (''Winner exceeds runner-up by '' @ shown @ ''.''))"

definition assess :: "candidate_score list \<Rightarrow> policy \<Rightarrow> string + assessment" where
  "assess ranked p =
     bindE (validate_policy p) (\<lambda>(m, d, u).
     Inr (case sort_candidates (feasible ranked) of
        [] \<Rightarrow> \<lparr>as_status = Infeasible, as_winner = None, as_runner = None, as_margin = None,
                as_rationale = ''No representation candidate satisfies the hard constraints.''\<rparr>
      | w # rest \<Rightarrow> judge m d u w (case rest of [] \<Rightarrow> None | r # _ \<Rightarrow> Some r)))"

section \<open>Lemmas\<close>

lemma default_policy_valid: "validate_policy default_policy = Inr (lit (35 / 100), lit (8 / 100), lit (2 / 100))"
  by code_simp

lemma judge_winner [simp]:
  "as_winner (judge m d u w ru) = Some w" "as_runner (judge m d u w ru) = ru"
  "as_margin (judge m d u w ru) = map_option (margin_between w) ru"
  by (auto simp: judge_def Let_def split: option.split)

lemma judge_status:
  "as_status (judge m d u w ru) =
     (if cs_score w < m then Underdetermined
      else case ru of None \<Rightarrow> Decisive
        | Some r \<Rightarrow> if margin_between w r < u then Underdetermined
                    else if margin_between w r < d then Ambiguous else Decisive)"
  by (auto simp: judge_def Let_def split: option.split)

lemma assess_cases:
  assumes "validate_policy p = Inr (m, d, u)"
  obtains (none) a where "feasible ranked = []" "assess ranked p = Inr a" "as_status a = Infeasible" "as_winner a = None"
  | (some) w rest ru where "sort_candidates (feasible ranked) = w # rest"
      "assess ranked p = Inr (judge m d u w ru)" "ru = (case rest of [] \<Rightarrow> None | r # _ \<Rightarrow> Some r)"
proof (cases "sort_candidates (feasible ranked)")
  case Nil
  then have "feasible ranked = []" using length_sort_candidates [of "feasible ranked"] by simp
  with Nil assms none show ?thesis by (simp add: assess_def)
next
  case (Cons w rest)
  with assms some show ?thesis by (simp add: assess_def)
qed

lemma sorted_split:
  assumes "sort_candidates cs = w # rest"
  shows "mset cs = mset (w # rest)" and "\<forall>x\<in>set rest. cs_score x \<le> cs_score w"
    and "rest = r # rs \<Longrightarrow> \<forall>x\<in>set rs. cs_score x \<le> cs_score r"
proof -
  show "mset cs = mset (w # rest)" unfolding assms [symmetric] by (simp add: sort_candidates_def)
  show "\<forall>x\<in>set rest. cs_score x \<le> cs_score w" "rest = r # rs \<Longrightarrow> \<forall>x\<in>set rs. cs_score x \<le> cs_score r"
    using sorted_by_score [of cs] by (simp_all add: assms)
qed

text \<open>
  First and second place: \<open>a\<close> is a best of the candidates and \<open>b\<close> a best of the others, and a place is
  empty only when nobody is left for it.
\<close>

definition podium :: "candidate_score list \<Rightarrow> candidate_score option \<Rightarrow> candidate_score option \<Rightarrow> bool" where
  "podium cs w r \<longleftrightarrow> (case w of None \<Rightarrow> cs = [] \<and> r = None
   | Some a \<Rightarrow> a \<in> set cs \<and> (\<forall>c\<in>set cs. cs_score c \<le> cs_score a) \<and>
      (case r of None \<Rightarrow> cs = [a]
       | Some b \<Rightarrow> b \<in> set (remove1 a cs) \<and> (\<forall>c\<in>set (remove1 a cs). cs_score c \<le> cs_score b)))"

lemma sorted_podium:
  "podium cs (case sort_candidates cs of [] \<Rightarrow> None | w # rest \<Rightarrow> Some w)
     (case sort_candidates cs of w # r # rest \<Rightarrow> Some r | _ \<Rightarrow> None)"
proof (cases "sort_candidates cs")
  case Nil
  then show ?thesis using length_sort_candidates [of cs] by (simp add: podium_def)
next
  case (Cons w rest)
  note split = sorted_split [OF Cons]
  have "mset (remove1 w cs) = mset rest" by (simp add: split(1))
  then have others: "set (remove1 w cs) = set rest" by (rule mset_eq_setD)
  have "set cs = insert w (set rest)" using mset_eq_setD [OF split(1)] by simp
  moreover have "cs = [w]" if "rest = []" using split(1) that by simp
  ultimately show ?thesis unfolding Cons
    using split(2) split(3) by (cases rest) (auto simp: podium_def others)
qed

section \<open>Properties\<close>

text \<open>
  C15: the policy names a winner exactly when some candidate is feasible. The winner is a feasible
  candidate of the highest score, and the runner-up is one of the highest score among the remaining
  feasible candidates; there is none only when the winner is the only one. The margin is the rounded
  difference of their scores, and the status is the one the thresholds prescribe: without a winner
  infeasible, too low or tied underdetermined, close ambiguous, and only the rest decisive.
\<close>

theorem assessment_verdict:
  assumes "validate_policy p = Inr (m, d, u)"
  shows "\<exists>a. assess ranked p = Inr a \<and> podium (feasible ranked) (as_winner a) (as_runner a) \<and>
    (as_winner a = None \<longrightarrow> as_status a = Infeasible \<and> as_margin a = None) \<and>
    (\<forall>w. as_winner a = Some w \<longrightarrow>
       as_margin a = map_option (margin_between w) (as_runner a) \<and> pred_option (\<lambda>x. 0 \<le> x) (as_margin a) \<and>
       as_status a =
         (if cs_score w < m then Underdetermined
          else case as_margin a of None \<Rightarrow> Decisive
            | Some x \<Rightarrow> if x < u then Underdetermined else if x < d then Ambiguous else Decisive))"
proof (cases "sort_candidates (feasible ranked)")
  case Nil
  then show ?thesis using sorted_podium [of "feasible ranked"] assms by (simp add: assess_def)
next
  case (Cons w rest)
  define ru where "ru = (case rest of [] \<Rightarrow> None | r # _ \<Rightarrow> Some r)"
  have podium: "podium (feasible ranked) (Some w) ru"
    using sorted_podium [of "feasible ranked"] by (cases rest) (simp_all add: Cons ru_def)
  then have "pred_option (\<lambda>r. cs_score r \<le> cs_score w) ru"
    by (auto simp: podium_def split: option.splits dest: notin_set_remove1)
  then have "pred_option (\<lambda>x. 0 \<le> x) (map_option (margin_between w) ru)"
    by (cases ru) (simp_all add: margin_between_def fsub_def f64.sub_nonneg)
  moreover have "assess ranked p = Inr (judge m d u w ru)" by (simp add: assess_def assms Cons ru_def)
  ultimately show ?thesis using podium by (auto simp: judge_status split: option.split)
qed

definition sample_score :: "candidate_id \<Rightarrow> vr_layout \<Rightarrow> rat \<Rightarrow> bool \<Rightarrow> candidate_score" where
  "sample_score c l x dq = \<lparr>cs_family = reasoning_family c, cs_id = c, cs_layout = l, cs_score = x, cs_components = [],
     cs_disqualified = dq, cs_reason = None, cs_code = None, cs_preserves = [], cs_loses = []\<rparr>"

theorem assessment_verdict_witness:
  "podium (feasible [sample_score PointSet Grid3d (1 / 2) False, sample_score MatrixField Grid3d (9 / 10) True,
       sample_score DensityField Grid3d (7 / 10) False])
     (Some (sample_score DensityField Grid3d (7 / 10) False)) (Some (sample_score PointSet Grid3d (1 / 2) False))"
proof -
  let ?cs = "[sample_score PointSet Grid3d (1 / 2) False, sample_score MatrixField Grid3d (9 / 10) True,
    sample_score DensityField Grid3d (7 / 10) False]"
  have "map_sum id (\<lambda>a. (as_winner a, as_runner a)) (assess ?cs default_policy) =
    Inr (Some (sample_score DensityField Grid3d (7 / 10) False), Some (sample_score PointSet Grid3d (1 / 2) False))"
    by code_simp
  with assessment_verdict [OF default_policy_valid, of ?cs] show ?thesis by auto
qed
end
