(* ===== verification/Moneta_Engine.thy ===== *)
theory Moneta_Engine
  imports Moneta_Policy
begin

text \<open>
  The representation hypothesis engine (\<open>src/moneta/representation/MonetaHypothesisEngine.ts\<close>):
  binding of the perceptual evidence to the dataset, scoring, the admission stage for datasets with
  at least as many features as observations, the decision policy, the weight sensitivity and the
  decision record with its alternatives. The digests of canonical forms are parameters
  (\<open>digests\<close>): a decision only carries them.
\<close>

section \<open>Engine and evidence\<close>

definition model_version :: string where "model_version = ''bootstrap-fitness-v5''"
definition treatment_id :: string where "treatment_id = ''fitness-treatment-v5''"
definition engine_version :: string where "engine_version = ''2.1.3-v5-bootstrap''"

record digests =
  dg_requirements :: "requirements \<Rightarrow> string"
  dg_context :: "inv_context \<Rightarrow> string"
  dg_intent :: "inv_intent \<Rightarrow> string"
  dg_perspective :: "perspective \<Rightarrow> string"

record engine =
  en_weights :: weights
  en_artifact :: "string option"

text \<open>The engine is built on a model, on weights that override some of the defaults, or on the defaults.\<close>

datatype engine_config = DefaultModel | GivenModel weights | CustomWeights "dimension \<Rightarrow> js_number option"

definition merged_weights :: "(dimension \<Rightarrow> js_number option) \<Rightarrow> raw_weights" where
  "merged_weights p d = (case p d of None \<Rightarrow> Fin (default_weights d) | Some x \<Rightarrow> x)"

definition new_engine :: "engine_config \<Rightarrow> string option \<Rightarrow> string + engine" where
  "new_engine cfg hash =
     bindE (case cfg of
              DefaultModel \<Rightarrow> validate_weights (merged_weights (\<lambda>d. None))
            | GivenModel w \<Rightarrow> Inr w
            | CustomWeights p \<Rightarrow> validate_weights (merged_weights p)) (\<lambda>w.
     Inr \<lparr>en_weights = w, en_artifact = hash\<rparr>)"

datatype evidence_input = NoEvidence | SingleEvidence raw_evidence | KeyedEvidence "(string \<times> raw_evidence) list"

fun evidence_entries :: "evidence_input \<Rightarrow> (string \<times> raw_evidence) list" where
  "evidence_entries NoEvidence = []"
| "evidence_entries (SingleEvidence e) = [(re_candidate e, e)]"
| "evidence_entries (KeyedEvidence es) = es"

definition bind_evidence ::
  "string \<Rightarrow> (string, evidence) js_map \<times> nat \<Rightarrow> string \<times> raw_evidence \<Rightarrow> (string, evidence) js_map \<times> nat" where
  "bind_evidence fp acc entry =
     (let (m, dropped) = acc; (key, e) = entry in
      if re_version e \<noteq> evidence_version then (m, Suc dropped)
      else if re_fingerprint e \<noteq> fp then (m, Suc dropped)
      else if re_candidate e = [] \<or> re_candidate e \<noteq> key then (m, Suc dropped)
      else case validate_evidence e of
        Inl _ \<Rightarrow> (m, Suc dropped)
      | Inr v \<Rightarrow> (js_put key v m, dropped))"

definition normalize_evidence :: "evidence_input \<Rightarrow> string \<Rightarrow> (string, evidence) js_map \<times> nat" where
  "normalize_evidence input fp = foldl (bind_evidence fp) ([], 0) (evidence_entries input)"

section \<open>Scoring\<close>

record hard_trace =
  ht_rule :: string
  ht_passed :: bool
  ht_reason :: string
  ht_code :: "constraint_code option"

datatype engine_error = NoFeasible "hard_trace list" "candidate_score list" | EngineFault string

definition fault :: "string + 'a \<Rightarrow> engine_error + 'a" where
  "fault r = (case r of Inl e \<Rightarrow> Inl (EngineFault e) | Inr x \<Rightarrow> Inr x)"

definition score_candidate ::
  "weights \<Rightarrow> signature \<Rightarrow> requirements \<Rightarrow> candidate \<Rightarrow> family \<Rightarrow> vr_layout \<Rightarrow> evidence option \<Rightarrow> string + candidate_score" where
  "score_candidate w s r c f l e =
     bindE (evaluate w s r c f e) (\<lambda>v.
     Inr \<lparr>cs_family = f, cs_id = cd_id c, cs_layout = l, cs_score = fe_utility v, cs_components = fe_components v,
          cs_disqualified = False, cs_reason = None, cs_code = None,
          cs_preserves = cd_preserves c, cs_loses = cd_loses c\<rparr>)"

definition rule_name :: "candidate_id \<Rightarrow> vr_layout \<Rightarrow> string" where
  "rule_name c l = candidate_name c @ ''_on_'' @ layout_name l"

definition disqualified_score :: "family \<Rightarrow> candidate \<Rightarrow> vr_layout \<Rightarrow> failure \<Rightarrow> candidate_score" where
  "disqualified_score f c l fail =
     \<lparr>cs_family = f, cs_id = cd_id c, cs_layout = l, cs_score = 0, cs_components = [],
      cs_disqualified = True, cs_reason = Some (fst fail), cs_code = Some (snd fail),
      cs_preserves = cd_preserves c, cs_loses = cd_loses c\<rparr>"

definition score_item ::
  "weights \<Rightarrow> signature \<Rightarrow> requirements \<Rightarrow> (string, evidence) js_map \<Rightarrow> family \<times> candidate_id \<times> vr_layout
    \<Rightarrow> string + hard_trace \<times> candidate_score" where
  "score_item w s r ev item =
     (let (f, i, l) = item; c = candidate_of i; e = js_get ev (candidate_name i) in
      case check_hard_constraints s r c l e of
        Some fail \<Rightarrow> Inr (\<lparr>ht_rule = rule_name i l, ht_passed = False, ht_reason = fst fail, ht_code = Some (snd fail)\<rparr>,
          disqualified_score f c l fail)
      | None \<Rightarrow> bindE (score_candidate w s r c f l e) (\<lambda>cs.
          Inr (\<lparr>ht_rule = rule_name i l, ht_passed = True, ht_reason = all_satisfied, ht_code = None\<rparr>, cs)))"

definition score_all ::
  "weights \<Rightarrow> signature \<Rightarrow> requirements \<Rightarrow> (string, evidence) js_map \<Rightarrow> string + hard_trace list \<times> candidate_score list" where
  "score_all w s r ev =
     bindE (mapE (score_item w s r ev) generate_candidates) (\<lambda>scored.
     Inr (map fst scored, sort_candidates (map snd scored)))"

section \<open>Stability admission\<close>

record runtime_identity =
  ri_kernel :: string
  ri_engine :: string
  ri_model :: string
  ri_artifact :: "string option"

text \<open>\<open>sc_minted\<close>: the claim object was created by the certificate verifier of this runtime.\<close>

record stability_claim =
  sc_minted :: bool
  sc_schema :: string
  sc_fingerprint :: string
  sc_candidate :: candidate_id
  sc_family :: family
  sc_runtime :: runtime_identity
  sc_digest :: string
  sc_disposition :: string

record admission_context =
  am_fingerprint :: string
  am_candidate :: candidate_id
  am_family :: family
  am_runtime :: runtime_identity

text \<open>The source compares the SHA-256 of the canonical runtime identities; no collision is assumed.\<close>

definition is_verified_claim :: "stability_claim option \<Rightarrow> admission_context \<Rightarrow> bool" where
  "is_verified_claim claim k = (case claim of None \<Rightarrow> False
   | Some c \<Rightarrow> sc_minted c \<and> sc_schema c = ''1'' \<and> sc_fingerprint c = am_fingerprint k \<and>
       sc_candidate c = am_candidate k \<and> sc_family c = am_family k \<and> sc_runtime c = am_runtime k)"

definition is_promotable :: "stability_claim option \<Rightarrow> admission_context \<Rightarrow> bool" where
  "is_promotable claim k = (is_verified_claim claim k \<and> False)"

definition hex_lower :: "char \<Rightarrow> bool" where
  "hex_lower c = (js_digit c \<or> c \<in> set ''abcdef'')"

definition stability_runtime :: "engine \<Rightarrow> signature \<Rightarrow> runtime_identity" where
  "stability_runtime en s =
     \<lparr>ri_kernel = sg_kernel s, ri_engine = engine_version, ri_model = model_version,
      ri_artifact = (case en_artifact en of None \<Rightarrow> None
        | Some h \<Rightarrow> if length h = 64 \<and> list_all hex_lower h then Some h else None)\<rparr>"

definition underdetermined_dataset :: "signature \<Rightarrow> bool" where
  "underdetermined_dataset s \<longleftrightarrow> sg_rows s > 0 \<and> sg_columns s > 0 \<and> sg_columns s \<ge> sg_rows s"

definition admission_reason :: "signature \<Rightarrow> stability_claim option \<Rightarrow> candidate_score \<Rightarrow> string" where
  "admission_reason s matched c =
     (let size = ''p >= n ('' @ show_int (sg_columns s) @ '' features, '' @ show_int (sg_rows s) @ '' observations)'' in
      if map_option sc_candidate matched = Some (cs_id c)
      then size @ '' has a verified but non-promotable stability certificate; Moneta abstains''
      else size @ '' requires authority-certified perturbation/stability evidence before promotion'')"

definition stability_admit ::
  "engine \<Rightarrow> signature \<Rightarrow> stability_claim option \<Rightarrow> stability_claim option \<times> hard_trace list \<times> candidate_score list
    \<Rightarrow> candidate_score \<Rightarrow> stability_claim option \<times> hard_trace list \<times> candidate_score list" where
  "stability_admit en s claim acc c =
     (let (matched, traces, out) = acc in
      if cs_disqualified c then (matched, traces, out @ [c])
      else
        let k = \<lparr>am_fingerprint = sg_fingerprint s, am_candidate = cs_id c, am_family = cs_family c,
                 am_runtime = stability_runtime en s\<rparr>;
            matched' = (if is_verified_claim claim k then claim else matched) in
        if is_promotable claim k then (matched', traces, out @ [c])
        else
          let why = admission_reason s matched' c in
          (matched',
           traces @ [\<lparr>ht_rule = rule_name (cs_id c) (cs_layout c) @ ''_stability_admission'', ht_passed = False,
                      ht_reason = why, ht_code = Some StabilityEvidenceRequired\<rparr>],
           out @ [c\<lparr>cs_disqualified := True, cs_reason := Some why, cs_code := Some StabilityEvidenceRequired\<rparr>]))"

definition stability_admission ::
  "engine \<Rightarrow> signature \<Rightarrow> stability_claim option \<Rightarrow> hard_trace list \<Rightarrow> candidate_score list
    \<Rightarrow> stability_claim option \<times> hard_trace list \<times> candidate_score list" where
  "stability_admission en s claim traces scored =
     (if underdetermined_dataset s then foldl (stability_admit en s claim) (None, traces, []) scored
      else (None, traces, scored))"

text \<open>
  Without a feasible candidate, the candidates that only lack stability evidence make the engine
  abstain, naming the first of them as the near miss.
\<close>

definition abstention :: "candidate_score list \<Rightarrow> bool \<Rightarrow> assessment \<Rightarrow> assessment" where
  "abstention scored matched a =
     (if as_winner a \<noteq> None then a
      else case filter (\<lambda>c. cs_code c = Some StabilityEvidenceRequired) scored of
        [] \<Rightarrow> a
      | w # rest \<Rightarrow>
          let ru = (case rest of [] \<Rightarrow> None | x # _ \<Rightarrow> Some x) in
          \<lparr>as_status = Abstain, as_winner = Some w, as_runner = ru, as_margin = map_option (margin_between w) ru,
           as_rationale = (if matched
             then ''Signed stability evidence is verified, but no Rust authority receipt and scientifically promotable governing criterion exist.''
             else ''Current evidence and authority are insufficient to promote a representation in the p >= n regime.'')\<rparr>)"

section \<open>Sensitivity of the winner\<close>

definition rank_winner ::
  "signature \<Rightarrow> requirements \<Rightarrow> candidate_score list \<Rightarrow> weights \<Rightarrow> string + string option" where
  "rank_winner s r baseline v =
     bindE (validate_weights (\<lambda>d. Fin (v d))) (\<lambda>w.
     bindE (mapE (\<lambda>c. score_candidate w s r (candidate_of (cs_id c)) (cs_family c) (cs_layout c) None) (feasible baseline))
       (\<lambda>rescored. Inr (case sort_candidates rescored of [] \<Rightarrow> None | c # _ \<Rightarrow> Some (candidate_key c))))"

section \<open>Embodiment\<close>

fun geometry_for_layout :: "vr_layout \<Rightarrow> candidate_id \<Rightarrow> vr_geometry" where
  "geometry_for_layout l c =
     (if c = AggregateVolume then AggregateBars
      else if c = ClusterRegions then ClusterVolume
      else if c = DensityField then DensityFieldGeometry
      else if c = DistributionField then DistributionFieldGeometry
      else case l of GeoSurface \<Rightarrow> GeoColumn | TimeRibbon \<Rightarrow> Beam | SpectralVolume \<Rightarrow> SpectralBar
        | RadialOrbital \<Rightarrow> ConicalTree | ForceDirected3d \<Rightarrow> IcosaNode | _ \<Rightarrow> CubeMatrix)"

fun behavior_for_layout :: "vr_layout \<Rightarrow> vr_behavior" where
  "behavior_for_layout TimeRibbon = PulseQuantitative"
| "behavior_for_layout RadialOrbital = OrbitalSpin"
| "behavior_for_layout _ = Static"

fun interaction_for_layout :: "vr_layout \<Rightarrow> vr_interaction" where
  "interaction_for_layout TimeRibbon = HarvestStream"
| "interaction_for_layout ForceDirected3d = TraverseEdge"
| "interaction_for_layout RadialOrbital = DrillDown"
| "interaction_for_layout _ = InspectCell"

datatype position_semantics = SemanticPositions | StructuralPositions | AlgorithmicLayout
datatype detail_lens = InspectorSlate | OutlierHalo | ClusterZone | TimeDial
datatype world_type = FocusedChamber | AnalystCockpit

fun position_semantics_for :: "vr_layout \<Rightarrow> position_semantics" where
  "position_semantics_for GeoSurface = SemanticPositions"
| "position_semantics_for ForceDirected3d = StructuralPositions"
| "position_semantics_for RadialOrbital = StructuralPositions"
| "position_semantics_for _ = AlgorithmicLayout"

definition detail_lens_for :: "vr_layout \<Rightarrow> candidate_id \<Rightarrow> detail_lens" where
  "detail_lens_for l c =
     (if l = TimeRibbon then TimeDial else if c = ClusterRegions then ClusterZone
      else if c = DistributionField then OutlierHalo else InspectorSlate)"

record rejection_entry =
  rj_candidate :: candidate_id
  rj_layout :: vr_layout
  rj_geometry :: vr_geometry
  rj_score :: rat
  rj_reason :: string

record spatial_strategy =
  ss_id :: string
  ss_world :: world_type
  ss_layout :: vr_layout
  ss_positions :: position_semantics
  ss_geometry :: vr_geometry
  ss_behavior :: vr_behavior
  ss_interaction :: vr_interaction
  ss_lens :: detail_lens
  ss_score :: rat
  ss_rationale :: string
  ss_rejections :: "rejection_entry list"
  ss_fingerprint :: string
  ss_requirements :: string

definition same_candidate :: "candidate_score \<Rightarrow> candidate_score \<Rightarrow> bool" where
  "same_candidate a b \<longleftrightarrow> cs_id a = cs_id b \<and> cs_layout a = cs_layout b"

definition world_for :: "vr_layout \<Rightarrow> world_type" where
  "world_for l = (if l = RadialOrbital then FocusedChamber else AnalystCockpit)"

definition build_strategy :: "candidate_score \<Rightarrow> string \<Rightarrow> string \<Rightarrow> candidate_score list \<Rightarrow> spatial_strategy" where
  "build_strategy w fp hash candidates =
     \<lparr>ss_id = ''strat:'' @ candidate_name (cs_id w) @ ''_'' @ take 8 hash,
      ss_world = world_for (cs_layout w),
      ss_layout = cs_layout w, ss_positions = position_semantics_for (cs_layout w),
      ss_geometry = geometry_for_layout (cs_layout w) (cs_id w), ss_behavior = behavior_for_layout (cs_layout w),
      ss_interaction = interaction_for_layout (cs_layout w), ss_lens = detail_lens_for (cs_layout w) (cs_id w),
      ss_score = cs_score w,
      ss_rationale = ''Selected '' @ candidate_name (cs_id w) @ '' from '' @ model_version @ '' ranking.'',
      ss_rejections = map (\<lambda>c. \<lparr>rj_candidate = cs_id c, rj_layout = cs_layout c,
          rj_geometry = geometry_for_layout (cs_layout c) (cs_id c), rj_score = cs_score c,
          rj_reason = (case cs_reason c of Some x \<Rightarrow> x | None \<Rightarrow> ''Ranked below '' @ candidate_name (cs_id w))\<rparr>)
        (filter (\<lambda>c. \<not> same_candidate c w) candidates),
      ss_fingerprint = fp, ss_requirements = hash\<rparr>"

section \<open>Alternatives\<close>

datatype eligibility = Eligible | NearMiss | AmbiguousAlternative | Abstained | DisqualifiedAlternative

record alternative =
  al_candidate :: candidate_id
  al_family :: family
  al_layout :: vr_layout
  al_geometry :: vr_geometry
  al_behavior :: vr_behavior
  al_interaction :: vr_interaction
  al_score :: rat
  al_margin :: rat
  al_eligibility :: eligibility
  al_reason :: string
  al_hard_passed :: bool
  al_anchors :: "string list"

record rejected_alternative =
  ra_family :: family
  ra_score :: rat
  ra_reason :: string
  ra_hard_passed :: bool

text \<open>The first candidate of every family that has not been seen yet.\<close>

fun rejected_alternatives :: "family js_set \<Rightarrow> candidate_score list \<Rightarrow> rejected_alternative list" where
  "rejected_alternatives seen [] = []"
| "rejected_alternatives seen (c # cs) =
     (if cs_family c \<in> set seen then rejected_alternatives seen cs
      else \<lparr>ra_family = cs_family c, ra_score = cs_score c,
            ra_reason = (case cs_reason c of Some x \<Rightarrow> x
              | None \<Rightarrow> ''Lower bootstrap utility ('' @ to_fixed 3 (cs_score c) @ '')''),
            ra_hard_passed = (\<not> cs_disqualified c)\<rparr> # rejected_alternatives (js_add (cs_family c) seen) cs)"

definition shared_anchors :: "signature \<Rightarrow> string list" where
  "shared_anchors s =
     (if sg_numeric s > 0 then [''numeric_dimensions''] else []) @
     (if sg_categorical s > 0 then [''categorical_dimensions''] else []) @
     (if sg_time_series s = Some True then [''temporal_sequence''] else []) @
     (if sg_topology s = Graph then [''graph_topology''] else []) @
     (if sg_clusters s = Some True then [''cluster_partitions''] else [])"

definition alternative_standing :: "assessment \<Rightarrow> bool \<Rightarrow> rat \<Rightarrow> candidate_score \<Rightarrow> eligibility \<times> string" where
  "alternative_standing a is_winner margin c =
     (if cs_disqualified c then (DisqualifiedAlternative,
        case cs_reason c of Some x \<Rightarrow> x | None \<Rightarrow> ''Disqualified by hard constraint'')
      else if as_status a = Abstain then (Abstained, ''Engine abstained from promoting a decision'')
      else if as_status a = Ambiguous \<and>
              (is_winner \<or> margin \<le> (case as_margin a of Some x \<Rightarrow> x | None \<Rightarrow> lit (8 / 100)))
        then (AmbiguousAlternative, ''Ambiguous alternative within decisive margin ('' @ to_fixed 3 margin @ '')'')
      else if margin \<le> lit (15 / 100)
        then (NearMiss, ''Near-miss alternative with competitive utility (margin '' @ to_fixed 3 margin @ '')'')
      else (Eligible, ''Eligible representation alternative ('' @ to_fixed 3 (cs_score c) @ '' utility)''))"

definition alternative_of :: "signature \<Rightarrow> assessment \<Rightarrow> candidate_score \<Rightarrow> candidate_score \<Rightarrow> alternative" where
  "alternative_of s a w c =
     (let margin = max 0 (margin_between w c); standing = alternative_standing a (same_candidate c w) margin c in
      \<lparr>al_candidate = cs_id c, al_family = cs_family c, al_layout = cs_layout c,
       al_geometry = geometry_for_layout (cs_layout c) (cs_id c), al_behavior = behavior_for_layout (cs_layout c),
       al_interaction = interaction_for_layout (cs_layout c), al_score = cs_score c, al_margin = margin,
       al_eligibility = fst standing, al_reason = snd standing, al_hard_passed = (\<not> cs_disqualified c),
       al_anchors = shared_anchors s\<rparr>)"

definition alternatives :: "signature \<Rightarrow> assessment \<Rightarrow> candidate_score \<Rightarrow> candidate_score list \<Rightarrow> alternative list" where
  "alternatives s a w scored =
     map (alternative_of s a w) (filter (\<lambda>c. \<not> (same_candidate c w \<and> as_status a \<noteq> Ambiguous)) scored)"

definition embodiment_strategy :: "alternative \<Rightarrow> string \<Rightarrow> spatial_strategy" where
  "embodiment_strategy c fp =
     \<lparr>ss_id = ''strat:'' @ candidate_name (al_candidate c) @ ''_'' @ layout_name (al_layout c),
      ss_world = world_for (al_layout c), ss_layout = al_layout c,
      ss_positions = position_semantics_for (al_layout c), ss_geometry = al_geometry c, ss_behavior = al_behavior c,
      ss_interaction = al_interaction c, ss_lens = detail_lens_for (al_layout c) (al_candidate c),
      ss_score = al_score c, ss_rationale = al_reason c, ss_rejections = [], ss_fingerprint = fp,
      ss_requirements = []\<rparr>"

section \<open>The decision\<close>

record evidence_item =
  ei_fact :: string
  ei_weight :: rat
  ei_source :: string

record decision_provenance =
  dp_fingerprint :: string
  dp_requirements :: string
  dp_artifact :: "string option"
  dp_device :: string
  dp_stale_dropped :: nat
  dp_certificate :: "(string \<times> string) option"
  dp_context :: "string option"
  dp_intent :: "string option"
  dp_perspective :: "string option"

record decision =
  de_id :: string
  de_chosen :: "(candidate_id \<times> family \<times> vr_layout) option"
  de_explanation :: string
  de_traces :: "hard_trace list"
  de_ranked :: "candidate_score list"
  de_winner :: candidate_score
  de_status :: decision_status
  de_runner :: "candidate_score option"
  de_margin :: "rat option"
  de_rationale :: string
  de_sensitivity :: sensitivity
  de_strategy :: spatial_strategy
  de_evidence :: "evidence_item list"
  de_rejected :: "rejected_alternative list"
  de_alternatives :: "alternative list"
  de_provenance :: decision_provenance

fun status_name :: "decision_status \<Rightarrow> string" where
  "status_name Decisive = ''DECISIVE''"
| "status_name Ambiguous = ''AMBIGUOUS''"
| "status_name Abstain = ''ABSTAIN''"
| "status_name Infeasible = ''INFEASIBLE''"
| "status_name Underdetermined = ''UNDERDETERMINED''"

fun join_information :: "information list \<Rightarrow> string" where
  "join_information [] = []"
| "join_information [i] = information_name i"
| "join_information (i # is) = information_name i @ '', '' @ join_information is"

definition explanation :: "assessment \<Rightarrow> candidate_score \<Rightarrow> sensitivity \<Rightarrow> string" where
  "explanation a w sn =
     (let c = candidate_of (cs_id w); named = cd_name c @ '' ('' @ layout_name (cs_layout w) @ '')'' in
      status_name (as_status a) @ '': '' @
      (if as_status a = Abstain then ''Moneta did not promote a representation; the highest-ranked near-miss is '' @ named
       else ''Moneta ranks '' @ named) @
      '' at utility '' @ to_fixed 3 (cs_score w) @ ''. '' @ as_rationale a @
      '' Under '' @ [CHR 0xB1] @ ''10% single-weight perturbations, the winner changes in '' @
      to_fixed 1 (fmul (sn_rate sn) 100) @ ''% of scenarios. Preserves: ['' @ join_information (cd_preserves c) @
      '']. Declared losses: ['' @ join_information (cd_loses c) @ ''].'')"

definition framed :: "inv_intent option \<Rightarrow> string \<Rightarrow> string" where
  "framed i text = (case (case i of None \<Rightarrow> None | Some x \<Rightarrow> it_question x) of
     Some (q # qs) \<Rightarrow> ''Framed by research question: \"'' @ (q # qs) @ ''\". '' @ text
   | _ \<Rightarrow> text)"

definition evidence_items :: "engine \<Rightarrow> signature \<Rightarrow> candidate_score \<Rightarrow> evidence option \<Rightarrow> sensitivity \<Rightarrow> evidence_item list" where
  "evidence_items en s w e sn =
     (let item = (\<lambda>fact weight src. \<lparr>ei_fact = fact, ei_weight = weight, ei_source = src\<rparr>);
          c = candidate_of (cs_id w) in
      [item (''Topology: '' @ topology_name (sg_topology s)) (lit (4 / 10)) ''kernel'',
       item (''Dimensionality: '' @ show_int (sg_numeric s) @ '' numeric, '' @ show_int (sg_categorical s) @ '' categorical'')
         (lit (3 / 10)) ''kernel'',
       item (''Fitness model: '' @ model_version) 0 ''moneta-config'',
       item (''Weight sensitivity: '' @ to_fixed 1 (fmul (sn_rate sn) 100) @ ''% winner changes across '' @
             show_nat (sn_scenarios sn) @ '' scenarios'') 0 ''moneta-sensitivity''] @
      (if sg_periodicity s = Some True then [item ''spectral periodicity detected in signal'' (lit (5 / 10)) ''kernel''] else []) @
      (case e of
         Some x \<Rightarrow> let src = (if ev_measured x = None then ''prior'' else ''measured'') in
           [item (''Perceptual fitness: '' @ src @ '' (occlusion resistance '' @ to_fixed 2 (ev_occlusion x) @ '')'')
             (en_weights en DPerceptual) src]
       | None \<Rightarrow>
           [item (''Perceptual fitness: prior (occlusion resistance '' @ to_fixed 2 (cd_occlusion c) @
             '', cognitive load '' @ to_fixed 2 (cd_load c) @ '')'') (en_weights en DPerceptual) ''prior'']))"

definition effective_intent :: "requirements \<Rightarrow> inv_intent option" where
  "effective_intent r = (case rq_intent r of Some i \<Rightarrow> Some i | None \<Rightarrow> map_option cx_intent (rq_context r))"

definition effective_perspective :: "requirements \<Rightarrow> perspective option" where
  "effective_perspective r = (case rq_perspective r of Some p \<Rightarrow> Some p
     | None \<Rightarrow> (case rq_context r of None \<Rightarrow> None | Some c \<Rightarrow> cx_perspective c))"

definition optional_identity :: "('a \<Rightarrow> string + string) \<Rightarrow> 'a option \<Rightarrow> string + string option" where
  "optional_identity f x = (case x of None \<Rightarrow> Inr None | Some v \<Rightarrow> bindE (f v) (\<lambda>i. Inr (Some i)))"

definition provenance_of ::
  "digests \<Rightarrow> engine \<Rightarrow> signature \<Rightarrow> requirements \<Rightarrow> evidence option \<Rightarrow> nat \<Rightarrow> stability_claim option
    \<Rightarrow> string + decision_provenance" where
  "provenance_of D en s r e stale matched =
     bindE (optional_identity (\<lambda>c. context_identity (dg_context D) (context_value c)) (rq_context r)) (\<lambda>ci.
     bindE (optional_identity (\<lambda>i. intent_identity (dg_intent D) (intent_value i)) (effective_intent r)) (\<lambda>ii.
     bindE (optional_identity (\<lambda>p. perspective_identity (dg_perspective D) (perspective_value p)) (effective_perspective r)) (\<lambda>pi.
     Inr \<lparr>dp_fingerprint = sg_fingerprint s, dp_requirements = dg_requirements D r, dp_artifact = en_artifact en,
          dp_device = (case (case e of None \<Rightarrow> None | Some x \<Rightarrow> ev_measured x) of None \<Rightarrow> ''desktop'' | Some m \<Rightarrow> ms_device m),
          dp_stale_dropped = stale, dp_certificate = map_option (\<lambda>c. (sc_digest c, sc_disposition c)) matched,
          dp_context = ci, dp_intent = ii, dp_perspective = pi\<rparr>)))"

definition make_decision ::
  "digests \<Rightarrow> engine \<Rightarrow> signature \<Rightarrow> requirements \<Rightarrow> (string, evidence) js_map \<Rightarrow> nat \<Rightarrow> stability_claim option
    \<Rightarrow> hard_trace list \<Rightarrow> candidate_score list \<Rightarrow> assessment \<Rightarrow> candidate_score \<Rightarrow> sensitivity \<Rightarrow> string + decision" where
  "make_decision D en s r ev stale matched traces scored a w sn =
     (let e = js_get ev (candidate_name (cs_id w)); promoted = as_status a \<noteq> Abstain in
      bindE (provenance_of D en s r e stale matched) (\<lambda>prov.
      Inr \<lparr>de_id = (if promoted then ''decision'' else ''abstention'') @ ''_'' @ candidate_name (cs_id w) @ ''_'' @
             take 8 (sg_fingerprint s),
           de_chosen = (if promoted then Some (cs_id w, cs_family w, cs_layout w) else None),
           de_explanation = framed (effective_intent r) (explanation a w sn),
           de_traces = traces, de_ranked = scored, de_winner = w, de_status = as_status a, de_runner = as_runner a,
           de_margin = as_margin a, de_rationale = as_rationale a, de_sensitivity = sn,
           de_strategy = build_strategy w (sg_fingerprint s) (dg_requirements D r) scored,
           de_evidence = evidence_items en s w e sn,
           de_rejected = rejected_alternatives [cs_family w] scored,
           de_alternatives = alternatives s a w scored, de_provenance = prov\<rparr>))"

section \<open>Arbitration\<close>

definition resolve_requirements :: "signature \<Rightarrow> requirements option \<Rightarrow> analytical_intent option \<Rightarrow> requirements" where
  "resolve_requirements s r i = (case r of Some x \<Rightarrow> x
   | None \<Rightarrow> default_requirements (case i of None \<Rightarrow> Explore | Some x \<Rightarrow> ai_task x) (Inl (infer_scale (sg_rows s))))"

definition arbitrate ::
  "digests \<Rightarrow> engine \<Rightarrow> signature \<Rightarrow> requirements option \<Rightarrow> analytical_intent option \<Rightarrow> evidence_input
    \<Rightarrow> stability_claim option \<Rightarrow> engine_error + decision" where
  "arbitrate D en s given intent input claim =
     (let r = resolve_requirements s given intent; (ev, stale) = normalize_evidence input (sg_fingerprint s) in
      bindE (fault (score_all (en_weights en) s r ev)) (\<lambda>(traces0, scored0).
      let (matched, traces, scored) = stability_admission en s claim traces0 scored0 in
      bindE (fault (assess scored default_policy)) (\<lambda>a0.
      let a = abstention scored (matched \<noteq> None) a0 in
      case as_winner a of
        None \<Rightarrow> Inl (NoFeasible traces scored)
      | Some w \<Rightarrow>
          bindE (fault (winner_sensitivity (candidate_key w) (en_weights en) (rank_winner s r scored) (lit (1 / 10)))) (\<lambda>sn.
          fault (make_decision D en s r ev stale matched traces scored a w sn)))))"

end
