(* ===== verification/Moneta_Engine_Props.thy ===== *)
theory Moneta_Engine_Props
  imports Moneta_Engine
begin

text \<open>
  What the engine guarantees: arbitration always answers, a promoted representation satisfies every
  hard constraint, a dataset with at least as many features as observations never promotes one, and
  only evidence bound to the dataset and the candidate is consumed.
\<close>

section \<open>Total loops\<close>

lemma mapE_exists: "\<forall>x\<in>set xs. \<exists>y. f x = Inr y \<Longrightarrow> \<exists>ys. mapE f xs = Inr ys"
  by (induction xs) fastforce+

lemma mapE_results: "mapE f xs = Inr ys \<Longrightarrow> y \<in> set ys \<longleftrightarrow> (\<exists>x\<in>set xs. f x = Inr y)"
  unfolding mapE_Inr_all_iff by (induction xs ys rule: list_all2_induct) auto

lemma fault_Inr [simp]: "fault (Inr x) = Inr x"
  by (simp add: fault_def)

section \<open>Codes of the hard constraints\<close>

lemma first_failure_Some: "first_failure fs = Some f \<Longrightarrow> Some f \<in> set fs"
  by (induction fs rule: first_failure.induct) auto

definition avoids :: "constraint_code \<Rightarrow> failure option \<Rightarrow> bool" where
  "avoids k x \<longleftrightarrow> (\<forall>f. x = Some f \<longrightarrow> snd f \<noteq> k)"

lemma avoids_simps [simp]:
  "avoids k None" "avoids k (Some f) \<longleftrightarrow> snd f \<noteq> k"
  "avoids k (fail_if b reason code) \<longleftrightarrow> \<not> b \<or> code \<noteq> k"
  by (auto simp: avoids_def fail_if_def)

lemma avoids_first: "\<forall>x\<in>set fs. avoids k x \<Longrightarrow> avoids k (first_failure fs)"
  using first_failure_Some by (fastforce simp: avoids_def)

lemma check_avoids:
  assumes "k = StabilityEvidenceRequired \<or> k = HardwareElementBudget" and "avoids k (hardware_check s r)"
  shows "avoids k (check_hard_constraints s r c l e)"
proof -
  have "avoids k (layout_check s c l)" "avoids k (scale_check s c)" "avoids k (candidate_constraint_check s q)" for q
    unfolding layout_check_def scale_check_def candidate_constraint_check_def
    by (rule avoids_first; use assms(1) in \<open>auto split: option.split\<close>)+
  then show ?thesis
    unfolding check_hard_constraints_def using assms
    by (intro avoids_first)
      (auto simp: frustum_check_def critical_loss_check_def identity_loss_check_def
        metric_loss_check_def cluster_loss_check_def manifold_check_def distribution_check_def density_check_def
        aggregate_check_def cluster_check_def graph_check_def split: option.split)
qed

text \<open>
  No hard constraint reports missing stability evidence, and only a declared element budget can be
  exceeded.
\<close>

lemma check_code:
  assumes "check_hard_constraints s r c l e = Some f"
  shows "snd f \<noteq> StabilityEvidenceRequired"
    and "snd f = HardwareElementBudget \<Longrightarrow> hw_max_elements (rq_hardware r) \<noteq> None"
proof -
  have "avoids StabilityEvidenceRequired (hardware_check s r)" by (simp add: hardware_check_def split: option.split)
  from check_avoids [OF _ this, of c l e] assms show "snd f \<noteq> StabilityEvidenceRequired" by simp
  show "hw_max_elements (rq_hardware r) \<noteq> None" if "snd f = HardwareElementBudget"
  proof
    assume "hw_max_elements (rq_hardware r) = None"
    then have "avoids HardwareElementBudget (hardware_check s r)" by (simp add: hardware_check_def)
    from check_avoids [OF _ this, of c l e] assms that show False by simp
  qed
qed

section \<open>Scored candidates\<close>

definition passes :: "signature \<Rightarrow> requirements \<Rightarrow> (string, evidence) js_map \<Rightarrow> candidate_id \<Rightarrow> vr_layout \<Rightarrow> bool" where
  "passes s r ev c l \<longleftrightarrow> check_hard_constraints s r (candidate_of c) l (js_get ev (candidate_name c)) = None"

text \<open>What holds of every candidate that leaves the scoring stage.\<close>

definition scored_ok :: "signature \<Rightarrow> requirements \<Rightarrow> (string, evidence) js_map \<Rightarrow> candidate_score \<Rightarrow> bool" where
  "scored_ok s r ev c \<longleftrightarrow> reasoning_family (cs_id c) = cs_family c \<and> layout_compatible (cs_family c) (cs_layout c) \<and>
     (cs_disqualified c \<longleftrightarrow> \<not> passes s r ev (cs_id c) (cs_layout c)) \<and> cs_code c \<noteq> Some StabilityEvidenceRequired \<and>
     (cs_code c = Some HardwareElementBudget \<longrightarrow> hw_max_elements (rq_hardware r) \<noteq> None)"

lemma score_candidate_total:
  assumes "assigned_to_family (cd_id c) f"
  shows "\<exists>cs. score_candidate w s r c f l e = Inr cs \<and> cs_family cs = f \<and> cs_id cs = cd_id c \<and> cs_layout cs = l \<and>
    \<not> cs_disqualified cs \<and> cs_code cs = None"
  using assms by (simp add: score_candidate_def evaluate_def Let_def)

lemma score_item_total:
  assumes "(f, c, l) \<in> set generate_candidates"
  shows "\<exists>t cs. score_item w s r ev (f, c, l) = Inr (t, cs) \<and> scored_ok s r ev cs \<and> cs_id cs = c \<and> cs_layout cs = l"
proof -
  have fam: "reasoning_family c = f" "layout_compatible f l" using generated_iff assms by auto
  let ?e = "js_get ev (candidate_name c)"
  show ?thesis
  proof (cases "check_hard_constraints s r (candidate_of c) l ?e")
    case (Some fail)
    then show ?thesis using fam check_code [OF Some]
      by (simp add: score_item_def Let_def scored_ok_def disqualified_score_def passes_def del: candidate_of.simps)
  next
    case None
    have "assigned_to_family (cd_id (candidate_of c)) f" using fam by (simp add: assigned_to_family_def del: candidate_of.simps)
    from score_candidate_total [OF this, of "w" s r l ?e] None fam show ?thesis
      by (auto simp: score_item_def Let_def scored_ok_def passes_def simp del: candidate_of.simps)
  qed
qed

lemma score_all_total:
  "\<exists>traces scored. score_all w s r ev = Inr (traces, scored) \<and> (\<forall>c\<in>set scored. scored_ok s r ev c) \<and>
     (\<lambda>c. (cs_id c, cs_layout c)) ` set scored = snd ` set generate_candidates"
proof -
  have each: "\<exists>p. score_item w s r ev x = Inr p \<and> scored_ok s r ev (snd p) \<and>
      (cs_id (snd p), cs_layout (snd p)) = snd x" if "x \<in> set generate_candidates" for x
    using score_item_total that by (cases x) fastforce
  then obtain ps where ps: "mapE (score_item w s r ev) generate_candidates = Inr ps"
    using mapE_exists [of generate_candidates "score_item w s r ev"] by blast
  then have all: "list_all2 (\<lambda>x p. score_item w s r ev x = Inr p) generate_candidates ps"
    by (simp add: mapE_Inr_all_iff)
  have both: "list_all2 (\<lambda>x p. scored_ok s r ev (snd p) \<and> (cs_id (snd p), cs_layout (snd p)) = snd x) generate_candidates ps"
    by (rule list.rel_mono_strong [OF all]) (use each in fastforce)
  then have ok: "\<forall>p\<in>set ps. scored_ok s r ev (snd p)"
    by (simp add: list_all2_conv_all_nth all_set_conv_all_nth)
  have "map snd generate_candidates = map (\<lambda>p. (cs_id (snd p), cs_layout (snd p))) ps"
    unfolding list.rel_eq [symmetric] list.rel_map by (rule list_all2_mono [OF both]) simp
  from arg_cong [OF this, of set]
  have "(\<lambda>c. (cs_id c, cs_layout c)) ` snd ` set ps = snd ` set generate_candidates"
    by (simp only: set_map image_image)
  then show ?thesis using ps ok by (auto simp: score_all_def simp del: image_image)
qed

text \<open>
  The candidates a scoring run leaves feasible are exactly the evaluations of the generated candidates
  that pass the hard constraints.
\<close>

lemma score_item_feasible:
  assumes "score_item w s r ev (f, c, l) = Inr (t, x)"
  shows "\<not> cs_disqualified x \<longleftrightarrow> passes s r ev c l"
    and "passes s r ev c l \<Longrightarrow> score_candidate w s r (candidate_of c) f l (js_get ev (candidate_name c)) = Inr x"
proof -
  have unmarked: "\<not> cs_disqualified y" if "score_candidate w s r d f l e = Inr y" for d e y
    using that by (auto simp: score_candidate_def bindE_Inr_iff)
  show "\<not> cs_disqualified x \<longleftrightarrow> passes s r ev c l"
    using assms unmarked
    by (auto simp: score_item_def Let_def passes_def bindE_Inr_iff disqualified_score_def split: option.splits)
  show "score_candidate w s r (candidate_of c) f l (js_get ev (candidate_name c)) = Inr x" if "passes s r ev c l"
    using assms that by (auto simp: score_item_def Let_def passes_def bindE_Inr_iff)
qed

lemma scored_feasible:
  assumes "score_all w s r ev = Inr (traces, scored)"
  shows "x \<in> set (feasible scored) \<longleftrightarrow> (\<exists>(f, c, l)\<in>set generate_candidates. passes s r ev c l \<and>
    score_candidate w s r (candidate_of c) f l (js_get ev (candidate_name c)) = Inr x)"
proof -
  obtain ps where ps: "mapE (score_item w s r ev) generate_candidates = Inr ps" "set scored = snd ` set ps"
    using assms by (auto simp: score_all_def bindE_Inr_iff)
  note set_ps = mapE_results [OF ps(1)]
  have item: "\<exists>t. score_item w s r ev (f, c, l) = Inr (t, x)"
    if "(f, c, l) \<in> set generate_candidates" "passes s r ev c l"
      "score_candidate w s r (candidate_of c) f l (js_get ev (candidate_name c)) = Inr x" for f c l
    using score_item_total [OF that(1), of w s r ev] score_item_feasible(2) [OF _ that(2)] that(3) by fastforce
  have "x \<in> set (feasible scored) \<longleftrightarrow> \<not> cs_disqualified x \<and> (\<exists>t. (t, x) \<in> set ps)"
    by (force simp: feasible_def ps(2))
  also have "\<dots> \<longleftrightarrow> (\<exists>(f, c, l)\<in>set generate_candidates. passes s r ev c l \<and>
    score_candidate w s r (candidate_of c) f l (js_get ev (candidate_name c)) = Inr x)"
    using score_item_feasible item unfolding set_ps by fastforce
  finally show ?thesis .
qed

section \<open>Stability admission\<close>

definition demoted :: "candidate_score \<Rightarrow> candidate_score \<Rightarrow> bool" where
  "demoted c d \<longleftrightarrow> cs_id d = cs_id c \<and> cs_layout d = cs_layout c \<and> cs_family d = cs_family c \<and> cs_score d = cs_score c \<and>
     cs_disqualified d \<and> (cs_code d = Some StabilityEvidenceRequired \<longleftrightarrow> \<not> cs_disqualified c) \<and>
     (cs_code d = Some StabilityEvidenceRequired \<or> cs_code d = cs_code c)"

lemma admit_demotes:
  assumes "cs_code c \<noteq> Some StabilityEvidenceRequired"
  shows "\<exists>m' tr' d. stability_admit en s claim (m, tr, out) c = (m', tr', out @ [d]) \<and> demoted c d"
  using assms by (simp add: stability_admit_def is_promotable_def demoted_def Let_def)

lemma admit_fold:
  "\<forall>c\<in>set cs. cs_code c \<noteq> Some StabilityEvidenceRequired \<Longrightarrow>
   \<exists>m' tr' ds. foldl (stability_admit en s claim) (m, tr, out) cs = (m', tr', out @ ds) \<and> list_all2 demoted cs ds"
proof (induction cs arbitrary: m tr out)
  case (Cons c cs)
  from admit_demotes [of c en s claim m tr out] Cons.prems
  obtain m' tr' d where d: "stability_admit en s claim (m, tr, out) c = (m', tr', out @ [d])" "demoted c d" by auto
  from Cons.IH [of m' tr' "out @ [d]"] Cons.prems
  obtain m'' tr'' ds where "foldl (stability_admit en s claim) (m', tr', out @ [d]) cs = (m'', tr'', (out @ [d]) @ ds)"
    "list_all2 demoted cs ds" by auto
  with d show ?case by (intro exI [of _ m''] exI [of _ tr''] exI [of _ "d # ds"]) simp
qed simp

lemma stability_cases:
  assumes "\<forall>c\<in>set scored. cs_code c \<noteq> Some StabilityEvidenceRequired"
    and "stability_admission en s claim tr scored = (m, tr', out)"
  shows "if underdetermined_dataset s then list_all2 demoted scored out else out = scored"
proof -
  from admit_fold [OF assms(1), of en s claim None tr "[]"] assms(2)
  show ?thesis by (auto simp: stability_admission_def split: if_splits)
qed

section \<open>Sensitivity\<close>

lemma sensitivity_total:
  assumes "validate_weights raw = Inr w"
    and "\<And>v. validate_weights (\<lambda>d. Fin (v d)) = Inr v \<Longrightarrow> \<exists>k. rank v = Inr k"
  shows "\<exists>sn. winner_sensitivity base w rank (lit (1 / 10)) = Inr sn \<and> sn_scenarios sn = 14 \<and>
    ((\<forall>v k. rank v = Inr k \<longrightarrow> k \<noteq> Some base) \<longrightarrow> sn_changes sn = 14)"
proof -
  let ?step = "\<lambda>(d, dir). bindE (normalize_weights (perturbed w (lit (1 / 10)) d dir)) (\<lambda>v. Inr ((d, dir), v))"
  have "\<forall>x\<in>set perturbation_plan. \<exists>y. ?step x = Inr y"
  proof
    fix x :: "dimension \<times> direction" assume "x \<in> set perturbation_plan"
    obtain d dir where "x = (d, dir)" by (cases x)
    then show "\<exists>y. ?step x = Inr y" using perturbation_valid [OF assms(1), of d dir] by auto
  qed
  then obtain ss where ss: "mapE ?step perturbation_plan = Inr ss" using mapE_exists by blast
  have range: "\<not> (lit (1 / 10) \<le> 0 \<or> lit (1 / 10) \<ge> 1)" by code_simp
  have len: "length ss = 14" using mapE_Inr_length [OF ss] by (simp add: length_perturbation_plan)
  have valid: "validate_weights (\<lambda>d. Fin (v d)) = Inr v" if "(k, v) \<in> set ss" for k v
  proof -
    from that obtain i where i: "i < length ss" "ss ! i = (k, v)" by (auto simp: in_set_conv_nth)
    have "?step (perturbation_plan ! i) = Inr (k, v)"
      using ss i by (auto simp: mapE_Inr_all_iff list_all2_conv_all_nth)
    then obtain d dir where "normalize_weights (perturbed w (lit (1 / 10)) d dir) = Inr v"
      by (cases "perturbation_plan ! i") (auto simp: bindE_Inr_iff)
    with perturbation_valid [OF assms(1), of d dir] show ?thesis by auto
  qed
  let ?changed = "\<lambda>(_, v). bindE (rank v) (\<lambda>k. Inr (k \<noteq> Some base))"
  have "\<forall>x\<in>set ss. \<exists>y. ?changed x = Inr y" using valid assms(2) by fastforce
  then obtain bs where bs: "mapE ?changed ss = Inr bs" using mapE_exists by blast
  have "length bs = 14" using mapE_Inr_length [OF bs] len by simp
  moreover have "filter id bs = bs" if h: "\<forall>v k. rank v = Inr k \<longrightarrow> k \<noteq> Some base"
  proof -
    have "bs ! i" if i: "i < length bs" for i
    proof -
      have "?changed (ss ! i) = Inr (bs ! i)" using bs i by (simp add: mapE_Inr_all_iff list_all2_conv_all_nth)
      then show ?thesis using h by (cases "ss ! i") (auto simp: bindE_Inr_iff)
    qed
    then show ?thesis by (simp add: filter_id_conv all_set_conv_all_nth)
  qed
  ultimately show ?thesis
    using range ss bs by (auto simp: winner_sensitivity_def weight_perturbations_def Let_def)
qed

lemma rank_winner_total:
  assumes "validate_weights (\<lambda>d. Fin (v d)) = Inr v" and "\<forall>c\<in>set scored. reasoning_family (cs_id c) = cs_family c"
  shows "\<exists>k. rank_winner s r scored v = Inr k"
proof -
  let ?score = "\<lambda>c. score_candidate v s r (candidate_of (cs_id c)) (cs_family c) (cs_layout c) None"
  have "\<forall>c\<in>set (feasible scored). \<exists>y. ?score c = Inr y"
  proof
    fix c assume "c \<in> set (feasible scored)"
    then have "reasoning_family (cs_id c) = cs_family c" using assms(2) by (simp add: feasible_def)
    then have "assigned_to_family (cd_id (candidate_of (cs_id c))) (cs_family c)"
      by (simp add: assigned_to_family_def del: candidate_of.simps)
    from score_candidate_total [OF this] show "\<exists>y. ?score c = Inr y" by blast
  qed
  from mapE_exists [OF this] obtain ys where ys: "mapE ?score (feasible scored) = Inr ys" by blast
  show ?thesis unfolding rank_winner_def assms(1) bindE_simps ys by blast
qed

lemma rank_winner_none: "feasible scored = [] \<Longrightarrow> rank_winner s r scored v = Inr k \<Longrightarrow> k = None"
  by (auto simp: rank_winner_def bindE_Inr_iff sort_candidates_def)

section \<open>The stages of an arbitration\<close>

lemma make_decision_total:
  assumes "rq_context r = None" and "rq_intent r = None" and "rq_perspective r = None"
  shows "\<exists>d. make_decision D en s r ev stale m traces scored a w sn = Inr d \<and> de_status d = as_status a \<and>
    de_winner d = w \<and> de_ranked d = scored \<and> de_sensitivity d = sn \<and>
    de_chosen d = (if as_status a \<noteq> Abstain then Some (cs_id w, cs_family w, cs_layout w) else None)"
  using assms
  by (simp add: make_decision_def provenance_of_def optional_identity_def effective_intent_def effective_perspective_def Let_def)

lemma resolved_schema: "pred_option requirements_schema given \<Longrightarrow> requirements_schema (resolve_requirements s given i)"
  by (cases given) (simp_all add: resolve_requirements_def default_requirements_schema)

lemma schema_unframed:
  "requirements_schema r \<Longrightarrow> rq_context r = None \<and> rq_intent r = None \<and> rq_perspective r = None"
  by (simp add: requirements_schema_def)

definition any_passes :: "signature \<Rightarrow> requirements \<Rightarrow> (string, evidence) js_map \<Rightarrow> bool" where
  "any_passes s r ev \<longleftrightarrow> list_ex (\<lambda>(f, c, l). passes s r ev c l) generate_candidates"

lemma any_passes_scored:
  assumes "\<forall>c\<in>set scored. scored_ok s r ev c"
    and "(\<lambda>c. (cs_id c, cs_layout c)) ` set scored = snd ` set generate_candidates"
  shows "any_passes s r ev \<longleftrightarrow> feasible scored \<noteq> []"
proof -
  have "feasible scored \<noteq> [] \<longleftrightarrow> (\<exists>c\<in>set scored. passes s r ev (cs_id c) (cs_layout c))"
    using assms(1) by (auto simp: feasible_def filter_empty_conv scored_ok_def)
  also have "\<dots> \<longleftrightarrow> (\<exists>p\<in>(\<lambda>c. (cs_id c, cs_layout c)) ` set scored. passes s r ev (fst p) (snd p))" by simp
  also have "\<dots> \<longleftrightarrow> any_passes s r ev" unfolding assms(2) by (simp add: any_passes_def list_ex_iff case_prod_unfold)
  finally show ?thesis by simp
qed

lemma demoted_feasible: "list_all2 demoted cs ds \<Longrightarrow> feasible ds = []"
  by (induction rule: list_all2_induct) (auto simp: feasible_def demoted_def)

lemma demoted_codes:
  "list_all2 demoted cs ds \<Longrightarrow> filter (\<lambda>c. cs_code c = Some StabilityEvidenceRequired) ds = [] \<longleftrightarrow> feasible cs = []"
  by (induction rule: list_all2_induct) (auto simp: feasible_def demoted_def)

lemma demoted_family:
  "list_all2 demoted cs ds \<Longrightarrow> \<forall>c\<in>set cs. reasoning_family (cs_id c) = cs_family c \<Longrightarrow>
   \<forall>c\<in>set ds. reasoning_family (cs_id c) = cs_family c"
  by (induction rule: list_all2_induct) (auto simp: demoted_def)

lemma demoted_budget:
  "list_all2 demoted cs ds \<Longrightarrow> \<forall>c\<in>set cs. cs_code c = Some HardwareElementBudget \<longrightarrow> P \<Longrightarrow>
   \<forall>c\<in>set ds. cs_code c = Some HardwareElementBudget \<longrightarrow> P"
  by (induction rule: list_all2_induct) (auto simp: demoted_def)

lemma assess_default:
  obtains (none) a where "feasible scored = []" "assess scored default_policy = Inr a" "as_winner a = None"
  | (some) a w where "feasible scored \<noteq> []" "assess scored default_policy = Inr a" "as_winner a = Some w"
      "w \<in> set scored" "\<not> cs_disqualified w" "\<forall>c\<in>set (feasible scored). cs_score c \<le> cs_score w" "as_status a \<noteq> Abstain"
proof (cases rule: assess_cases [OF default_policy_valid, of scored, case_names none some])
  case (none a)
  then show ?thesis using that(1) by blast
next
  case (some w rest ru)
  note head = sort_candidates_head [OF some(1)]
  have "feasible scored \<noteq> []" using head(1) by auto
  with some(2) head show ?thesis
    by (intro that(2) [of "judge (lit (35 / 100)) (lit (8 / 100)) (lit (2 / 100)) w ru" w])
      (auto simp: feasible_def judge_status split: option.split)
qed

text \<open>
  The three outcomes of an arbitration under validated weights and requirements of the declared
  schema: nothing passes the constraints, the engine abstains, or it decides.
\<close>

lemma arbitration_outcome:
  assumes "validate_weights raw = Inr (en_weights en)" and "pred_option requirements_schema given"
    and "normalize_evidence input (sg_fingerprint s) = (ev, stale)"
  obtains (infeasible) traces scored where
      "arbitrate D en s given intent input claim = Inl (NoFeasible traces scored)"
      "\<not> any_passes s (resolve_requirements s given intent) ev" "feasible scored = []"
      "\<forall>c\<in>set scored. cs_code c = Some HardwareElementBudget \<longrightarrow>
        hw_max_elements (rq_hardware (resolve_requirements s given intent)) \<noteq> None"
  | (abstained) d where
      "arbitrate D en s given intent input claim = Inr d" "any_passes s (resolve_requirements s given intent) ev"
      "underdetermined_dataset s" "de_status d = Abstain" "de_chosen d = None" "feasible (de_ranked d) = []"
      "sn_scenarios (de_sensitivity d) = 14" "sn_changes (de_sensitivity d) = 14"
  | (decided) d w where
      "arbitrate D en s given intent input claim = Inr d" "\<not> underdetermined_dataset s" "de_status d \<noteq> Abstain"
      "de_chosen d = Some (cs_id w, cs_family w, cs_layout w)" "de_winner d = w" "w \<in> set (de_ranked d)"
      "scored_ok s (resolve_requirements s given intent) ev w" "\<not> cs_disqualified w"
      "\<forall>c\<in>set (feasible (de_ranked d)). cs_score c \<le> cs_score w" "sn_scenarios (de_sensitivity d) = 14"
      "\<exists>traces. score_all (en_weights en) s (resolve_requirements s given intent) ev = Inr (traces, de_ranked d)"
proof -
  define r where "r = resolve_requirements s given intent"
  have unframed: "rq_context r = None" "rq_intent r = None" "rq_perspective r = None"
    using schema_unframed [OF resolved_schema [OF assms(2)]] by (simp_all add: r_def)
  obtain tr0 sc0 where sc0: "score_all (en_weights en) s r ev = Inr (tr0, sc0)" "\<forall>c\<in>set sc0. scored_ok s r ev c"
    "(\<lambda>c. (cs_id c, cs_layout c)) ` set sc0 = snd ` set generate_candidates"
    using score_all_total [of "en_weights en" s r ev] by blast
  obtain m tr sc where sc: "stability_admission en s claim tr0 sc0 = (m, tr, sc)"
    by (cases "stability_admission en s claim tr0 sc0") auto
  have codes: "\<forall>c\<in>set sc0. cs_code c \<noteq> Some StabilityEvidenceRequired"
    and fam0: "\<forall>c\<in>set sc0. reasoning_family (cs_id c) = cs_family c" using sc0(2) by (simp_all add: scored_ok_def)
  note stab = stability_cases [OF codes sc]
  have fam: "\<forall>c\<in>set sc. reasoning_family (cs_id c) = cs_family c"
    using stab demoted_family [OF _ fam0] fam0 by (auto split: if_splits)
  have budget: "\<forall>c\<in>set sc. cs_code c = Some HardwareElementBudget \<longrightarrow> hw_max_elements (rq_hardware r) \<noteq> None"
  proof -
    have "\<forall>c\<in>set sc0. cs_code c = Some HardwareElementBudget \<longrightarrow> hw_max_elements (rq_hardware r) \<noteq> None"
      using sc0(2) by (simp add: scored_ok_def)
    then show ?thesis using stab demoted_budget [of sc0 sc "hw_max_elements (rq_hardware r) \<noteq> None"]
      by (simp only: split: if_splits) blast+
  qed
  note any = any_passes_scored [OF sc0(2,3)]
  have sens: "\<exists>sn. winner_sensitivity (candidate_key w) (en_weights en) (rank_winner s r sc) (lit (1 / 10)) = Inr sn \<and>
      sn_scenarios sn = 14 \<and> (feasible sc = [] \<longrightarrow> sn_changes sn = 14)" for w
    using sensitivity_total [OF assms(1), of "rank_winner s r sc" "candidate_key w"]
      rank_winner_total [OF _ fam] rank_winner_none by fastforce
  have run: "arbitrate D en s given intent input claim =
      bindE (fault (assess sc default_policy)) (\<lambda>a0. let a = abstention sc (m \<noteq> None) a0 in
        case as_winner a of None \<Rightarrow> Inl (NoFeasible tr sc)
        | Some w \<Rightarrow> bindE (fault (winner_sensitivity (candidate_key w) (en_weights en) (rank_winner s r sc) (lit (1 / 10))))
            (\<lambda>sn. fault (make_decision D en s r ev stale m tr sc a w sn)))"
    by (simp add: arbitrate_def assms(3) sc0(1) sc flip: r_def)
  have wsd: "feasible sc \<noteq> [] \<longrightarrow> \<not> underdetermined_dataset s \<and> sc = sc0"
    using stab demoted_feasible by (auto split: if_splits)
  have codes': "filter (\<lambda>c. cs_code c = Some StabilityEvidenceRequired) sc = [] \<longleftrightarrow>
      \<not> (underdetermined_dataset s \<and> any_passes s r ev)"
    using stab codes demoted_codes any by (auto split: if_splits simp: filter_empty_conv)
  have none_pass: "feasible sc = [] \<Longrightarrow> \<not> underdetermined_dataset s \<Longrightarrow> \<not> any_passes s r ev"
    using stab any by simp
  show ?thesis
  proof (cases rule: assess_default [of sc, case_names none some])
    case (none a)
    show ?thesis
    proof (cases "underdetermined_dataset s \<and> any_passes s r ev")
      case True
      then obtain w rest where ws: "filter (\<lambda>c. cs_code c = Some StabilityEvidenceRequired) sc = w # rest"
        using codes' by (cases "filter (\<lambda>c. cs_code c = Some StabilityEvidenceRequired) sc") auto
      define b where "b = abstention sc (m \<noteq> None) a"
      have b: "as_winner b = Some w" "as_status b = Abstain" by (simp_all add: b_def abstention_def none ws Let_def)
      obtain sn where sn: "winner_sensitivity (candidate_key w) (en_weights en) (rank_winner s r sc) (lit (1 / 10)) = Inr sn"
        "sn_scenarios sn = 14" "sn_changes sn = 14" using sens [of w] none(1) by auto
      obtain d where "make_decision D en s r ev stale m tr sc b w sn = Inr d" "de_status d = Abstain" "de_chosen d = None"
        "de_ranked d = sc" "de_sensitivity d = sn"
        using make_decision_total [OF unframed, of D en s ev stale m tr sc b w sn] b by auto
      moreover from this have "arbitrate D en s given intent input claim = Inr d"
        unfolding run by (simp add: none b sn(1) Let_def flip: b_def del: not_None_eq)
      ultimately show ?thesis using abstained True none(1) sn unfolding r_def by blast
    next
      case False
      then have "abstention sc (m \<noteq> None) a = a" using codes' none(3) by (simp add: abstention_def)
      then have "arbitrate D en s given intent input claim = Inl (NoFeasible tr sc)"
        unfolding run by (simp add: none)
      moreover have "\<not> any_passes s r ev" using False none_pass none(1) by blast
      ultimately show ?thesis using infeasible none(1) budget unfolding r_def by blast
    qed
  next
    case (some a w)
    have b: "abstention sc (m \<noteq> None) a = a" using some(3) by (simp add: abstention_def)
    obtain sn where sn: "winner_sensitivity (candidate_key w) (en_weights en) (rank_winner s r sc) (lit (1 / 10)) = Inr sn"
      "sn_scenarios sn = 14" using sens [of w] by auto
    obtain d where d: "make_decision D en s r ev stale m tr sc a w sn = Inr d" "de_status d = as_status a"
      "de_chosen d = Some (cs_id w, cs_family w, cs_layout w)" "de_winner d = w"
      "de_ranked d = sc" "de_sensitivity d = sn"
      using make_decision_total [OF unframed, of D en s ev stale m tr sc a w sn] some(7) by auto
    have run': "arbitrate D en s given intent input claim = Inr d"
      unfolding run by (simp add: some b sn(1) d(1) Let_def del: not_None_eq)
    have sc_eq: "\<not> underdetermined_dataset s" "sc = sc0" using wsd some(1) by auto
    have ok: "scored_ok s r ev w" using sc0(2) some(4) sc_eq by simp
    show ?thesis
      using decided [OF run' sc_eq(1) _ d(3,4) _ ok [unfolded r_def] some(5)] d some(4,6,7) sn(2) sc0(1) sc_eq(2)
      by (simp flip: r_def)
  qed
qed

section \<open>Evidence\<close>

text \<open>An item is bound to a candidate of a dataset.\<close>

definition bound :: "string \<Rightarrow> string \<Rightarrow> raw_evidence \<Rightarrow> evidence \<Rightarrow> bool" where
  "bound fp k e v \<longleftrightarrow> re_version e = evidence_version \<and> re_fingerprint e = fp \<and> re_candidate e = k \<and> k \<noteq> [] \<and>
     validate_evidence e = Inr v"

lemma bind_evidence_cases:
  obtains (kept) v where "bound fp k e v" "bind_evidence fp (m, n) (k, e) = (js_put k v m, n)"
  | (dropped) "\<nexists>v. bound fp k e v" "bind_evidence fp (m, n) (k, e) = (m, Suc n)"
proof (cases "\<exists>v. bound fp k e v")
  case True
  then obtain v where "bound fp k e v" by blast
  with kept show ?thesis by (auto simp: bound_def bind_evidence_def)
next
  case False
  then show ?thesis using dropped by (auto simp: bound_def bind_evidence_def split: sum.split)
qed

lemma bind_evidence_fold:
  "foldl (bind_evidence fp) (m, n) es = (m', n') \<Longrightarrow>
   (\<forall>p\<in>set m'. p \<in> set m \<or> (\<exists>e. (fst p, e) \<in> set es \<and> bound fp (fst p) e (snd p))) \<and>
   (distinct (map fst es) \<longrightarrow> set (map fst es) \<inter> set (js_keys m) = {} \<longrightarrow>
      length m' + n' = length m + n + length es)"
proof (induction es arbitrary: m n)
  case (Cons x es)
  obtain k e where x: "x = (k, e)" by (cases x)
  show ?case
  proof (cases rule: bind_evidence_cases [of fp k e m n, case_names kept dropped])
    case (kept v)
    have "foldl (bind_evidence fp) (js_put k v m, n) es = (m', n')" using Cons.prems kept(2) by (simp add: x)
    note IH = Cons.IH [OF this]
    have "p \<in> set m \<or> (\<exists>e. (fst p, e) \<in> set (x # es) \<and> bound fp (fst p) e (snd p))" if "p \<in> set m'" for p
    proof (cases "p \<in> set (js_put k v m)")
      case True
      from in_js_put [OF True] show ?thesis using kept(1) by (auto simp: x)
    qed (use IH that in auto)
    moreover have "length m' + n' = length m + n + length (x # es)"
      if "distinct (map fst (x # es))" "set (map fst (x # es)) \<inter> set (js_keys m) = {}"
      using IH that by (auto simp: x length_put js_has_iff)
    ultimately show ?thesis by blast
  next
    case dropped
    have "foldl (bind_evidence fp) (m, Suc n) es = (m', n')" using Cons.prems dropped(2) by (simp add: x)
    from Cons.IH [OF this] show ?thesis by (auto simp: x)
  qed
qed simp

section \<open>Properties\<close>

text \<open>
  C11: arbitration always answers. For every engine with validated weights and every requirements
  object of the declared schema (or none), the engine returns a decision exactly when some generated
  candidate passes the hard constraints on its layout, and otherwise throws the typed infeasibility
  error with every candidate disqualified; no other error leaves it, and no rounding makes the
  sensitivity analysis reject its own perturbed weights.
\<close>

theorem arbitration_always_answers:
  assumes "validate_weights raw = Inr (en_weights en)" and "pred_option requirements_schema given"
    and "normalize_evidence input (sg_fingerprint s) = (ev, stale)"
  shows "if any_passes s (resolve_requirements s given intent) ev
    then \<exists>d. arbitrate D en s given intent input claim = Inr d \<and> sn_scenarios (de_sensitivity d) = 14
    else \<exists>traces scored. arbitrate D en s given intent input claim = Inl (NoFeasible traces scored) \<and> feasible scored = []"
proof (cases rule: arbitration_outcome [OF assms, of D intent claim, case_names infeasible abstained decided])
  case (infeasible traces scored)
  then show ?thesis by simp
next
  case (abstained d)
  then show ?thesis by simp
next
  case (decided d w)
  have "(cs_family w, cs_id w, cs_layout w) \<in> set generate_candidates"
    using decided(7) by (simp add: generated_iff scored_ok_def)
  moreover have "passes s (resolve_requirements s given intent) ev (cs_id w) (cs_layout w)"
    using decided(7,8) by (simp add: scored_ok_def)
  ultimately have "any_passes s (resolve_requirements s given intent) ev"
    by (force simp: any_passes_def list_ex_iff)
  then show ?thesis using decided(1,10) by simp
qed

text \<open>
  C12: what a decision promotes is the best admissible representation. The chosen candidate was
  generated for its family and layout and passes every hard constraint with the evidence bound to it;
  the winner the decision reports is the evaluation of exactly this candidate, and no generated
  candidate that passes the hard constraints evaluates to a higher utility. A dataset with at least as
  many features as observations never reaches this point.
\<close>

theorem promoted_candidate_is_admissible:
  assumes "validate_weights raw = Inr (en_weights en)" and "pred_option requirements_schema given"
    and "normalize_evidence input (sg_fingerprint s) = (ev, stale)"
    and "arbitrate D en s given intent input claim = Inr d" and "de_chosen d = Some (c, f, l)"
  shows "let r = resolve_requirements s given intent;
      eval = \<lambda>f c l. score_candidate (en_weights en) s r (candidate_of c) f l (js_get ev (candidate_name c))
    in (f, c, l) \<in> set generate_candidates \<and> reasoning_family c = f \<and> layout_compatible f l \<and> passes s r ev c l \<and>
      eval f c l = Inr (de_winner d) \<and>
      (\<forall>(f', c', l')\<in>set generate_candidates. passes s r ev c' l' \<longrightarrow>
        (\<exists>x. eval f' c' l' = Inr x \<and> cs_score x \<le> cs_score (de_winner d))) \<and>
      de_status d \<noteq> Abstain \<and> \<not> underdetermined_dataset s"
proof (cases rule: arbitration_outcome [OF assms(1-3), of D intent claim, case_names infeasible abstained decided])
  case (decided d' w)
  let ?r = "resolve_requirements s given intent"
  let ?eval = "\<lambda>f c l. score_candidate (en_weights en) s ?r (candidate_of c) f l (js_get ev (candidate_name c))"
  have d: "d' = d" using decided(1) assms(4) by simp
  obtain traces where "score_all (en_weights en) s ?r ev = Inr (traces, de_ranked d)" using decided(11) d by blast
  note evaluated = scored_feasible [OF this]
  have w: "cs_id w = c" "cs_family w = f" "cs_layout w = l" using decided(4) assms(5) d by simp_all
  have ok: "reasoning_family c = f" "layout_compatible f l" "passes s ?r ev c l"
    using decided(7,8) by (simp_all add: scored_ok_def flip: w)
  have "w \<in> set (feasible (de_ranked d))" using decided(6,8) d by (simp add: feasible_def)
  then obtain f' c' l' where "(f', c', l') \<in> set generate_candidates" "?eval f' c' l' = Inr w"
    unfolding evaluated by auto
  moreover from this(2) have "f' = f" "c' = c" "l' = l"
    using w by (auto simp: score_candidate_def bindE_Inr_iff simp del: candidate_of.simps)
  ultimately have own: "(f, c, l) \<in> set generate_candidates" "?eval f c l = Inr w" by simp_all
  have "\<exists>x. ?eval f' c' l' = Inr x \<and> cs_score x \<le> cs_score w"
    if g: "(f', c', l') \<in> set generate_candidates" "passes s ?r ev c' l'" for f' c' l'
  proof -
    have "assigned_to_family (cd_id (candidate_of c')) f'"
      using g(1) by (simp add: generated_iff assigned_to_family_def del: candidate_of.simps)
    from score_candidate_total [OF this] obtain x where x: "?eval f' c' l' = Inr x" by blast
    then have "x \<in> set (feasible (de_ranked d))" using g unfolding evaluated by blast
    then show ?thesis using decided(9) x d by blast
  qed
  then show ?thesis using own ok decided(2,3,5) d by (auto simp: Let_def simp del: candidate_of.simps)
qed (use assms in simp_all)

text \<open>
  C32: with at least as many features as observations the engine never promotes a representation: any
  decision is an abstention without a chosen candidate, whatever certificate is supplied. Its
  sensitivity analysis is vacuous: since no candidate is left to rank, all fourteen perturbations
  count as a change of the winner, and the explanation reports an instability of 100 percent.
\<close>

theorem underdetermined_data_abstains:
  assumes "validate_weights raw = Inr (en_weights en)" and "pred_option requirements_schema given"
    and "arbitrate D en s given intent input claim = Inr d" and "underdetermined_dataset s"
  shows "de_status d = Abstain \<and> de_chosen d = None \<and> feasible (de_ranked d) = [] \<and>
    sn_changes (de_sensitivity d) = 14 \<and> sn_scenarios (de_sensitivity d) = 14"
proof -
  obtain ev stale where ev: "normalize_evidence input (sg_fingerprint s) = (ev, stale)"
    by (cases "normalize_evidence input (sg_fingerprint s)")
  show ?thesis
    by (cases rule: arbitration_outcome [OF assms(1,2) ev, of D intent claim]) (use assms(3,4) in auto)
qed

text \<open>
  C33: only evidence that is bound to the dataset and to the candidate it is filed under reaches the
  constraints and the scores, every item of it has passed the validator, and when the items have
  distinct keys each one is either consumed or counted as dropped.
\<close>

theorem only_bound_evidence_consumed:
  assumes "normalize_evidence input fp = (m, n)"
  shows "(\<forall>p\<in>set m. \<exists>e. (fst p, e) \<in> set (evidence_entries input) \<and> bound fp (fst p) e (snd p)) \<and>
    (distinct (map fst (evidence_entries input)) \<longrightarrow> length m + n = length (evidence_entries input))"
  using bind_evidence_fold [OF assms [unfolded normalize_evidence_def]] by simp

section \<open>Examples\<close>

definition sample_digests :: digests where
  "sample_digests = \<lparr>dg_requirements = (\<lambda>r. ''h''), dg_context = (\<lambda>c. ''c''), dg_intent = (\<lambda>i. ''i''),
     dg_perspective = (\<lambda>p. ''p'')\<rparr>"

definition sample_engine :: engine where
  "sample_engine = \<lparr>en_weights = default_weights, en_artifact = None\<rparr>"

definition wide_signature :: signature where
  "wide_signature = sample_signature\<lparr>sg_columns := 500\<rparr>"

lemma sample_engine_valid: "validate_weights (\<lambda>d. Fin (default_weights d)) = Inr (en_weights sample_engine)"
  by (simp add: sample_engine_def default_weights_valid)

lemma sample_schema: "pred_option requirements_schema (Some sample_requirements)"
  by (simp add: sample_requirements_def default_requirements_schema)

lemma no_evidence: "normalize_evidence NoEvidence fp = ([], 0)"
  by (simp add: normalize_evidence_def)

lemma sample_resolved: "resolve_requirements s (Some r) i = r"
  by (simp add: resolve_requirements_def)

lemma density_generated: "(FDistribution, DensityField, Grid3d) \<in> set generate_candidates"
  by (simp add: generated_iff layout_compatible_def)

lemma sample_any: "any_passes sample_signature sample_requirements []"
  unfolding any_passes_def list_ex_iff
  by (rule bexI [OF _ density_generated]) (simp add: passes_def sample_density_passes del: candidate_of.simps)

lemma wide_check: "check_hard_constraints (s\<lparr>sg_columns := n\<rparr>) r c l e = check_hard_constraints s r c l e"
proof -
  have "candidate_constraint_check (s\<lparr>sg_columns := n\<rparr>) = candidate_constraint_check s"
    by (rule ext) (simp add: candidate_constraint_check_def cong: option.case_cong)
  then show ?thesis
    by (simp add: check_hard_constraints_def hardware_check_def cluster_check_def graph_check_def layout_check_def scale_check_def
        cong: option.case_cong)
qed

lemma wide_any: "any_passes wide_signature sample_requirements []"
  using sample_any by (simp add: any_passes_def passes_def wide_signature_def wide_check)

theorem arbitration_always_answers_witness:
  "\<exists>d. arbitrate sample_digests sample_engine sample_signature (Some sample_requirements) None NoEvidence None = Inr d"
  using arbitration_always_answers [OF sample_engine_valid sample_schema no_evidence,
      of sample_signature None sample_digests None] sample_any
  by (auto simp: sample_resolved)

theorem promoted_candidate_is_admissible_witness:
  "\<exists>d c f l. arbitrate sample_digests sample_engine sample_signature (Some sample_requirements) None NoEvidence None = Inr d \<and>
     de_chosen d = Some (c, f, l) \<and> passes sample_signature sample_requirements [] c l"
proof (cases rule: arbitration_outcome [OF sample_engine_valid sample_schema no_evidence,
      of sample_digests sample_signature None None, case_names infeasible abstained decided])
  case (infeasible traces scored)
  then show ?thesis using sample_any by (simp add: sample_resolved)
next
  case (abstained d)
  then show ?thesis by (simp add: underdetermined_dataset_def sample_signature_def)
next
  case (decided d w)
  from promoted_candidate_is_admissible [OF sample_engine_valid sample_schema no_evidence decided(1,4)] decided(1,4)
  show ?thesis by (auto simp: sample_resolved)
qed

theorem underdetermined_data_abstains_witness:
  "\<exists>d. arbitrate sample_digests sample_engine wide_signature (Some sample_requirements) None NoEvidence None = Inr d \<and>
     de_status d = Abstain \<and> sn_changes (de_sensitivity d) = 14"
proof -
  have wide: "underdetermined_dataset wide_signature"
    by (simp add: underdetermined_dataset_def wide_signature_def sample_signature_def)
  show ?thesis
  proof (cases rule: arbitration_outcome [OF sample_engine_valid sample_schema no_evidence,
        of sample_digests wide_signature None None, case_names infeasible abstained decided])
    case (infeasible traces scored)
    then show ?thesis using wide_any by (simp add: sample_resolved)
  next
    case (abstained d)
    from underdetermined_data_abstains [OF sample_engine_valid sample_schema abstained(1) wide] abstained(1)
    show ?thesis by blast
  next
    case (decided d w)
    then show ?thesis using wide by simp
  qed
qed

definition sample_prior :: raw_evidence where
  "sample_prior = \<lparr>re_version = evidence_version, re_candidate = ''POINT_SET'', re_fingerprint = ''fp'', re_source = ''prior'',
     re_measured = None, re_occlusion = Fin 1, re_load = Fin 0, re_signals = None\<rparr>"

theorem only_bound_evidence_consumed_witness:
  "\<exists>m n. normalize_evidence (KeyedEvidence [(''POINT_SET'', sample_prior), (''MATRIX_FIELD'', sample_prior)]) ''fp'' = (m, n) \<and>
     length m + n = 2"
proof -
  let ?in = "KeyedEvidence [(''POINT_SET'', sample_prior), (''MATRIX_FIELD'', sample_prior)]"
  obtain m n where run: "normalize_evidence ?in ''fp'' = (m, n)" by (cases "normalize_evidence ?in ''fp''")
  from only_bound_evidence_consumed [OF run] run show ?thesis by auto
qed

end
