(* ===== verification/Moneta_Nil.thy ===== *)
theory Moneta_Nil
  imports Moneta_Engine_Props Keyed_Store
begin

text \<open>
  What the investigator is offered when nothing is feasible or the decision is not clear
  (\<open>src/moneta/representation/ActionableNil.ts\<close>), the engine's \<open>diagnose\<close>, and the durable store of
  infeasible outcomes (\<open>src/investigation/NoFeasibleRepresentationStore.ts\<close>). A remediation is an
  object shared between the blocking constraints and the list of available actions and is extended
  while the constraints are walked, so the walk keeps an explicit store of remediations. The em dash of
  one description is written as two hyphens.
\<close>

section \<open>Remediations\<close>

datatype remediation_kind = AdjustHardwareLimit | AdjustFrustumTolerance | SwitchTask | AggregateData
  | SupplyTemporalOrder | AcceptAlternative

datatype device_feasibility = Unverified | FeasibleDevice | InfeasibleDevice

text \<open>The patches the diagnosis suggests: none, new hardware limits, or a new frustum tolerance.\<close>

datatype requirement_patch = NoPatch | HardwarePatch hardware_constraint | FrustumPatch rat

record remediation =
  rm_id :: string
  rm_label :: string
  rm_kind :: remediation_kind
  rm_description :: string
  rm_safe :: bool
  rm_device_feasibility :: device_feasibility
  rm_code :: "constraint_code option"
  rm_patch :: requirement_patch
  rm_unblocks :: "candidate_id list"

record blocking_constraint =
  bl_rule :: string
  bl_candidate :: candidate_id
  bl_name :: string
  bl_reason :: string
  bl_info_loss :: bool
  bl_hardware :: bool
  bl_perceptual :: bool
  bl_remediation :: "nat option"

record walk =
  wk_store :: "remediation list"
  wk_map :: "(string, nat) js_map"
  wk_blocking :: "blocking_constraint list"

text \<open>\<open>toLocaleString\<close> of an integer in the English locale: a comma before every third digit from the right.\<close>

fun group_digits :: "string \<Rightarrow> string" where
  "group_digits (a # b # c # d # rest) = [a, b, c, CHR '',''] @ group_digits (d # rest)"
| "group_digits s = s"

definition locale_int :: "int \<Rightarrow> string" where
  "locale_int n = (if n < 0 then ''-'' else []) @ rev (group_digits (rev (show_nat (nat \<bar>n\<bar>))))"

lemma locale_int_examples: "locale_int 10000 = ''10,000''" "locale_int 999 = ''999''" "locale_int 1234567 = ''1,234,567''"
  by (simp_all add: locale_int_def show_nat.simps char_of_def bit_0)

definition hardware_id :: string where "hardware_id = ''relax_hardware_elements''"
definition frustum_id :: string where "frustum_id = ''relax_frustum_exclusion_tolerance''"

definition element_budget :: "requirements \<Rightarrow> rat" where
  "element_budget r = (case hw_max_elements (rq_hardware r) of None \<Rightarrow> 10000 | Some m \<Rightarrow> m)"

definition hardware_remediation :: "requirements \<Rightarrow> candidate_score \<Rightarrow> remediation" where
  "hardware_remediation r c =
     (let m = element_budget r in
      \<lparr>rm_id = hardware_id, rm_label = ''Increase hardware element budget'', rm_kind = AdjustHardwareLimit,
       rm_description = ''Raise maxElements from '' @ locale_int \<lfloor>m\<rfloor> @ '' to '' @ locale_int \<lfloor>fmul m 2\<rfloor> @
         '' to permit denser representations. Scientifically permissible (not an information-preservation constraint), but device feasibility is UNVERIFIED'' @
         '' -- a target-device qualification run is required before relying on the larger bound.'',
       rm_safe = True, rm_device_feasibility = Unverified, rm_code = cs_code c,
       rm_patch = HardwarePatch ((rq_hardware r)\<lparr>hw_max_elements := Some (fmul m 2)\<rparr>),
       rm_unblocks = [cs_id c]\<rparr>)"

definition frustum_remediation :: "requirements \<Rightarrow> candidate_score \<Rightarrow> remediation" where
  "frustum_remediation r c =
     (let t = rq_frustum r; wider = fadd t (lit (2 / 10)) in
      \<lparr>rm_id = frustum_id, rm_label = ''Relax frustum exclusion tolerance threshold'', rm_kind = AdjustFrustumTolerance,
       rm_description = ''Increase maxFrustumExclusionTolerance from '' @ to_fixed 0 (fmul t 100) @ ''% to '' @
         to_fixed 0 (min 100 (fmul wider 100)) @
         ''% for 3D exploratory layout. The hard gate bounds view-frustum/depth-range exclusion, NOT occlusion. Scientifically permissible, but device feasibility is UNVERIFIED until a qualification run confirms legibility on the target headset.'',
       rm_safe = True, rm_device_feasibility = Unverified, rm_code = cs_code c, rm_patch = FrustumPatch (min 1 wider),
       rm_unblocks = [cs_id c]\<rparr>)"

definition info_loss_remediation :: "candidate_score \<Rightarrow> remediation" where
  "info_loss_remediation c =
     \<lparr>rm_id = ''info_loss_'' @ candidate_name (cs_id c),
      rm_label = ''Acknowledge information loss for '' @ cd_name (candidate_of (cs_id c)), rm_kind = SwitchTask,
      rm_description = ''Candidate loses critical dimensions required by current task intent. To proceed, change task focus or use multi-representation view.'',
      rm_safe = False, rm_device_feasibility = Unverified, rm_code = cs_code c, rm_patch = NoPatch,
      rm_unblocks = [cs_id c]\<rparr>"

section \<open>The walk over the near misses\<close>

text \<open>A fresh object, filed under its id.\<close>

definition file_remediation :: "remediation \<Rightarrow> walk \<Rightarrow> nat option \<times> walk" where
  "file_remediation m w =
     (Some (length (wk_store w)),
      w\<lparr>wk_store := wk_store w @ [m], wk_map := js_put (rm_id m) (length (wk_store w)) (wk_map w)\<rparr>)"

text \<open>The object already filed under the id, extended in place by one more candidate.\<close>

definition share_remediation :: "remediation \<Rightarrow> candidate_id \<Rightarrow> walk \<Rightarrow> nat option \<times> walk" where
  "share_remediation m c w = (case js_get (wk_map w) (rm_id m) of
     None \<Rightarrow> file_remediation m w
   | Some i \<Rightarrow>
       let old = wk_store w ! i in
       (Some i, if c \<in> set (rm_unblocks old) then w
                else w\<lparr>wk_store := (wk_store w)[i := old\<lparr>rm_unblocks := rm_unblocks old @ [c]\<rparr>]\<rparr>))"

definition before_colon :: "string \<Rightarrow> string" where
  "before_colon s = takeWhile (\<lambda>c. c \<noteq> CHR '':'') s"

definition walk_near_miss :: "requirements \<Rightarrow> walk \<Rightarrow> candidate_score \<Rightarrow> walk" where
  "walk_near_miss r w c =
     (if \<not> cs_disqualified c then w
      else
        let cat = classify_constraint (cs_code c);
            (ref, w') = (case cat of
                CatHardware \<Rightarrow> share_remediation (hardware_remediation r c) (cs_id c) w
              | CatPerceptual \<Rightarrow> share_remediation (frustum_remediation r c) (cs_id c) w
              | CatScientificInfoLoss \<Rightarrow> file_remediation (info_loss_remediation c) w
              | CatStructural \<Rightarrow> (None, w))
        in w'\<lparr>wk_blocking := wk_blocking w' @
             [\<lparr>bl_rule = (case cs_reason c of None \<Rightarrow> ''HARD_CONSTRAINT'' | Some x \<Rightarrow> before_colon x),
               bl_candidate = cs_id c, bl_name = cd_name (candidate_of (cs_id c)),
               bl_reason = (case cs_reason c of None \<Rightarrow> ''Unknown hard constraint disqualification'' | Some x \<Rightarrow> x),
               bl_info_loss = (cat = CatScientificInfoLoss), bl_hardware = (cat = CatHardware),
               bl_perceptual = (cat = CatPerceptual), bl_remediation = ref\<rparr>]\<rparr>)"

definition walk_near_misses :: "requirements \<Rightarrow> candidate_score list \<Rightarrow> walk" where
  "walk_near_misses r cs = foldl (walk_near_miss r) \<lparr>wk_store = [], wk_map = [], wk_blocking = []\<rparr> cs"

definition filed_remediations :: "walk \<Rightarrow> remediation list" where
  "filed_remediations w = map (\<lambda>i. wk_store w ! i) (js_values (wk_map w))"

section \<open>Outcomes\<close>

record outcome =
  oc_state :: decision_status
  oc_explanation :: string
  oc_decision :: "decision option"
  oc_near_misses :: "candidate_score list"
  oc_blocking :: "blocking_constraint list"
  oc_store :: "remediation list"
  oc_remediations :: "remediation list"

definition decision_near_misses :: "decision \<Rightarrow> candidate_score list" where
  "decision_near_misses d =
     (if de_status d = Abstain then take 3 (de_ranked d)
      else take 3 (filter (\<lambda>c. Some (cs_id c) \<noteq> map_option fst (de_chosen d) \<and> \<not> cs_disqualified c) (de_ranked d)))"

definition switch_remediation :: "decision \<Rightarrow> candidate_score \<Rightarrow> remediation" where
  "switch_remediation d c =
     \<lparr>rm_id = ''switch_to_'' @ candidate_name (cs_id c),
      rm_label = ''Select alternative: '' @ cd_name (candidate_of (cs_id c)), rm_kind = AcceptAlternative,
      rm_description = ''Explicitly select the close alternative ('' @ layout_name (cs_layout c) @ '') with utility margin '' @
        (case de_margin d of None \<Rightarrow> ''0.000'' | Some m \<Rightarrow> to_fixed 3 m) @ ''.'',
      rm_safe = True, rm_device_feasibility = Unverified, rm_code = None, rm_patch = NoPatch,
      rm_unblocks = [cs_id c]\<rparr>"

definition readable_decision :: "decision \<Rightarrow> string" where
  "readable_decision d = (case de_status d of
     Abstain \<Rightarrow> ''Abstained: '' @ de_rationale d
   | Underdetermined \<Rightarrow> ''Underdetermined: '' @ de_rationale d @
       '' Consider refining task intent or applying structural focus.''
   | Ambiguous \<Rightarrow> ''Ambiguous: '' @ de_rationale d @ '' Investigator may select either candidate safely.''
   | _ \<Rightarrow> de_explanation d)"

definition diagnose_decision :: "decision \<Rightarrow> outcome" where
  "diagnose_decision d =
     (let rems = (case de_runner d of Some c \<Rightarrow> if de_status d = Ambiguous then [switch_remediation d c] else []
                  | None \<Rightarrow> []) in
      \<lparr>oc_state = de_status d, oc_explanation = readable_decision d, oc_decision = Some d,
       oc_near_misses = decision_near_misses d, oc_blocking = [], oc_store = rems, oc_remediations = rems\<rparr>)"

definition diagnose_error :: "requirements \<Rightarrow> candidate_score list \<Rightarrow> outcome" where
  "diagnose_error r misses =
     (let w = walk_near_misses r misses in
      \<lparr>oc_state = Infeasible,
       oc_explanation = ''Infeasible: No representation satisfies the declared hard constraints. '' @
         show_nat (length (wk_blocking w)) @ '' constraint(s) blocked candidates. '' @
         show_nat (length (wk_map w)) @ '' potential remediation action(s) available.'',
       oc_decision = None, oc_near_misses = take 3 (sort_key (\<lambda>c. - cs_score c) misses),
       oc_blocking = wk_blocking w, oc_store = wk_store w, oc_remediations = filed_remediations w\<rparr>)"

definition diagnose ::
  "digests \<Rightarrow> engine \<Rightarrow> signature \<Rightarrow> requirements option \<Rightarrow> analytical_intent option \<Rightarrow> evidence_input \<Rightarrow> string + outcome" where
  "diagnose D en s given intent input =
     (let r = resolve_requirements s given intent in
      case arbitrate D en s (Some r) intent input None of
        Inr d \<Rightarrow> Inr (diagnose_decision d)
      | Inl (NoFeasible traces misses) \<Rightarrow> Inr (diagnose_error r misses)
      | Inl (EngineFault e) \<Rightarrow> Inl e)"

section \<open>Applying a remediation\<close>

definition apply_remediation :: "requirements \<Rightarrow> remediation \<Rightarrow> string + requirements" where
  "apply_remediation r m =
     (if \<not> rm_safe m \<and> rm_patch m = NoPatch
      then Inl (''Cannot automatically relax critical scientific constraint '' @ [CHR 0x27] @ rm_id m @ [CHR 0x27] @
        ''. User must explicitly modify task requirements.'')
      else Inr (case rm_patch m of NoPatch \<Rightarrow> r
        | HardwarePatch h \<Rightarrow> r\<lparr>rq_hardware := h\<rparr>
        | FrustumPatch t \<Rightarrow> r\<lparr>rq_frustum := t\<rparr>))"

record remediation_provenance =
  rp_remediation :: string
  rp_kind :: remediation_kind
  rp_code :: "constraint_code option"
  rp_category :: constraint_category
  rp_permissible :: bool
  rp_feasibility :: device_feasibility
  rp_fingerprint :: string
  rp_old_hash :: string
  rp_new_hash :: string
  rp_patch :: requirement_patch
  rp_decision :: "string option"
  rp_timestamp :: int

definition build_provenance ::
  "digests \<Rightarrow> remediation \<Rightarrow> requirements \<Rightarrow> requirements \<Rightarrow> string \<Rightarrow> int \<Rightarrow> string option \<Rightarrow> remediation_provenance" where
  "build_provenance D m old new fp at_time decision_id =
     \<lparr>rp_remediation = rm_id m, rp_kind = rm_kind m, rp_code = rm_code m, rp_category = classify_constraint (rm_code m),
      rp_permissible = rm_safe m, rp_feasibility = rm_device_feasibility m, rp_fingerprint = fp,
      rp_old_hash = dg_requirements D old, rp_new_hash = dg_requirements D new, rp_patch = rm_patch m,
      rp_decision = decision_id, rp_timestamp = at_time\<rparr>"

section \<open>The walk keeps its store\<close>

text \<open>
  Every object of the store is one of the three remediations of these requirements for some near miss of \<open>C\<close>,
  up to the candidates it unblocks, and every reference points into the store.
\<close>

definition derived :: "candidate_score set \<Rightarrow> requirements \<Rightarrow> remediation \<Rightarrow> bool" where
  "derived C r m \<longleftrightarrow> (\<exists>c\<in>C. \<exists>cs. cs_disqualified c \<and>
     ((classify_constraint (cs_code c) = CatHardware \<and> m = (hardware_remediation r c)\<lparr>rm_unblocks := cs\<rparr>) \<or>
      (classify_constraint (cs_code c) = CatPerceptual \<and> m = (frustum_remediation r c)\<lparr>rm_unblocks := cs\<rparr>) \<or>
      (classify_constraint (cs_code c) = CatScientificInfoLoss \<and> m = (info_loss_remediation c)\<lparr>rm_unblocks := cs\<rparr>)))"

definition walk_ok :: "candidate_score set \<Rightarrow> requirements \<Rightarrow> walk \<Rightarrow> bool" where
  "walk_ok C r w \<longleftrightarrow> list_all (derived C r) (wk_store w) \<and> (\<forall>p\<in>set (wk_map w). snd p < length (wk_store w)) \<and>
     list_all (\<lambda>b. pred_option (\<lambda>i. i < length (wk_store w)) (bl_remediation b)) (wk_blocking w)"

lemma derived_extend: "derived C r m \<Longrightarrow> derived C r (m\<lparr>rm_unblocks := cs\<rparr>)"
  unfolding derived_def by fastforce

lemma file_ok:
  assumes "walk_ok C r w" and "derived C r m"
  shows "walk_ok C r (snd (file_remediation m w))"
    and "pred_option (\<lambda>i. i < length (wk_store (snd (file_remediation m w)))) (fst (file_remediation m w))"
proof -
  have "p = (rm_id m, length (wk_store w)) \<or> p \<in> set (wk_map w)"
    if "p \<in> set (js_put (rm_id m) (length (wk_store w)) (wk_map w))" for p
    using in_js_put [OF that] .
  then show "walk_ok C r (snd (file_remediation m w))"
    using assms by (fastforce simp: walk_ok_def file_remediation_def list_all_iff option.pred_set)
qed (simp add: file_remediation_def)

lemma share_ok:
  assumes "walk_ok C r w" and "derived C r m"
  shows "walk_ok C r (snd (share_remediation m c w))"
    and "pred_option (\<lambda>i. i < length (wk_store (snd (share_remediation m c w)))) (fst (share_remediation m c w))"
proof -
  have "walk_ok C r (snd (share_remediation m c w)) \<and>
    pred_option (\<lambda>i. i < length (wk_store (snd (share_remediation m c w)))) (fst (share_remediation m c w))"
  proof (cases "js_get (wk_map w) (rm_id m)")
    case None
    then show ?thesis using file_ok [OF assms] by (simp add: share_remediation_def)
  next
    case (Some i)
    then have i: "i < length (wk_store w)" using assms(1) map_of_SomeD [OF Some] by (fastforce simp: walk_ok_def)
    then have "derived C r (wk_store w ! i)" using assms(1) by (simp add: walk_ok_def list_all_length)
    then have "list_all (derived C r) ((wk_store w)[i := (wk_store w ! i)\<lparr>rm_unblocks := cs\<rparr>])" for cs
      using assms(1) derived_extend [of C r "wk_store w ! i" cs]
        set_update_subset_insert [of "wk_store w" i "(wk_store w ! i)\<lparr>rm_unblocks := cs\<rparr>"]
      by (auto simp: walk_ok_def list_all_iff)
    then show ?thesis using assms(1) i by (simp add: share_remediation_def Some Let_def walk_ok_def)
  qed
  then show "walk_ok C r (snd (share_remediation m c w))"
    "pred_option (\<lambda>i. i < length (wk_store (snd (share_remediation m c w)))) (fst (share_remediation m c w))" by simp_all
qed

lemma derivedI:
  assumes "c \<in> C" and "cs_disqualified c"
  shows "classify_constraint (cs_code c) = CatHardware \<Longrightarrow> derived C r (hardware_remediation r c)"
    and "classify_constraint (cs_code c) = CatPerceptual \<Longrightarrow> derived C r (frustum_remediation r c)"
    and "classify_constraint (cs_code c) = CatScientificInfoLoss \<Longrightarrow> derived C r (info_loss_remediation c)"
proof -
  have "m\<lparr>rm_unblocks := rm_unblocks m\<rparr> = m" for m :: remediation by simp
  then show "classify_constraint (cs_code c) = CatHardware \<Longrightarrow> derived C r (hardware_remediation r c)"
    "classify_constraint (cs_code c) = CatPerceptual \<Longrightarrow> derived C r (frustum_remediation r c)"
    "classify_constraint (cs_code c) = CatScientificInfoLoss \<Longrightarrow> derived C r (info_loss_remediation c)"
    unfolding derived_def using assms by metis+
qed

lemma walk_add_blocking:
  "walk_ok C r w \<Longrightarrow> pred_option (\<lambda>i. i < length (wk_store w)) (bl_remediation b) \<Longrightarrow>
   walk_ok C r (w\<lparr>wk_blocking := wk_blocking w @ [b]\<rparr>)"
  by (simp add: walk_ok_def)

lemma walk_near_miss_ok:
  assumes "walk_ok C r w" and "c \<in> C"
  shows "walk_ok C r (walk_near_miss r w c)"
proof (cases "cs_disqualified c")
  case True
  let ?res = "case classify_constraint (cs_code c) of
      CatHardware \<Rightarrow> share_remediation (hardware_remediation r c) (cs_id c) w
    | CatPerceptual \<Rightarrow> share_remediation (frustum_remediation r c) (cs_id c) w
    | CatScientificInfoLoss \<Rightarrow> file_remediation (info_loss_remediation c) w
    | CatStructural \<Rightarrow> (None, w)"
  have "walk_ok C r (snd ?res) \<and> pred_option (\<lambda>i. i < length (wk_store (snd ?res))) (fst ?res)"
    using assms(1) share_ok [OF assms(1)] file_ok [OF assms(1)] derivedI [OF assms(2) True] by (cases "classify_constraint (cs_code c)") simp_all
  then show ?thesis
    using True by (simp add: walk_near_miss_def Let_def split: prod.split) (auto intro!: walk_add_blocking)
qed (simp add: walk_near_miss_def assms)

lemma walk_near_misses_ok: "walk_ok (set cs) r (walk_near_misses r cs)"
proof -
  have "walk_ok C r (foldl (walk_near_miss r) w cs)" if "walk_ok C r w" "set cs \<subseteq> C" for w C
    using that by (induction cs arbitrary: w) (simp_all add: walk_near_miss_ok)
  from this [of "set cs" "\<lparr>wk_store = [], wk_map = [], wk_blocking = []\<rparr>"] show ?thesis
    by (simp add: walk_near_misses_def) (simp add: walk_ok_def)
qed

lemma diagnosed_derived: "m \<in> set (oc_remediations (diagnose_error r cs)) \<Longrightarrow> derived (set cs) r m"
  using walk_near_misses_ok [of cs r]
  by (auto simp: diagnose_error_def Let_def filed_remediations_def walk_ok_def list_all_length)

section \<open>What a remediation changes\<close>

lemma apply_patches:
  "apply_remediation r ((hardware_remediation r c)\<lparr>rm_unblocks := cs\<rparr>) =
     Inr (r\<lparr>rq_hardware := (rq_hardware r)\<lparr>hw_max_elements := Some (fmul (element_budget r) 2)\<rparr>\<rparr>)"
  "apply_remediation r ((frustum_remediation r c)\<lparr>rm_unblocks := cs\<rparr>) =
     Inr (r\<lparr>rq_frustum := min 1 (fadd (rq_frustum r) (lit (2 / 10)))\<rparr>)"
  "\<exists>e. apply_remediation r ((info_loss_remediation c)\<lparr>rm_unblocks := cs\<rparr>) = Inl e"
  by (simp_all add: apply_remediation_def hardware_remediation_def frustum_remediation_def
      info_loss_remediation_def Let_def)

lemma apply_derived:
  assumes "derived C r m" and "apply_remediation r m = Inr r'"
  shows "rm_safe m"
    and "(\<exists>c\<in>C. cs_code c = Some HardwareElementBudget) \<and>
      r' = r\<lparr>rq_hardware := (rq_hardware r)\<lparr>hw_max_elements := Some (fmul (element_budget r) 2)\<rparr>\<rparr> \<or>
    r' = r\<lparr>rq_frustum := min 1 (fadd (rq_frustum r) (lit (2 / 10)))\<rparr>"
proof -
  obtain c cs where c: "c \<in> C" and m: "classify_constraint (cs_code c) = CatHardware \<and> m = (hardware_remediation r c)\<lparr>rm_unblocks := cs\<rparr> \<or>
      m = (frustum_remediation r c)\<lparr>rm_unblocks := cs\<rparr> \<or> m = (info_loss_remediation c)\<lparr>rm_unblocks := cs\<rparr>"
    using assms(1) unfolding derived_def by blast
  have code: "cs_code c = Some HardwareElementBudget" if "classify_constraint (cs_code c) = CatHardware"
    using that by (cases "cs_code c" rule: classify_constraint.cases) simp_all
  show "(\<exists>c\<in>C. cs_code c = Some HardwareElementBudget) \<and>
      r' = r\<lparr>rq_hardware := (rq_hardware r)\<lparr>hw_max_elements := Some (fmul (element_budget r) 2)\<rparr>\<rparr> \<or>
    r' = r\<lparr>rq_frustum := min 1 (fadd (rq_frustum r) (lit (2 / 10)))\<rparr>"
    using m c code assms(2) apply_patches [where r = r and c = c and cs = cs] by (elim disjE) auto
  show "rm_safe m"
    using m assms(2) by (auto simp: apply_remediation_def hardware_remediation_def frustum_remediation_def
        info_loss_remediation_def Let_def)
qed

text \<open>The checks that read neither the hardware limits nor the frustum tolerance.\<close>

lemma ignores_hardware:
  "frustum_check (r\<lparr>rq_hardware := h\<rparr>) e = frustum_check r e"
  "critical_loss_check (r\<lparr>rq_hardware := h\<rparr>) c = critical_loss_check r c"
  "identity_loss_check (r\<lparr>rq_hardware := h\<rparr>) c = identity_loss_check r c"
  "metric_loss_check (r\<lparr>rq_hardware := h\<rparr>) c = metric_loss_check r c"
  "cluster_loss_check (r\<lparr>rq_hardware := h\<rparr>) c = cluster_loss_check r c"
  "distribution_check (r\<lparr>rq_hardware := h\<rparr>) c = distribution_check r c"
  "density_check (r\<lparr>rq_hardware := h\<rparr>) c = density_check r c"
  "aggregate_check (r\<lparr>rq_hardware := h\<rparr>) c = aggregate_check r c"
  "cluster_check s (r\<lparr>rq_hardware := h\<rparr>) c = cluster_check s r c"
  "graph_check s (r\<lparr>rq_hardware := h\<rparr>) c = graph_check s r c"
  by (cases r; simp only: frustum_check_def critical_loss_check_def identity_loss_check_def metric_loss_check_def
      cluster_loss_check_def has_critical_goal_def requires_structure_def distribution_check_def density_check_def
      aggregate_check_def cluster_check_def cluster_authority_valid_def cluster_coordinates_valid_def
      declared_dimensions_def graph_check_def graph_authority_valid_def requirements.simps)+

lemma ignores_frustum:
  "hardware_check s (r\<lparr>rq_frustum := t\<rparr>) = hardware_check s r"
  "critical_loss_check (r\<lparr>rq_frustum := t\<rparr>) c = critical_loss_check r c"
  "identity_loss_check (r\<lparr>rq_frustum := t\<rparr>) c = identity_loss_check r c"
  "metric_loss_check (r\<lparr>rq_frustum := t\<rparr>) c = metric_loss_check r c"
  "cluster_loss_check (r\<lparr>rq_frustum := t\<rparr>) c = cluster_loss_check r c"
  "distribution_check (r\<lparr>rq_frustum := t\<rparr>) c = distribution_check r c"
  "density_check (r\<lparr>rq_frustum := t\<rparr>) c = density_check r c"
  "aggregate_check (r\<lparr>rq_frustum := t\<rparr>) c = aggregate_check r c"
  "cluster_check s (r\<lparr>rq_frustum := t\<rparr>) c = cluster_check s r c"
  "graph_check s (r\<lparr>rq_frustum := t\<rparr>) c = graph_check s r c"
  by (cases r; simp only: hardware_check_def critical_loss_check_def identity_loss_check_def metric_loss_check_def
      cluster_loss_check_def has_critical_goal_def requires_structure_def distribution_check_def density_check_def
      aggregate_check_def cluster_check_def cluster_authority_valid_def cluster_coordinates_valid_def
      declared_dimensions_def graph_check_def graph_authority_valid_def requirements.simps)+

lemma check_hardware_mono:
  assumes "check_hard_constraints s r c l e = None"
    and "\<And>m. hw_max_elements h = Some m \<Longrightarrow> of_int (sg_rows s) \<le> m"
  shows "check_hard_constraints s (r\<lparr>rq_hardware := h\<rparr>) c l e = None"
proof -
  have "hardware_check s (r\<lparr>rq_hardware := h\<rparr>) = None"
    using assms(2) by (cases "hw_max_elements h") (auto simp: hardware_check_def)
  then show ?thesis
    using assms(1) unfolding check_hard_constraints_def first_failure_None by (simp add: ignores_hardware)
qed

lemma check_frustum_mono:
  assumes "check_hard_constraints s r c l e = None" and "rq_frustum r \<le> t"
  shows "check_hard_constraints s (r\<lparr>rq_frustum := t\<rparr>) c l e = None"
proof -
  have "frustum_check r e = None" using passed_all [OF assms(1), of "frustum_check r e"] by simp
  then have "frustum_check (r\<lparr>rq_frustum := t\<rparr>) e = None"
    using assms(2) by (auto simp: frustum_check_def split: option.splits)
  then show ?thesis
    using assms(1) unfolding check_hard_constraints_def first_failure_None by (simp add: ignores_frustum)
qed

section \<open>The store of infeasible outcomes\<close>

record nil_provenance =
  np_fingerprint :: string
  np_kernel :: string
  np_evidence :: "string list"

record nil_record =
  nr_id :: string
  nr_time :: js_number
  nr_traces :: "hard_trace list"
  nr_misses :: "candidate_score list"
  nr_provenance :: "nil_provenance option"

type_synonym nil_store = "(string, nil_record) js_map"

record nil_snapshot =
  nn_schema :: string
  nn_outcomes :: "nil_record list"

definition nil_schema_version :: string where "nil_schema_version = ''1.0.0''"

definition nil_non_empty :: "string \<Rightarrow> bool" where
  "nil_non_empty s \<longleftrightarrow> js_trim s \<noteq> []"

definition assert_nil_record :: "nil_record \<Rightarrow> string + unit" where
  "assert_nil_record r =
     bindE (guardE (nil_non_empty (nr_id r)) ''NIL outcome id must be non-empty'') (\<lambda>_.
     bindE (guardE (is_finite_num (nr_time r) \<and> num_le (Fin 0) (nr_time r))
       ''NIL outcome recordedAt must be a non-negative finite number'') (\<lambda>_.
     bindE (guardE (case nr_provenance r of None \<Rightarrow> False | Some p \<Rightarrow> nil_non_empty (np_fingerprint p))
       ''NIL outcome provenance requires datasetFingerprint'') (\<lambda>_.
     bindE (guardE (case nr_provenance r of None \<Rightarrow> False | Some p \<Rightarrow> nil_non_empty (np_kernel p))
       ''NIL outcome provenance requires kernelVersion'') (\<lambda>_.
     guardE (case nr_provenance r of None \<Rightarrow> False | Some p \<Rightarrow> list_all nil_non_empty (np_evidence p))
       ''NIL outcome evidenceIds must contain only non-empty ids''))))"

definition nil_valid :: "nil_record \<Rightarrow> bool" where
  "nil_valid r \<longleftrightarrow> assert_nil_record r = Inr ()"

definition insert_nil :: "(string \<Rightarrow> string) \<Rightarrow> nil_store \<Rightarrow> nil_record \<Rightarrow> string + nil_store" where
  "insert_nil duplicate m r =
     bindE (assert_nil_record r) (\<lambda>_.
     if js_has m (nr_id r) then Inl (duplicate (nr_id r)) else Inr (js_put (nr_id r) r m))"

definition record_nil :: "nil_record \<Rightarrow> nil_store \<Rightarrow> string + nil_store" where
  "record_nil r m = insert_nil (\<lambda>i. ''NIL outcome already exists: '' @ i) m r"

definition restore_nil_outcomes :: "nil_record list \<Rightarrow> string + nil_store" where
  "restore_nil_outcomes rs = foldE (insert_nil (\<lambda>i. ''Duplicate NIL outcome in snapshot: '' @ i)) [] rs"

definition restore_nil :: "nil_snapshot \<Rightarrow> nil_store \<Rightarrow> (string + unit) \<times> nil_store" where
  "restore_nil n m =
     (if nn_schema n \<noteq> nil_schema_version
      then (Inl (''Unsupported NoFeasibleRepresentationStore schema version: '' @ nn_schema n), m)
      else case restore_nil_outcomes (nn_outcomes n) of Inl e \<Rightarrow> (Inl e, m) | Inr m' \<Rightarrow> (Inr (), m'))"

definition nil_all :: "nil_store \<Rightarrow> nil_record list" where
  "nil_all m = js_values m"

definition nil_reset :: "nil_store \<Rightarrow> nil_store" where
  "nil_reset m = []"

definition nil_to_json :: "nil_store \<Rightarrow> nil_snapshot" where
  "nil_to_json m = \<lparr>nn_schema = nil_schema_version, nn_outcomes = nil_all m\<rparr>"

lemma insert_nil_Inr:
  "insert_nil f m r = Inr m' \<longleftrightarrow> nil_valid r \<and> \<not> js_has m (nr_id r) \<and> m' = js_put (nr_id r) r m"
  by (cases "assert_nil_record r") (auto simp: insert_nil_def nil_valid_def)

interpretation nils: keyed_store nr_id nil_valid record_nil restore_nil_outcomes
proof
  show "record_nil r m = Inr m' \<longleftrightarrow> nil_valid r \<and> \<not> js_has m (nr_id r) \<and> m' = js_put (nr_id r) r m" for r m m'
    by (simp add: record_nil_def insert_nil_Inr)
  show "restore_nil_outcomes rs = Inr m \<longleftrightarrow> (\<forall>r\<in>set rs. nil_valid r) \<and> distinct (map nr_id rs) \<and> m = keyed nr_id rs" for rs m
    unfolding restore_nil_outcomes_def
    by (subst foldE_collect [where valid = nil_valid and key = nr_id]) (simp_all add: insert_nil_Inr)
qed

section \<open>Properties\<close>

text \<open>The patch of an element budget that was exceeded doubles it; a frustum patch raises the tolerance.\<close>

lemma patch_only_relaxes:
  assumes "requirements_schema r" and "rnd64 (rq_frustum r) = rq_frustum r"
    and "pred_option (\<lambda>k. rnd64 k = k) (hw_max_elements (rq_hardware r))"
    and "hw_max_elements (rq_hardware r) \<noteq> None \<and>
        r' = r\<lparr>rq_hardware := (rq_hardware r)\<lparr>hw_max_elements := Some (fmul (element_budget r) 2)\<rparr>\<rparr> \<or>
      r' = r\<lparr>rq_frustum := min 1 (fadd (rq_frustum r) (lit (2 / 10)))\<rparr>"
    and "check_hard_constraints s r c l e = None"
  shows "check_hard_constraints s r' c l e = None"
  using assms(4)
proof (elim disjE conjE)
  assume "hw_max_elements (rq_hardware r) \<noteq> None"
    and r': "r' = r\<lparr>rq_hardware := (rq_hardware r)\<lparr>hw_max_elements := Some (fmul (element_budget r) 2)\<rparr>\<rparr>"
  then obtain k where k: "hw_max_elements (rq_hardware r) = Some k" "rnd64 k = k" using assms(3) by auto
  have "1 \<le> k" using assms(1) k(1) by (simp add: requirements_schema_def hardware_schema_def integer_between_def)
  then have "k \<le> fmul k 2" using rnd64_mono [of k "k * 2"] k(2) by (simp add: fmul_def)
  then have "of_int (sg_rows s) \<le> fmul (element_budget r) 2"
    using passed_hardware [OF assms(5) k(1)] by (simp add: element_budget_def k(1))
  then show ?thesis unfolding r' by (intro check_hardware_mono [OF assms(5)]) auto
next
  assume r': "r' = r\<lparr>rq_frustum := min 1 (fadd (rq_frustum r) (lit (2 / 10)))\<rparr>"
  have "rq_frustum r \<le> 1" using assms(1) by (simp add: requirements_schema_def unit_interval_def)
  moreover have "rq_frustum r \<le> fadd (rq_frustum r) (lit (2 / 10))"
    by (rule fadd_ge [OF assms(2)]) (simp add: f64.rnd_nonneg)
  ultimately show ?thesis unfolding r' by (intro check_frustum_mono [OF assms(5)]) simp
qed

text \<open>What a diagnosis can answer: the report on a decision, or on near misses none of which is over a budget that was never declared.\<close>

lemma diagnosis_cases:
  assumes "validate_weights raw = Inr (en_weights en)" and "pred_option requirements_schema given"
    and "diagnose D en s given intent input = Inr out"
  obtains (decided) d where "out = diagnose_decision d"
  | (infeasible) misses where "out = diagnose_error (resolve_requirements s given intent) misses"
      "\<forall>c\<in>set misses. cs_code c = Some HardwareElementBudget \<longrightarrow>
        hw_max_elements (rq_hardware (resolve_requirements s given intent)) \<noteq> None"
proof -
  define r where "r = resolve_requirements s given intent"
  have schema: "pred_option requirements_schema (Some r)" using resolved_schema [OF assms(2)] by (simp add: r_def)
  obtain ev stale where ev: "normalize_evidence input (sg_fingerprint s) = (ev, stale)"
    by (cases "normalize_evidence input (sg_fingerprint s)")
  have again: "resolve_requirements s (Some r) intent = r" by (simp add: resolve_requirements_def)
  show ?thesis
    by (cases rule: arbitration_outcome [OF assms(1) schema ev, of D intent None])
      (use assms(3) decided infeasible in \<open>auto simp: diagnose_def Let_def again simp flip: r_def\<close>)
qed

text \<open>
  C13: remediation never trades scientific content for feasibility. Take any diagnosis the engine makes,
  with validated weights and requirements of the declared schema (given or the engine's defaults, with
  or without an element budget), and any remediation it offers that can be applied. It is marked safe,
  leaves task, required structures, goals and loss budget as they were, and only relaxes: every
  candidate that passed the hard constraints before still passes them. An element budget is raised only
  when one was declared, so a request without a budget never gets one. The tolerance and the budget are
  binary64 values, as every number of the program is.
\<close>

theorem remediation_only_relaxes:
  assumes "validate_weights raw = Inr (en_weights en)" and "pred_option requirements_schema given"
    and "r = resolve_requirements s given intent"
    and "rnd64 (rq_frustum r) = rq_frustum r" and "pred_option (\<lambda>k. rnd64 k = k) (hw_max_elements (rq_hardware r))"
    and "diagnose D en s given intent input = Inr out" and "m \<in> set (oc_remediations out)"
    and "apply_remediation r m = Inr r'"
  shows "rm_safe m \<and> rq_task r' = rq_task r \<and> rq_structures r' = rq_structures r \<and> rq_goals r' = rq_goals r \<and>
    rq_loss r' = rq_loss r \<and>
    (hw_max_elements (rq_hardware r) = None \<longrightarrow> hw_max_elements (rq_hardware r') = None) \<and>
    (check_hard_constraints s' r c l e = None \<longrightarrow> check_hard_constraints s' r' c l e = None)"
proof (cases rule: diagnosis_cases [OF assms(1,2,6), case_names decided infeasible])
  case (decided d)
  then obtain c where "m = switch_remediation d c"
    using assms(7) by (auto simp: diagnose_decision_def Let_def split: option.splits if_splits)
  then show ?thesis using assms(8) by (simp add: apply_remediation_def switch_remediation_def)
next
  case (infeasible misses)
  then have "derived (set misses) r m" using diagnosed_derived assms(3,7) by simp
  note patch = apply_derived [OF this assms(8)]
  have schema: "requirements_schema r" using resolved_schema [OF assms(2)] by (simp add: assms(3))
  have budget: "\<forall>c\<in>set misses. cs_code c = Some HardwareElementBudget \<longrightarrow> hw_max_elements (rq_hardware r) \<noteq> None"
    using infeasible(2) by (simp add: assms(3))
  have "check_hard_constraints s' r' c l e = None" if "check_hard_constraints s' r c l e = None"
    using patch(2) budget by (intro patch_only_relaxes [OF schema assms(4,5) _ that]) blast
  moreover have "rq_task r' = rq_task r" "rq_structures r' = rq_structures r" "rq_goals r' = rq_goals r" "rq_loss r' = rq_loss r"
    "hw_max_elements (rq_hardware r) = None \<Longrightarrow> hw_max_elements (rq_hardware r') = None"
    using patch(2) budget by auto
  ultimately show ?thesis using patch(1) by simp
qed

text \<open>
  The remediation for frustum exclusion produces requirements that the program's own validator
  rejects: it raises the tolerance but not its copy in the loss budget, and the two must be equal.
\<close>

theorem frustum_remediation_invalidates:
  assumes "requirements_error r = None" and "0 \<le> rq_frustum r" and "rq_frustum r < 1"
  shows "\<exists>r'. apply_remediation r (frustum_remediation r c) = Inr r' \<and> requirements_error r' \<noteq> None"
proof -
  let ?t = "rq_frustum r" and ?d = "lit (2 / 10)"
  have d: "1 / 10 \<le> ?d" "?d \<le> 1" by code_simp+
  have "\<bar>fadd ?t ?d - (?t + ?d)\<bar> \<le> round_error"
    unfolding fadd_def using assms(2,3) d by (intro rnd64_error) simp
  then have "?t < fadd ?t ?d" using d unfolding round_error_def by linarith
  then have "?t \<noteq> min 1 (fadd ?t ?d)" using assms(3) by linarith
  moreover have "lb_frustum (rq_loss r) = ?t" using assms(1) by (auto simp: requirements_error_def split: if_splits)
  ultimately show ?thesis
    using apply_patches(2) [where r = r and c = c and cs = "[cs_id c]"]
    by (simp add: apply_remediation_def frustum_remediation_def Let_def requirements_error_def)
qed

text \<open>
  C34: the engine's diagnosis always answers. With validated weights and requirements of the declared
  schema it never throws, and it reports infeasibility exactly when no generated candidate passes the
  hard constraints; every reference of a blocking constraint then points at a recorded remediation.
\<close>

theorem diagnosis_always_answers:
  assumes "validate_weights raw = Inr (en_weights en)" and "pred_option requirements_schema given"
    and "normalize_evidence input (sg_fingerprint s) = (ev, stale)"
  shows "\<exists>o'. diagnose D en s given intent input = Inr o' \<and>
    (oc_decision o' = None \<longleftrightarrow> \<not> any_passes s (resolve_requirements s given intent) ev) \<and>
    (oc_decision o' = None \<longrightarrow> oc_state o' = Infeasible) \<and>
    list_all (\<lambda>b. pred_option (\<lambda>i. i < length (oc_store o')) (bl_remediation b)) (oc_blocking o')"
proof -
  define r where "r = resolve_requirements s given intent"
  have schema: "pred_option requirements_schema (Some r)" using resolved_schema [OF assms(2)] by (simp add: r_def)
  have again: "resolve_requirements s (Some r) intent = r" by (simp add: resolve_requirements_def)
  have decided: "diagnose D en s given intent input = Inr (diagnose_decision d)"
    if "arbitrate D en s (Some r) intent input None = Inr d" for d
    using that by (simp add: diagnose_def Let_def flip: r_def)
  have passes: "any_passes s r ev" if "scored_ok s r ev w" "\<not> cs_disqualified w" for w
    using that by (auto simp: any_passes_def list_ex_iff scored_ok_def generated_iff
        intro!: bexI [of _ "(cs_family w, cs_id w, cs_layout w)"])
  show ?thesis
  proof (cases rule: arbitration_outcome [OF assms(1) schema assms(3), of D intent None, case_names infeasible abstained decided])
    case (infeasible traces scored)
    have "diagnose D en s given intent input = Inr (diagnose_error r scored)"
      using infeasible(1) by (simp add: diagnose_def Let_def flip: r_def)
    moreover have "walk_ok (set scored) r (walk_near_misses r scored)" by (rule walk_near_misses_ok)
    ultimately show ?thesis
      using infeasible(2) by (simp add: again diagnose_error_def Let_def walk_ok_def flip: r_def)
  next
    case (abstained d)
    then show ?thesis using decided [OF abstained(1)] by (simp add: again diagnose_decision_def Let_def flip: r_def)
  next
    case (decided d w)
    then show ?thesis using \<open>\<And>d. arbitrate D en s (Some r) intent input None = Inr d \<Longrightarrow> _ d\<close> [OF decided(1)] passes [of w]
      by (simp add: again diagnose_decision_def Let_def flip: r_def)
  qed
qed

text \<open>
  The store of infeasible outcomes round-trips. A store filled only by its own operations is
  restored from its snapshot exactly, whatever it held before, and a snapshot that is refused leaves
  the store unchanged.
\<close>

theorem nil_store_roundtrip:
  assumes "store_ok nr_id nil_valid m"
  shows "restore_nil (nil_to_json m) m' = (Inr (), m) \<and>
    (\<forall>n e m''. restore_nil n m' = (Inl e, m'') \<longrightarrow> m'' = m') \<and>
    (\<forall>r m1. record_nil r m = Inr m1 \<longrightarrow> store_ok nr_id nil_valid m1 \<and> m1 = m @ [(nr_id r, r)])"
  using nils.restore_snapshot [OF assms] nils.record_keeps_ok [OF assms] nils.record_appends
  by (auto simp: restore_nil_def nil_to_json_def nil_all_def split: sum.splits if_splits)

section \<open>Witnesses\<close>

definition over_budget :: candidate_score where
  "over_budget = (sample_score PointSet Grid3d 0 True)\<lparr>cs_code := Some HardwareElementBudget\<rparr>"

definition sample_nil :: nil_record where
  "sample_nil = \<lparr>nr_id = ''nil-1'', nr_time = Fin 5, nr_traces = [], nr_misses = [],
     nr_provenance = Some \<lparr>np_fingerprint = ''fp'', np_kernel = ''k1'', np_evidence = []\<rparr>\<rparr>"

theorem nil_store_roundtrip_witness:
  "\<exists>m1. record_nil sample_nil [] = Inr m1 \<and> restore_nil (nil_to_json []) m1 = (Inr (), []) \<and> m1 = [(''nil-1'', sample_nil)]"
proof -
  have "record_nil sample_nil [] = Inr [(''nil-1'', sample_nil)]" by code_simp
  then show ?thesis using nil_store_roundtrip [OF store_ok_Nil, of "[(''nil-1'', sample_nil)]"] by blast
qed

theorem diagnosis_always_answers_witness:
  "\<exists>o'. diagnose sample_digests sample_engine sample_signature (Some sample_requirements) None NoEvidence = Inr o' \<and>
     oc_decision o' \<noteq> None"
  using diagnosis_always_answers [OF sample_engine_valid sample_schema no_evidence,
      of sample_digests sample_signature None] sample_any
  by (auto simp: sample_resolved)

lemma sample_budget: "hw_max_elements (rq_hardware sample_requirements) = Some 100000" "rnd64 100000 = 100000"
  "rnd64 (rq_frustum sample_requirements) = rq_frustum sample_requirements"
  "0 \<le> rq_frustum sample_requirements" "rq_frustum sample_requirements < 1"
  by code_simp+

definition large_signature :: signature where
  "large_signature = sample_signature\<lparr>sg_rows := 200000\<rparr>"

text \<open>A dataset with more rows than the element budget: every candidate fails the first constraint.\<close>

lemma over_budget_diagnosis:
  assumes "hw_max_elements (rq_hardware r) = Some k" and "k < of_int (sg_rows s)" and "\<not> underdetermined_dataset s"
  shows "\<exists>misses. misses \<noteq> [] \<and> (\<forall>c\<in>set misses. cs_disqualified c \<and> cs_code c = Some HardwareElementBudget) \<and>
    diagnose D en s (Some r) intent input = Inr (diagnose_error r misses)"
proof -
  obtain ev stale where ev: "normalize_evidence input (sg_fingerprint s) = (ev, stale)"
    by (cases "normalize_evidence input (sg_fingerprint s)")
  obtain reason where fail: "check_hard_constraints s r c l e = Some (reason, HardwareElementBudget)" for c l e
    using assms(1,2) by (simp add: check_hard_constraints_def hardware_check_def fail_if_def)
  define item where "item = (\<lambda>(f, i, l). (\<lparr>ht_rule = rule_name i l, ht_passed = False, ht_reason = reason,
      ht_code = Some HardwareElementBudget\<rparr>, disqualified_score f (candidate_of i) l (reason, HardwareElementBudget)))"
  have "score_item (en_weights en) s r ev = (\<lambda>g. Inr (item g))"
    by (rule ext) (simp add: score_item_def item_def Let_def fail split: prod.split)
  then obtain traces where run: "score_all (en_weights en) s r ev =
      Inr (traces, sort_candidates (map snd (map item generate_candidates)))"
    by (simp add: score_all_def mapE_total)
  define misses where "misses = sort_candidates (map snd (map item generate_candidates))"
  have all: "score_all (en_weights en) s r ev = Inr (traces, misses)" using run by (simp only: misses_def)
  have every: "\<forall>c\<in>set misses. cs_disqualified c \<and> cs_code c = Some HardwareElementBudget"
    by (auto simp: misses_def item_def disqualified_score_def)
  have "generate_candidates \<noteq> []" using density_generated by auto
  then have "set misses \<noteq> {}" by (simp add: misses_def)
  then have some: "misses \<noteq> []" by auto
  have none: "feasible misses = []" "filter (\<lambda>c. cs_code c = Some StabilityEvidenceRequired) misses = []"
    using every by (auto simp: feasible_def filter_empty_conv)
  obtain a where a: "assess misses default_policy = Inr a" "as_winner a = None"
    using none(1) by (cases rule: assess_cases [OF default_policy_valid, of misses]) (auto simp: sort_candidates_def)
  then have "\<exists>traces. arbitrate D en s (Some r) intent input None = Inl (NoFeasible traces misses)"
    using assms(3) none(2) by (simp add: arbitrate_def ev all resolve_requirements_def stability_admission_def abstention_def a)
  then have "diagnose D en s (Some r) intent input = Inr (diagnose_error r misses)"
    by (auto simp: diagnose_def resolve_requirements_def Let_def)
  with some every show ?thesis by blast
qed

lemma hardware_walk:
  assumes "\<forall>c\<in>set cs. cs_disqualified c \<and> cs_code c = Some HardwareElementBudget"
    and "wk_store w = [(hardware_remediation r c0)\<lparr>rm_unblocks := us\<rparr>]" and "wk_map w = [(hardware_id, 0)]"
  shows "\<exists>us'. filed_remediations (foldl (walk_near_miss r) w cs) = [(hardware_remediation r c0)\<lparr>rm_unblocks := us'\<rparr>]"
  using assms
proof (induction cs arbitrary: w us)
  case (Cons c cs)
  have id: "rm_id (hardware_remediation r c) = hardware_id" by (simp add: hardware_remediation_def Let_def)
  show ?case
    by (simp, rule Cons.IH [where us = "if cs_id c \<in> set us then us else us @ [cs_id c]"])
      (use Cons.prems in \<open>auto simp: walk_near_miss_def share_remediation_def id Let_def\<close>)
qed (auto simp: filed_remediations_def)

lemma hardware_diagnosis:
  assumes "misses \<noteq> []" and "\<forall>c\<in>set misses. cs_disqualified c \<and> cs_code c = Some HardwareElementBudget"
  shows "\<exists>m. m \<in> set (oc_remediations (diagnose_error r misses)) \<and>
    apply_remediation r m = Inr (r\<lparr>rq_hardware := (rq_hardware r)\<lparr>hw_max_elements := Some (fmul (element_budget r) 2)\<rparr>\<rparr>)"
proof -
  obtain c cs where cs: "misses = c # cs" using assms(1) by (cases misses) auto
  let ?w = "walk_near_miss r \<lparr>wk_store = [], wk_map = [], wk_blocking = []\<rparr> c"
  have id: "rm_id (hardware_remediation r c) = hardware_id" by (simp add: hardware_remediation_def Let_def)
  have w: "wk_store ?w = [(hardware_remediation r c)\<lparr>rm_unblocks := [cs_id c]\<rparr>]" "wk_map ?w = [(hardware_id, 0)]"
    using assms(2) by (simp_all add: cs walk_near_miss_def share_remediation_def file_remediation_def id Let_def)
      (simp add: hardware_remediation_def Let_def)
  obtain us where "filed_remediations (foldl (walk_near_miss r) ?w cs) = [(hardware_remediation r c)\<lparr>rm_unblocks := us\<rparr>]"
    using hardware_walk [OF _ w, of cs] assms(2) by (auto simp: cs)
  then have "oc_remediations (diagnose_error r misses) = [(hardware_remediation r c)\<lparr>rm_unblocks := us\<rparr>]"
    by (simp add: diagnose_error_def walk_near_misses_def cs Let_def)
  then show ?thesis using apply_patches(1) by (intro exI [of _ "(hardware_remediation r c)\<lparr>rm_unblocks := us\<rparr>"]) simp
qed

theorem remediation_only_relaxes_witness:
  "\<exists>out m r'. diagnose sample_digests sample_engine large_signature (Some sample_requirements) None NoEvidence = Inr out \<and>
     m \<in> set (oc_remediations out) \<and> apply_remediation sample_requirements m = Inr r' \<and> rm_safe m \<and>
     check_hard_constraints sample_signature r' (candidate_of DensityField) Grid3d None = None"
proof -
  let ?r = sample_requirements
  have r: "?r = resolve_requirements large_signature (Some ?r) None" by (simp add: sample_resolved)
  have large: "100000 < (of_int (sg_rows large_signature) :: rat)" "\<not> underdetermined_dataset large_signature"
    by (simp_all add: large_signature_def sample_signature_def underdetermined_dataset_def)
  obtain misses where misses: "misses \<noteq> []" "\<forall>c\<in>set misses. cs_disqualified c \<and> cs_code c = Some HardwareElementBudget"
    and out: "diagnose sample_digests sample_engine large_signature (Some ?r) None NoEvidence = Inr (diagnose_error ?r misses)"
    using over_budget_diagnosis [OF sample_budget(1) large, of sample_digests sample_engine None NoEvidence] by blast
  from hardware_diagnosis [OF misses, of ?r] obtain m r' where m: "m \<in> set (oc_remediations (diagnose_error ?r misses))"
    "apply_remediation ?r m = Inr r'" by blast
  have k: "pred_option (\<lambda>k. rnd64 k = k) (hw_max_elements (rq_hardware ?r))" using sample_budget(1,2) by simp
  from remediation_only_relaxes [OF sample_engine_valid sample_schema r sample_budget(3) k out m] m out sample_density_passes
  show ?thesis by blast
qed

theorem frustum_remediation_invalidates_witness:
  "\<exists>r'. apply_remediation sample_requirements (frustum_remediation sample_requirements over_budget) = Inr r' \<and>
     requirements_error r' \<noteq> None"
proof (rule frustum_remediation_invalidates [OF _ sample_budget(4,5)])
  show "requirements_error sample_requirements = None" by code_simp
qed

end
