(* ===== verification/Evidence_Ledger.thy ===== *)
theory Evidence_Ledger
  imports Dataset_Versions Moneta_Nil
begin

text \<open>
  The provenance ledger of an investigation (\<open>src/atlas/domain/EvidenceLedger.ts\<close>): the append-only
  stream of events, the durable results whose datasets live in the version store, and the analysis
  history that is derived from the stream by replay and cached until the next event; with the
  navigation and the commit of \<open>src/atlas/AtlasCore.ts\<close> that use them. Parts of an event or a result
  that no operation reads are untyped values. A result object is added to the ledger once; its
  \<open>dataset\<close> is \<open>None\<close> when it is the getter the ledger attaches, which reads the version store. The
  clock that stamps replayed frames is an argument.
\<close>

section \<open>Data\<close>

datatype event_kind = LoadEvent | AnalysisEvent | StructureEvent | RecommendationEvent | EmbodimentEvent | PreviewEvent
  | UndoEvent | RedoEvent | SeekEvent | ResetEvent | ObservationEvent | FindingEvent | AnnotationEvent
  | RemediationEvent | RefusalEvent

record analysis_spec =
  sp_fingerprint :: string
  sp_version :: int
  sp_op :: string
  sp_operation :: js_value
  sp_label :: "string option"

record ledger_result =
  ar_id :: string
  ar_fingerprint :: string
  ar_version :: int
  ar_spec :: analysis_spec
  ar_dataset :: "dataset_json option"
  ar_rest :: js_value

record ledger_observation =
  ob_id :: string
  ob_time :: js_number
  ob_notes :: string
  ob_fingerprint :: string
  ob_version :: int
  ob_rest :: js_value

record ledger_finding =
  fi_id :: string
  fi_time :: js_number
  fi_title :: string
  fi_observations :: "string list"
  fi_fingerprint :: string
  fi_version :: int
  fi_rest :: js_value

record ledger_annotation =
  an_id :: string
  an_time :: js_number
  an_text :: string
  an_rest :: js_value

record structure_set =
  st_fingerprint :: string
  st_version :: int
  st_body :: js_value

record ledger_refusal =
  rf_time :: js_number
  rf_fingerprint :: string
  rf_body :: js_value

datatype event_command = SpecCommand analysis_spec | OpCommand event_kind "int option"

record research_event =
  ev_id :: string
  ev_session :: "string option"
  ev_time :: js_number
  ev_kind :: event_kind
  ev_command :: event_command
  ev_result :: "ledger_result option"
  ev_structure :: "structure_set option"
  ev_embodiment :: "js_value option"
  ev_observation :: "ledger_observation option"
  ev_finding :: "ledger_finding option"
  ev_annotation :: "ledger_annotation option"
  ev_version :: int
  ev_fingerprint :: string
  ev_remediation :: "remediation_provenance option"
  ev_refusal :: "ledger_refusal option"
  ev_note :: "string option"
  ev_intervention :: "string option"
  ev_hash :: string

record evidence_ledger =
  el_events :: "research_event list"
  el_results :: "ledger_result list"
  el_by_id :: "(string, ledger_result) js_map"
  el_structures :: "structure_set list"
  el_observations :: "ledger_observation list"
  el_findings :: "ledger_finding list"
  el_annotations :: "ledger_annotation list"
  el_versions :: versions
  el_view :: "history option"
  el_result_n :: nat
  el_event_n :: nat
  el_observation_n :: nat
  el_finding_n :: nat
  el_annotation_n :: nat

definition new_evidence :: evidence_ledger where
  "new_evidence = \<lparr>el_events = [], el_results = [], el_by_id = [], el_structures = [], el_observations = [],
     el_findings = [], el_annotations = [], el_versions = no_versions, el_view = None,
     el_result_n = 0, el_event_n = 0, el_observation_n = 0, el_finding_n = 0, el_annotation_n = 0\<rparr>"

section \<open>Events\<close>

definition invalidate_view :: "evidence_ledger \<Rightarrow> evidence_ledger" where
  "invalidate_view l = l\<lparr>el_view := None\<rparr>"

definition append_event :: "research_event \<Rightarrow> string \<Rightarrow> evidence_ledger \<Rightarrow> research_event \<times> evidence_ledger" where
  "append_event e session l =
     (let n = Suc (el_event_n l);
          canonical = (case ev_result e of None \<Rightarrow> None
            | Some r \<Rightarrow> (case js_get (el_by_id l) (ar_id r) of Some c \<Rightarrow> Some c | None \<Rightarrow> Some r));
          full = e\<lparr>ev_result := canonical, ev_id := session @ '':'' @ show_nat n, ev_session := Some session\<rparr>
      in (full, invalidate_view (l\<lparr>el_event_n := n, el_events := el_events l @ [full]\<rparr>)))"

definition plain_event :: "js_number \<Rightarrow> event_kind \<Rightarrow> int \<Rightarrow> string \<Rightarrow> string \<Rightarrow> research_event" where
  "plain_event now k version fp hash =
     \<lparr>ev_id = [], ev_session = None, ev_time = now, ev_kind = k, ev_command = OpCommand k None, ev_result = None,
      ev_structure = None, ev_embodiment = None, ev_observation = None, ev_finding = None, ev_annotation = None,
      ev_version = version, ev_fingerprint = fp, ev_remediation = None, ev_refusal = None, ev_note = None,
      ev_intervention = None, ev_hash = hash\<rparr>"

text \<open>The id and the timestamp of the input are ignored: the source's type omits them.\<close>

definition record_observation :: "ledger_observation \<Rightarrow> string \<Rightarrow> string \<Rightarrow> js_number \<Rightarrow> evidence_ledger \<Rightarrow> ledger_observation \<times> evidence_ledger" where
  "record_observation input session hash now l =
     (let n = Suc (el_observation_n l);
          o' = input\<lparr>ob_id := ''obs:'' @ session @ '':'' @ show_nat n, ob_time := now\<rparr>;
          e = (plain_event now ObservationEvent (ob_version input) (ob_fingerprint input) hash)
                \<lparr>ev_observation := Some o', ev_note := Some (ob_notes input)\<rparr>
      in (o', snd (append_event e session (l\<lparr>el_observation_n := n, el_observations := el_observations l @ [o']\<rparr>))))"

definition record_finding :: "ledger_finding \<Rightarrow> string \<Rightarrow> string \<Rightarrow> js_number \<Rightarrow> evidence_ledger \<Rightarrow> ledger_finding \<times> evidence_ledger" where
  "record_finding input session hash now l =
     (let n = Suc (el_finding_n l);
          f = input\<lparr>fi_id := ''finding:'' @ session @ '':'' @ show_nat n, fi_time := now\<rparr>;
          e = (plain_event now FindingEvent (fi_version input) (fi_fingerprint input) hash)
                \<lparr>ev_finding := Some f, ev_note := Some (fi_title input)\<rparr>
      in (f, snd (append_event e session (l\<lparr>el_finding_n := n, el_findings := el_findings l @ [f]\<rparr>))))"

definition record_annotation ::
  "ledger_annotation \<Rightarrow> string \<Rightarrow> int \<Rightarrow> string \<Rightarrow> string \<Rightarrow> js_number \<Rightarrow> evidence_ledger \<Rightarrow> ledger_annotation \<times> evidence_ledger" where
  "record_annotation input session version fp hash now l =
     (let n = Suc (el_annotation_n l);
          a = input\<lparr>an_id := ''annot:'' @ session @ '':'' @ show_nat n, an_time := now\<rparr>;
          e = (plain_event now AnnotationEvent version fp hash)\<lparr>ev_annotation := Some a, ev_note := Some (an_text input)\<rparr>
      in (a, snd (append_event e session (l\<lparr>el_annotation_n := n, el_annotations := el_annotations l @ [a]\<rparr>))))"

definition record_remediation ::
  "remediation_provenance \<Rightarrow> string \<Rightarrow> int \<Rightarrow> string \<Rightarrow> evidence_ledger \<Rightarrow> research_event \<times> evidence_ledger" where
  "record_remediation p session version hash =
     append_event ((plain_event (Fin (of_int (rp_timestamp p))) RemediationEvent version (rp_fingerprint p) hash)
       \<lparr>ev_remediation := Some p\<rparr>) session"

definition remediation_events :: "evidence_ledger \<Rightarrow> remediation_provenance list" where
  "remediation_events l =
     List.map_filter ev_remediation (filter (\<lambda>e. ev_kind e = RemediationEvent) (el_events l))"

definition record_refusal :: "ledger_refusal \<Rightarrow> string \<Rightarrow> int \<Rightarrow> string \<Rightarrow> evidence_ledger \<Rightarrow> research_event \<times> evidence_ledger" where
  "record_refusal r session version hash =
     append_event ((plain_event (rf_time r) RefusalEvent version (rf_fingerprint r) hash)\<lparr>ev_refusal := Some r\<rparr>) session"

definition refusal_events :: "evidence_ledger \<Rightarrow> ledger_refusal list" where
  "refusal_events l = List.map_filter ev_refusal (filter (\<lambda>e. ev_kind e = RefusalEvent) (el_events l))"

definition observations_for_finding :: "string \<Rightarrow> evidence_ledger \<Rightarrow> ledger_observation list" where
  "observations_for_finding i l = (case find (\<lambda>f. fi_id f = i) (el_findings l) of None \<Rightarrow> []
     | Some f \<Rightarrow> filter (\<lambda>x. ob_id x \<in> set (fi_observations f)) (el_observations l))"

definition record_structure :: "structure_set \<Rightarrow> string \<Rightarrow> js_number \<Rightarrow> evidence_ledger \<Rightarrow> evidence_ledger" where
  "record_structure s session now l =
     snd (append_event ((plain_event now StructureEvent (st_version s) (st_fingerprint s) (st_fingerprint s))
       \<lparr>ev_structure := Some s\<rparr>) session (l\<lparr>el_structures := el_structures l @ [s]\<rparr>))"

definition record_embodiment :: "js_value \<Rightarrow> string \<Rightarrow> int \<Rightarrow> string \<Rightarrow> string \<Rightarrow> js_number \<Rightarrow> evidence_ledger \<Rightarrow> evidence_ledger" where
  "record_embodiment command session version fp hash now l =
     snd (append_event ((plain_event now EmbodimentEvent version fp hash)\<lparr>ev_embodiment := Some command\<rparr>) session l)"

definition record_intervention :: "string \<Rightarrow> string \<Rightarrow> int \<Rightarrow> string \<Rightarrow> string \<Rightarrow> js_number \<Rightarrow> evidence_ledger \<Rightarrow> evidence_ledger" where
  "record_intervention text session version fp hash now l =
     snd (append_event ((plain_event now AnalysisEvent version fp hash)\<lparr>ev_intervention := Some text\<rparr>) session l)"

section \<open>Results\<close>

definition next_result_id :: "string \<Rightarrow> int \<Rightarrow> string \<Rightarrow> evidence_ledger \<Rightarrow> string \<times> evidence_ledger" where
  "next_result_id fp version op l =
     (let n = Suc (length (el_results l)) in
      (fp @ '':'' @ show_int version @ '':'' @ op @ '':'' @ show_nat n, l\<lparr>el_result_n := n\<rparr>))"

definition register_dataset_version :: "version_ref \<Rightarrow> dataset \<Rightarrow> evidence_ledger \<Rightarrow> string + evidence_ledger" where
  "register_dataset_version r d l = bindE (register_borrowed r d (el_versions l)) (\<lambda>v. Inr (l\<lparr>el_versions := v\<rparr>))"

definition refresh_borrowed :: "version_ref \<Rightarrow> dataset \<Rightarrow> evidence_ledger \<Rightarrow> string + evidence_ledger" where
  "refresh_borrowed r d l =
     (if storage_kind_of (el_versions l) r = Some BorrowedKind then register_dataset_version r d l else Inr l)"

definition result_ref :: "ledger_result \<Rightarrow> version_ref" where
  "result_ref r = \<lparr>vr_version = ar_version r, vr_fingerprint = ar_fingerprint r\<rparr>"

definition result_dataset :: "versions \<Rightarrow> ledger_result \<Rightarrow> string + dataset_json" where
  "result_dataset v r = (case ar_dataset r of Some j \<Rightarrow> Inr j
     | None \<Rightarrow> bindE (materialize_json v (result_ref r)) (\<lambda>m. case m of Some j \<Rightarrow> Inr j
         | None \<Rightarrow> Inl (''[EvidenceLedger] dataset version '' @ show_int (ar_version r) @ '':'' @ ar_fingerprint r @ '' is unavailable'')))"

definition register_result :: "ledger_result \<Rightarrow> dataset_json \<Rightarrow> version_ref option \<Rightarrow> versions \<Rightarrow> string + versions" where
  "register_result r j hint v = (case hint of
     None \<Rightarrow> register_snapshot (result_ref r) j v
   | Some src \<Rightarrow>
       bindE (guardE (dj_edges j = None \<or> dj_edges j = Some []) ''[EvidenceLedger] verified row-view result cannot carry edges'') (\<lambda>_.
       bindE (guardE (dj_row_ids j \<noteq> None) ''[EvidenceLedger] verified row-view result requires aligned durable row IDs'') (\<lambda>_.
       bindE (guardE (dj_rows j \<noteq> None) ''TypeError'') (\<lambda>_.
       bindE (guardE (map_option length (dj_row_ids j) = map_option length (dj_rows j))
         ''[EvidenceLedger] verified row-view result requires aligned durable row IDs'') (\<lambda>_.
       register_row_view (result_ref r) src j v)))))"

definition add_result :: "ledger_result \<Rightarrow> version_ref option \<Rightarrow> evidence_ledger \<Rightarrow> string + evidence_ledger" where
  "add_result r hint l =
     bindE (result_dataset (el_versions l) r) (\<lambda>j.
     bindE (register_result r j hint (el_versions l)) (\<lambda>v.
     let stored = r\<lparr>ar_dataset := None\<rparr> in
     Inr (l\<lparr>el_versions := v, el_results := el_results l @ [stored], el_by_id := js_put (ar_id stored) stored (el_by_id l)\<rparr>)))"

text \<open>A copy of a result reads its dataset once.\<close>

definition materialized_result :: "versions \<Rightarrow> ledger_result \<Rightarrow> string + ledger_result" where
  "materialized_result v r = bindE (result_dataset v r) (\<lambda>j. Inr (r\<lparr>ar_dataset := Some j\<rparr>))"

definition materialized_results :: "evidence_ledger \<Rightarrow> string + ledger_result list" where
  "materialized_results l = mapE (materialized_result (el_versions l)) (el_results l)"

definition materialized_ledger :: "evidence_ledger \<Rightarrow> string + research_event list" where
  "materialized_ledger l = mapE (\<lambda>e. case ev_result e of None \<Rightarrow> Inr e
     | Some r \<Rightarrow> bindE (materialized_result (el_versions l) r) (\<lambda>r'. Inr (e\<lparr>ev_result := Some r'\<rparr>))) (el_events l)"

text \<open>\<open>AtlasCore\<close>'s commit of one operation: the next id, the result, the event.\<close>

definition commit_analysis ::
  "analysis_spec \<Rightarrow> string \<Rightarrow> int \<Rightarrow> dataset_json \<Rightarrow> js_value \<Rightarrow> version_ref option \<Rightarrow> js_number \<Rightarrow> string
    \<Rightarrow> evidence_ledger \<Rightarrow> string + ledger_result \<times> evidence_ledger" where
  "commit_analysis spec fp version j rest hint now session l =
     (let (i, l1) = next_result_id fp version (sp_op spec) l;
          r = \<lparr>ar_id = i, ar_fingerprint = fp, ar_version = version, ar_spec = spec, ar_dataset = Some j, ar_rest = rest\<rparr>
      in bindE (add_result r hint l1) (\<lambda>l2.
         let e = (plain_event now AnalysisEvent version fp fp)\<lparr>ev_command := SpecCommand spec, ev_result := Some r\<rparr> in
         Inr (r\<lparr>ar_dataset := None\<rparr>, snd (append_event e session l2))))"

section \<open>The derived history\<close>

record replay =
  ry_history :: history
  ry_current :: "version_ref option"
  ry_versions :: versions

definition event_ref :: "research_event \<Rightarrow> version_ref option" where
  "event_ref e = (if ev_fingerprint e = [] then None
     else Some \<lparr>vr_version = ev_version e, vr_fingerprint = ev_fingerprint e\<rparr>)"

definition original_ref :: "research_event list \<Rightarrow> version_ref option" where
  "original_ref es = (case find (\<lambda>e. ev_kind e = LoadEvent) es of None \<Rightarrow> None | Some e \<Rightarrow> event_ref e)"

definition is_original :: "dataset option \<Rightarrow> version_ref option \<Rightarrow> version_ref \<Rightarrow> bool" where
  "is_original original base r \<longleftrightarrow> original \<noteq> None \<and> base \<noteq> None \<and> vr_fingerprint r = vr_fingerprint (the base)"

definition ledger_resolver :: "dataset option \<Rightarrow> version_ref option \<Rightarrow> versions \<Rightarrow> resolver" where
  "ledger_resolver original base v r = bindE (materialize_version v r) (\<lambda>m. case m of Some d \<Rightarrow> Inr (Some d)
     | None \<Rightarrow> Inr (if is_original original base r then map_option clone_dataset original else None))"

definition row_count_for :: "dataset option \<Rightarrow> version_ref option \<Rightarrow> versions \<Rightarrow> version_ref \<Rightarrow> nat option" where
  "row_count_for original base v r = (case describe_version v r of Some d \<Rightarrow> Some (dr_rows d)
     | None \<Rightarrow> if is_original original base r then map_option row_count original else None)"

definition push_transition ::
  "string \<Rightarrow> version_ref \<Rightarrow> version_ref \<Rightarrow> js_value \<Rightarrow> dataset option \<Rightarrow> version_ref option \<Rightarrow> js_number \<Rightarrow> replay \<Rightarrow> replay" where
  "push_transition op before after params original base now s =
     s\<lparr>ry_history := snd (push_reference op (Some before) (Some after) params
         (row_count_for original base (ry_versions s) before) (row_count_for original base (ry_versions s) after) now (ry_history s)),
       ry_current := Some after\<rparr>"

definition moved :: "version_ref option \<times> history \<Rightarrow> replay \<Rightarrow> replay" where
  "moved m s = s\<lparr>ry_history := snd m, ry_current := (case fst m of None \<Rightarrow> ry_current s | Some r \<Rightarrow> Some r)\<rparr>"

definition replay_analysis :: "dataset option \<Rightarrow> version_ref option \<Rightarrow> js_number \<Rightarrow> ledger_result \<Rightarrow> replay \<Rightarrow> string + replay" where
  "replay_analysis original base now r s =
     (let spec = ar_spec r; before = \<lparr>vr_version = sp_version spec, vr_fingerprint = sp_fingerprint spec\<rparr>; after = result_ref r in
      bindE (if has_version (ry_versions s) after then Inr (ry_versions s)
             else bindE (result_dataset (ry_versions s) r) (\<lambda>j. register_snapshot after j (ry_versions s))) (\<lambda>v.
      Inr (push_transition (case sp_label spec of None \<Rightarrow> sp_op spec | Some x \<Rightarrow> x) before after (sp_operation spec)
        original base now (s\<lparr>ry_versions := v\<rparr>))))"

definition command_index :: "event_command \<Rightarrow> int option" where
  "command_index c = (case c of SpecCommand s \<Rightarrow> None | OpCommand k i \<Rightarrow> i)"

definition replay_event :: "dataset option \<Rightarrow> version_ref option \<Rightarrow> js_number \<Rightarrow> research_event \<Rightarrow> replay \<Rightarrow> string + replay" where
  "replay_event original base now e s = (case ev_kind e of
     LoadEvent \<Rightarrow> Inr (s\<lparr>ry_current := event_ref e\<rparr>)
   | AnalysisEvent \<Rightarrow> (case ev_result e of None \<Rightarrow> Inr s | Some r \<Rightarrow> replay_analysis original base now r s)
   | ResetEvent \<Rightarrow>
       let after = (case event_ref e of None \<Rightarrow> base | Some r \<Rightarrow> Some r) in
       (case (ry_current s, after) of
          (Some b, Some a) \<Rightarrow> Inr (push_transition ''reset'' b a (JObj []) original base now s)
        | _ \<Rightarrow> Inr (s\<lparr>ry_current := after\<rparr>))
   | UndoEvent \<Rightarrow> Inr (moved (move_undo (ry_history s)) s)
   | RedoEvent \<Rightarrow> Inr (moved (move_redo (ry_history s)) s)
   | SeekEvent \<Rightarrow> (case command_index (ev_command e) of None \<Rightarrow> Inr s | Some i \<Rightarrow> Inr (moved (move_seek i (ry_history s)) s))
   | _ \<Rightarrow> Inr s)"

text \<open>The loop stops at the first error and keeps what it registered before.\<close>

fun replay_all ::
  "dataset option \<Rightarrow> version_ref option \<Rightarrow> (nat \<Rightarrow> js_number) \<Rightarrow> research_event list \<Rightarrow> nat \<Rightarrow> replay \<Rightarrow> (string + unit) \<times> replay" where
  "replay_all original base clock [] n s = (Inr (), s)"
| "replay_all original base clock (e # es) n s = (case replay_event original base (clock n) e s of
     Inl err \<Rightarrow> (Inl err, s)
   | Inr s' \<Rightarrow> replay_all original base clock es (Suc n) s')"

definition build_history :: "dataset option \<Rightarrow> (nat \<Rightarrow> js_number) \<Rightarrow> evidence_ledger \<Rightarrow> (string + unit) \<times> replay" where
  "build_history original clock l =
     (let base = original_ref (el_events l) in
      replay_all original base clock (el_events l) 0
        \<lparr>ry_history = new_history 50, ry_current = base, ry_versions = el_versions l\<rparr>)"

definition get_history :: "dataset option \<Rightarrow> (nat \<Rightarrow> js_number) \<Rightarrow> (evidence_ledger, string, history) effect" where
  "get_history original clock l = (case el_view l of Some h \<Rightarrow> (Inr h, l)
     | None \<Rightarrow> (case build_history original clock l of
         (Inl e, s) \<Rightarrow> (Inl e, l\<lparr>el_versions := ry_versions s\<rparr>)
       | (Inr _, s) \<Rightarrow> (Inr (ry_history s), l\<lparr>el_versions := ry_versions s, el_view := Some (ry_history s)\<rparr>)))"

section \<open>Navigation\<close>

datatype navigation = NavUndo | NavRedo | NavSeek int

fun navigate_history :: "navigation \<Rightarrow> resolver \<Rightarrow> (history, string, history_entry option) effect" where
  "navigate_history NavUndo res = undo res"
| "navigate_history NavRedo res = redo res"
| "navigate_history (NavSeek i) res = seek res i"

fun navigation_event :: "navigation \<Rightarrow> js_number \<Rightarrow> int \<Rightarrow> string \<Rightarrow> string \<Rightarrow> research_event" where
  "navigation_event NavUndo now version fp hash = plain_event now UndoEvent version fp hash"
| "navigation_event NavRedo now version fp hash = plain_event now RedoEvent version fp hash"
| "navigation_event (NavSeek i) now version fp hash =
     (plain_event now SeekEvent version fp hash)\<lparr>ev_command := OpCommand SeekEvent (Some i)\<rparr>"

text \<open>
  The method of the cached history moves its own cursor. The version, fingerprint and hash of the
  event are those of the analytical state after the dataset was set, which happens outside this model
  (\<open>setCurrentDataset\<close>): they are arguments. The resolver reads the original dataset given at the
  navigation, the code's view keeps the one given when the view was built.
\<close>

definition atlas_navigate ::
  "navigation \<Rightarrow> dataset option \<Rightarrow> (nat \<Rightarrow> js_number) \<Rightarrow> js_number \<Rightarrow> int \<Rightarrow> string \<Rightarrow> string \<Rightarrow> string
    \<Rightarrow> (evidence_ledger, string, history_entry option) effect" where
  "atlas_navigate nav original clock now version fp hash session =
     bindS (get_history original clock) (\<lambda>h l.
       case navigate_history nav (ledger_resolver original (original_ref (el_events l)) (el_versions l)) h of
         (Inl e, h') \<Rightarrow> (Inl e, l\<lparr>el_view := Some h'\<rparr>)
       | (Inr None, h') \<Rightarrow> (Inr None, l\<lparr>el_view := Some h'\<rparr>)
       | (Inr (Some x), h') \<Rightarrow>
           (Inr (Some x), snd (append_event (navigation_event nav now version fp hash) session (l\<lparr>el_view := Some h'\<rparr>))))"

section \<open>Reset and restore\<close>

definition reset_evidence :: "evidence_ledger \<Rightarrow> evidence_ledger" where
  "reset_evidence l = invalidate_view (l\<lparr>el_events := [], el_results := [], el_by_id := [], el_structures := [],
     el_observations := [], el_findings := [], el_annotations := [], el_versions := no_versions,
     el_result_n := 0, el_event_n := 0, el_observation_n := 0, el_finding_n := 0, el_annotation_n := 0\<rparr>)"

fun add_results :: "ledger_result list \<Rightarrow> (evidence_ledger, string, unit) effect" where
  "add_results [] l = (Inr (), l)"
| "add_results (r # rs) l = (case add_result r None l of Inl e \<Rightarrow> (Inl e, l) | Inr l' \<Rightarrow> add_results rs l')"

definition canonical_event :: "evidence_ledger \<Rightarrow> research_event \<Rightarrow> research_event" where
  "canonical_event l e = (case ev_result e of None \<Rightarrow> e
     | Some r \<Rightarrow> (case js_get (el_by_id l) (ar_id r) of None \<Rightarrow> e | Some c \<Rightarrow> e\<lparr>ev_result := Some c\<rparr>))"

definition rebuilt :: "event_kind \<Rightarrow> (research_event \<Rightarrow> 'a option) \<Rightarrow> research_event list \<Rightarrow> 'a list option \<Rightarrow> 'a list" where
  "rebuilt k part es given =
     (let own = List.map_filter part (filter (\<lambda>e. ev_kind e = k) es) in
      if own \<noteq> [] then own else (case given of None \<Rightarrow> [] | Some xs \<Rightarrow> xs))"

definition load_entities ::
  "research_event list \<Rightarrow> structure_set list option \<Rightarrow> ledger_observation list option \<Rightarrow> ledger_finding list option \<Rightarrow> ledger_annotation list option
    \<Rightarrow> evidence_ledger \<Rightarrow> evidence_ledger" where
  "load_entities es structures observations findings annotations l =
     (let l = l\<lparr>el_events := map (canonical_event l) es\<rparr>;
          l = l\<lparr>el_structures := rebuilt StructureEvent ev_structure (el_events l) structures,
                el_observations := rebuilt ObservationEvent ev_observation (el_events l) observations,
                el_findings := rebuilt FindingEvent ev_finding (el_events l) findings,
                el_annotations := rebuilt AnnotationEvent ev_annotation (el_events l) annotations\<rparr>
      in invalidate_view (l\<lparr>el_result_n := length (el_results l), el_event_n := length (el_events l),
           el_observation_n := length (el_observations l), el_finding_n := length (el_findings l),
           el_annotation_n := length (el_annotations l)\<rparr>))"

definition restore_evidence ::
  "ledger_result list \<Rightarrow> research_event list \<Rightarrow> structure_set list option \<Rightarrow> ledger_observation list option
    \<Rightarrow> ledger_finding list option \<Rightarrow> ledger_annotation list option \<Rightarrow> (evidence_ledger, string, unit) effect" where
  "restore_evidence results es structures observations findings annotations =
     bindS (\<lambda>l. (mapE (materialized_result (el_versions l)) results, l)) (\<lambda>restored.
     bindS (writeS (\<lambda>l. l\<lparr>el_results := [], el_by_id := [], el_versions := no_versions\<rparr>)) (\<lambda>_.
     bindS (add_results restored) (\<lambda>_.
     writeS (load_entities es structures observations findings annotations))))"

section \<open>The timeline the history refines\<close>

record history_transition =
  tr_op :: string
  tr_params :: js_value
  tr_before :: version_ref
  tr_after :: version_ref

text \<open>The transitions that are done and undone, and the version the investigation is at.\<close>

type_synonym timeline = "history_transition zipper \<times> version_ref option"

fun zip_navigate :: "navigation \<Rightarrow> 'f zipper \<Rightarrow> 'f option \<times> 'f zipper" where
  "zip_navigate NavUndo z = zip_undo z"
| "zip_navigate NavRedo z = zip_redo z"
| "zip_navigate (NavSeek i) z = zip_seek i z"

fun landing :: "navigation \<Rightarrow> history_transition \<Rightarrow> version_ref" where
  "landing NavUndo t = tr_before t"
| "landing _ t = tr_after t"

definition timeline_move :: "navigation \<Rightarrow> timeline \<Rightarrow> timeline" where
  "timeline_move nav t = (let (f, z) = zip_navigate nav (fst t) in
     (z, case f of None \<Rightarrow> snd t | Some x \<Rightarrow> Some (landing nav x)))"

definition timeline_push :: "history_transition \<Rightarrow> timeline \<Rightarrow> timeline" where
  "timeline_push x t = (zip_record 50 x (fst t), Some (tr_after x))"

definition result_transition :: "ledger_result \<Rightarrow> history_transition" where
  "result_transition r = (let s = ar_spec r in
     \<lparr>tr_op = (case sp_label s of None \<Rightarrow> sp_op s | Some x \<Rightarrow> x), tr_params = sp_operation s,
      tr_before = \<lparr>vr_version = sp_version s, vr_fingerprint = sp_fingerprint s\<rparr>, tr_after = result_ref r\<rparr>)"

definition timeline_event :: "version_ref option \<Rightarrow> timeline \<Rightarrow> research_event \<Rightarrow> timeline" where
  "timeline_event base t e = (case ev_kind e of
     LoadEvent \<Rightarrow> (fst t, event_ref e)
   | AnalysisEvent \<Rightarrow> (case ev_result e of None \<Rightarrow> t | Some r \<Rightarrow> timeline_push (result_transition r) t)
   | ResetEvent \<Rightarrow>
       let after = (case event_ref e of None \<Rightarrow> base | Some r \<Rightarrow> Some r) in
       (case (snd t, after) of
          (Some b, Some a) \<Rightarrow> timeline_push \<lparr>tr_op = ''reset'', tr_params = JObj [], tr_before = b, tr_after = a\<rparr> t
        | _ \<Rightarrow> (fst t, after))
   | UndoEvent \<Rightarrow> timeline_move NavUndo t
   | RedoEvent \<Rightarrow> timeline_move NavRedo t
   | SeekEvent \<Rightarrow> (case command_index (ev_command e) of None \<Rightarrow> t | Some i \<Rightarrow> timeline_move (NavSeek i) t)
   | _ \<Rightarrow> t)"

definition timeline_of :: "research_event list \<Rightarrow> timeline" where
  "timeline_of es = (let base = original_ref es in foldl (timeline_event base) (([], []), base) es)"

section \<open>Replay refines the timeline\<close>

definition map_zipper :: "('a \<Rightarrow> 'b) \<Rightarrow> 'a zipper \<Rightarrow> 'b zipper" where
  "map_zipper g z = (map g (fst z), map g (snd z))"

lemma zip_record_map: "zip_record m (g f) (map_zipper g z) = map_zipper g (zip_record m f z)"
  by (simp add: zip_record_def map_zipper_def take_map [symmetric])

lemma zip_navigate_map:
  "zip_navigate nav (map_zipper g z) = map_prod (map_option g) (map_zipper g) (zip_navigate nav z)"
proof (cases nav)
  case NavUndo
  then show ?thesis by (cases z rule: zip_undo.cases) (simp_all add: map_zipper_def)
next
  case NavRedo
  then show ?thesis by (cases z rule: zip_redo.cases) (simp_all add: map_zipper_def)
next
  case (NavSeek i)
  define fs where "fs = rev (fst z) @ snd z"
  have gs: "rev (fst (map_zipper g z)) @ snd (map_zipper g z) = map g fs" by (simp add: map_zipper_def fs_def rev_map)
  show ?thesis
  proof (cases "fs = []")
    case True
    then show ?thesis using NavSeek by (simp add: fs_def zip_seek_def map_zipper_def)
  next
    case False
    define k where "k = nat (max 0 (min (int (length fs) - 1) i))"
    have "0 < length fs" using False by simp
    then have k: "k < length fs" unfolding k_def by linarith
    have "zip_seek i z = (Some (fs ! k), rev (take (Suc k) fs), drop (Suc k) fs)"
      using False by (simp add: zip_seek_def k_def Let_def flip: fs_def)
    moreover have "zip_seek i (map_zipper g z) = (Some (map g fs ! k), rev (take (Suc k) (map g fs)), drop (Suc k) (map g fs))"
      using False unfolding zip_seek_def gs by (simp add: k_def Let_def)
    ultimately show ?thesis using NavSeek k by (simp add: map_zipper_def take_map drop_map rev_map)
  qed
qed

text \<open>The frames of a replayed history carry references only.\<close>

definition reference_frame :: "frame \<Rightarrow> bool" where
  "reference_frame f \<longleftrightarrow> fr_before f = None \<and> fr_after f = None \<and> fr_before_ref f \<noteq> None \<and> fr_after_ref f \<noteq> None"

definition frame_transition :: "frame \<Rightarrow> history_transition" where
  "frame_transition f = \<lparr>tr_op = fr_operation f, tr_params = fr_parameters f, tr_before = the (fr_before_ref f), tr_after = the (fr_after_ref f)\<rparr>"

definition history_timeline :: "history \<Rightarrow> history_transition zipper" where
  "history_timeline h = map_zipper frame_transition (history_zipper h)"

definition derived_history :: "history \<Rightarrow> bool" where
  "derived_history h \<longleftrightarrow> history_ok h \<and> hi_max h = 50 \<and> list_all reference_frame (hi_stack h)"

fun move_reference :: "navigation \<Rightarrow> history \<Rightarrow> version_ref option \<times> history" where
  "move_reference NavUndo h = move_undo h"
| "move_reference NavRedo h = move_redo h"
| "move_reference (NavSeek i) h = move_seek i h"

fun entry_for :: "navigation \<Rightarrow> resolver \<Rightarrow> frame \<Rightarrow> string + history_entry" where
  "entry_for NavUndo = entry_before"
| "entry_for _ = entry_after"

lemma navigate_refines:
  "history_ok h \<Longrightarrow> answers (entry_for nav res) h (navigate_history nav res h) (zip_navigate nav (history_zipper h))"
  by (cases nav) (simp_all add: undo_refines redo_refines seek_refines)

lemma navigate_moves: "snd (navigate_history nav res h) = snd (move_reference nav h)"
  by (cases nav) (simp_all add: undo_def redo_def seek_def move_undo_def move_redo_def move_seek_def
      bindS_def writeS_def liftS_def retS_def split: sum.split)

lemma navigate_stack: "hi_stack (snd (navigate_history nav res h)) = hi_stack h"
  by (cases nav) (simp_all add: undo_def redo_def seek_def bindS_def writeS_def liftS_def retS_def split: sum.split)

lemma undone_frame:
  assumes "history_ok h"
  shows "fst (zip_undo (history_zipper h)) = (if can_undo h then Some (frame_at h (hi_index h)) else None)"
proof -
  obtain xs ys m where h: "h = \<lparr>hi_stack = xs @ ys, hi_index = int (length xs) - 1, hi_max = m\<rparr>"
    "length xs + length ys \<le> nat m" "history_zipper h = (rev xs, ys)" using assms by (rule history_cases)
  then show ?thesis
    by (cases xs rule: rev_cases) (simp_all add: can_undo_def frame_at_def nth_append)
qed

lemma redone_frame:
  assumes "history_ok h"
  shows "fst (zip_redo (history_zipper h)) = (if can_redo h then Some (frame_at h (hi_index h + 1)) else None)"
proof -
  obtain xs ys m where h: "h = \<lparr>hi_stack = xs @ ys, hi_index = int (length xs) - 1, hi_max = m\<rparr>"
    "length xs + length ys \<le> nat m" "history_zipper h = (rev xs, ys)" using assms by (rule history_cases)
  then show ?thesis
    by (cases ys) (simp_all add: can_redo_def frame_at_def nth_append)
qed

lemma sought_frame:
  assumes "history_ok h"
  shows "fst (zip_seek i (history_zipper h)) = (if hi_stack h = [] then None else Some (frame_at h (clamp_index h i)))"
proof -
  obtain xs ys m where h: "h = \<lparr>hi_stack = xs @ ys, hi_index = int (length xs) - 1, hi_max = m\<rparr>"
    "length xs + length ys \<le> nat m" "history_zipper h = (rev xs, ys)" using assms by (rule history_cases)
  define fs where "fs = xs @ ys"
  have "hi_stack h = fs" "rev (fst (history_zipper h)) @ snd (history_zipper h) = fs" using h by (simp_all add: fs_def)
  then show ?thesis by (simp add: zip_seek_def Let_def clamp_index_def frame_at_def)
qed

fun reached_frame :: "navigation \<Rightarrow> history \<Rightarrow> frame option" where
  "reached_frame NavUndo h = (if can_undo h then Some (frame_at h (hi_index h)) else None)"
| "reached_frame NavRedo h = (if can_redo h then Some (frame_at h (hi_index h + 1)) else None)"
| "reached_frame (NavSeek i) h = (if hi_stack h = [] then None else Some (frame_at h (clamp_index h i)))"

lemma zip_navigate_frame: "history_ok h \<Longrightarrow> fst (zip_navigate nav (history_zipper h)) = reached_frame nav h"
  by (cases nav) (simp_all add: undone_frame redone_frame sought_frame)

lemma reached_frame_in_stack: "history_ok h \<Longrightarrow> reached_frame nav h = Some f \<Longrightarrow> f \<in> set (hi_stack h)"
proof -
  assume "history_ok h" "reached_frame nav h = Some f"
  then have "Some f = fst (zip_navigate nav (history_zipper h))" by (simp add: zip_navigate_frame)
  moreover have "set (hi_stack h) = set (fst (history_zipper h)) \<union> set (snd (history_zipper h))"
    by (simp add: history_zipper_def Let_def flip: set_append)
  moreover have "x \<in> set (fst z) \<union> set (snd z)" if "fst (zip_navigate nav z) = Some x" for z :: "frame zipper" and x
  proof (cases nav)
    case NavUndo
    then show ?thesis using that by (cases z rule: zip_undo.cases) auto
  next
    case NavRedo
    then show ?thesis using that by (cases z rule: zip_redo.cases) auto
  next
    case (NavSeek i)
    define fs where "fs = rev (fst z) @ snd z"
    define k where "k = nat (max 0 (min (int (length fs) - 1) i))"
    have "fs \<noteq> []" "x = fs ! k" using that NavSeek by (auto simp: zip_seek_def Let_def k_def fs_def split: if_splits)
    moreover have "k < length fs" using \<open>fs \<noteq> []\<close> by (cases fs) (auto simp: k_def)
    ultimately have "x \<in> set fs" by simp
    then show ?thesis by (simp add: fs_def)
  qed
  ultimately show ?thesis by metis
qed

lemma move_reference_fst:
  "fst (move_reference nav h) = (case reached_frame nav h of None \<Rightarrow> None
     | Some f \<Rightarrow> (case nav of NavUndo \<Rightarrow> fr_before_ref f | _ \<Rightarrow> fr_after_ref f))"
  by (cases nav) (simp_all add: move_undo_def move_redo_def move_seek_def)

lemma move_refines:
  assumes "derived_history h"
  shows "derived_history (snd (move_reference nav h))"
    and "history_timeline (snd (move_reference nav h)) = snd (zip_navigate nav (history_timeline h))"
    and "fst (move_reference nav h) = map_option (landing nav) (fst (zip_navigate nav (history_timeline h)))"
proof -
  have ok: "history_ok h" using assms by (simp add: derived_history_def)
  let ?res = "\<lambda>_. Inr None :: string + dataset option"
  have "answers (entry_for nav ?res) h (navigate_history nav ?res h) (zip_navigate nav (history_zipper h))"
    by (rule navigate_refines [OF ok])
  then have a: "history_ok (snd (move_reference nav h))" "hi_max (snd (move_reference nav h)) = hi_max h"
    "history_zipper (snd (move_reference nav h)) = snd (zip_navigate nav (history_zipper h))"
    by (simp_all add: answers_def navigate_moves)
  have "hi_stack (snd (move_reference nav h)) = hi_stack h" using navigate_stack [of nav ?res h] by (simp add: navigate_moves)
  then show "derived_history (snd (move_reference nav h))" using a assms by (simp add: derived_history_def)
  show "history_timeline (snd (move_reference nav h)) = snd (zip_navigate nav (history_timeline h))"
    by (simp add: history_timeline_def a(3) zip_navigate_map)
  have "landing nav (frame_transition f) = the (case nav of NavUndo \<Rightarrow> fr_before_ref f | _ \<Rightarrow> fr_after_ref f) \<and>
      (case nav of NavUndo \<Rightarrow> fr_before_ref f | _ \<Rightarrow> fr_after_ref f) \<noteq> None" if "reached_frame nav h = Some f" for f
    using reached_frame_in_stack [OF ok that] assms
    by (cases nav) (auto simp: derived_history_def list_all_iff reference_frame_def frame_transition_def)
  then show "fst (move_reference nav h) = map_option (landing nav) (fst (zip_navigate nav (history_timeline h)))"
    by (cases "reached_frame nav h") (auto simp: move_reference_fst history_timeline_def zip_navigate_map zip_navigate_frame [OF ok])
qed

lemma push_refines:
  assumes "derived_history h"
  shows "derived_history (snd (push_reference op (Some b) (Some a) params m n now h)) \<and>
    history_timeline (snd (push_reference op (Some b) (Some a) params m n now h)) =
      zip_record 50 \<lparr>tr_op = op, tr_params = params, tr_before = b, tr_after = a\<rparr> (history_timeline h)"
proof -
  define f where "f = \<lparr>fr_operation = op, fr_parameters = params, fr_time = now, fr_before = None, fr_after = None,
       fr_before_ref = Some b, fr_after_ref = Some a, fr_rows_before = m, fr_rows_after = n\<rparr>"
  have ok: "history_ok h" "hi_max h = 50" "list_all reference_frame (hi_stack h)" using assms by (simp_all add: derived_history_def)
  have tl: "set (tl xs) \<subseteq> set xs" for xs :: "frame list" by (cases xs) auto
  have "set (hi_stack (discard_redo h)) \<subseteq> set (hi_stack h)" by (auto simp: discard_redo_def dest: in_set_takeD)
  then have "set (hi_stack (snd (append_frame f h))) \<subseteq> insert f (set (hi_stack h))"
    using tl [of "hi_stack (discard_redo h) @ [f]"] by (auto simp: append_frame_def Let_def)
  then have "list_all reference_frame (hi_stack (snd (append_frame f h)))"
    using ok(3) by (auto simp: list_all_iff reference_frame_def f_def)
  then show ?thesis
    using append_frame_refines [OF ok(1), of f] ok(2) zip_record_map [of 50 frame_transition f "history_zipper h"]
    by (simp add: push_reference_def derived_history_def history_timeline_def frame_transition_def flip: f_def) (simp add: f_def)
qed

text \<open>A replay in state \<open>s\<close> stands at the timeline \<open>t\<close>.\<close>

definition stands_at :: "replay \<Rightarrow> timeline \<Rightarrow> bool" where
  "stands_at s t \<longleftrightarrow> derived_history (ry_history s) \<and> history_timeline (ry_history s) = fst t \<and> ry_current s = snd t"

lemma push_transition_stands:
  "stands_at s t \<Longrightarrow> stands_at (push_transition op b a params original base now s)
     (timeline_push \<lparr>tr_op = op, tr_params = params, tr_before = b, tr_after = a\<rparr> t)"
  using push_refines by (simp add: stands_at_def push_transition_def timeline_push_def)

lemma moved_stands: "stands_at s t \<Longrightarrow> stands_at (moved (move_reference nav (ry_history s)) s) (timeline_move nav t)"
  using move_refines [of "ry_history s" nav]
  by (cases "zip_navigate nav (fst t)")
     (auto simp: stands_at_def moved_def timeline_move_def split: option.split)

lemma replay_event_stands:
  assumes "stands_at s t" and "replay_event original base now e s = Inr s'"
  shows "stands_at s' (timeline_event base t e)"
proof (cases "ev_kind e")
  case AnalysisEvent
  show ?thesis
  proof (cases "ev_result e")
    case None
    then show ?thesis using assms AnalysisEvent by (simp add: replay_event_def timeline_event_def)
  next
    case (Some r)
    then obtain v where "s' = push_transition (tr_op (result_transition r)) (tr_before (result_transition r)) (tr_after (result_transition r))
        (tr_params (result_transition r)) original base now (s\<lparr>ry_versions := v\<rparr>)"
      using assms(2) AnalysisEvent
      by (auto simp: replay_event_def replay_analysis_def Let_def bindE_Inr_iff result_transition_def)
    moreover have "stands_at (s\<lparr>ry_versions := v\<rparr>) t" using assms(1) by (simp add: stands_at_def)
    ultimately show ?thesis
      using push_transition_stands [of "s\<lparr>ry_versions := v\<rparr>" t] Some AnalysisEvent by (simp add: timeline_event_def) (metis history_transition.surjective old.unit.exhaust)
  qed
next
  case ResetEvent
  then show ?thesis
    using assms push_transition_stands [OF assms(1)]
    by (auto simp: replay_event_def timeline_event_def Let_def stands_at_def split: option.splits)
next
  case UndoEvent
  then show ?thesis using assms moved_stands [OF assms(1), of NavUndo] by (simp add: replay_event_def timeline_event_def)
next
  case RedoEvent
  then show ?thesis using assms moved_stands [OF assms(1), of NavRedo] by (simp add: replay_event_def timeline_event_def)
next
  case SeekEvent
  then show ?thesis using assms moved_stands [OF assms(1)]
    by (cases "command_index (ev_command e)") (auto simp: replay_event_def timeline_event_def dest: moved_stands [where nav = "NavSeek _"])
qed (use assms in \<open>auto simp: replay_event_def timeline_event_def stands_at_def\<close>)

section \<open>Runs of the ledger\<close>

text \<open>
  The calls of the program: plain events (load, reset, preview, recommendation), the recording
  methods, the ids of previews, commits, baselines, reads of the history and navigation.
\<close>

datatype ledger_call =
    CallPlain js_number event_kind int string string string
  | CallObservation ledger_observation string string js_number
  | CallFinding ledger_finding string string js_number
  | CallAnnotation ledger_annotation string int string string js_number
  | CallRemediation remediation_provenance string int string
  | CallRefusal ledger_refusal string int string
  | CallStructure structure_set string js_number
  | CallEmbodiment js_value string int string string js_number
  | CallIntervention string string int string string js_number
  | CallPreview string int string
  | CallCommit analysis_spec string int dataset_json js_value "version_ref option" js_number string
  | CallBaseline version_ref dataset
  | CallRefresh version_ref dataset
  | CallHistory "dataset option" "nat \<Rightarrow> js_number"
  | CallNavigate navigation "dataset option" "nat \<Rightarrow> js_number" js_number int string string string
  | CallReset

definition effect_result :: "(string + 'a) \<times> evidence_ledger \<Rightarrow> string + evidence_ledger" where
  "effect_result r = (case fst r of Inl e \<Rightarrow> Inl e | Inr x \<Rightarrow> Inr (snd r))"

fun call_ledger :: "evidence_ledger \<Rightarrow> ledger_call \<Rightarrow> string + evidence_ledger" where
  "call_ledger l (CallPlain now k version fp hash session) = Inr (snd (append_event (plain_event now k version fp hash) session l))"
| "call_ledger l (CallObservation x session hash now) = Inr (snd (record_observation x session hash now l))"
| "call_ledger l (CallFinding x session hash now) = Inr (snd (record_finding x session hash now l))"
| "call_ledger l (CallAnnotation x session version fp hash now) = Inr (snd (record_annotation x session version fp hash now l))"
| "call_ledger l (CallRemediation p session version hash) = Inr (snd (record_remediation p session version hash l))"
| "call_ledger l (CallRefusal r session version hash) = Inr (snd (record_refusal r session version hash l))"
| "call_ledger l (CallStructure x session now) = Inr (record_structure x session now l)"
| "call_ledger l (CallEmbodiment c session version fp hash now) = Inr (record_embodiment c session version fp hash now l)"
| "call_ledger l (CallIntervention c session version fp hash now) = Inr (record_intervention c session version fp hash now l)"
| "call_ledger l (CallPreview fp version op) = Inr (snd (next_result_id fp version op l))"
| "call_ledger l (CallCommit spec fp version j rest hint now session) =
     bindE (commit_analysis spec fp version j rest hint now session l) (\<lambda>r. Inr (snd r))"
| "call_ledger l (CallBaseline r d) = register_dataset_version r d l"
| "call_ledger l (CallRefresh r d) = refresh_borrowed r d l"
| "call_ledger l (CallHistory original clock) = effect_result (get_history original clock l)"
| "call_ledger l (CallNavigate nav original clock now version fp hash session) =
     effect_result (atlas_navigate nav original clock now version fp hash session l)"
| "call_ledger l CallReset = Inr (reset_evidence l)"

text \<open>The part of an event stream one entity list is made of.\<close>

definition parts :: "event_kind \<Rightarrow> (research_event \<Rightarrow> 'a option) \<Rightarrow> research_event list \<Rightarrow> 'a list" where
  "parts k f es = List.map_filter f (filter (\<lambda>e. ev_kind e = k) es)"

lemma parts_append: "parts k f (es @ [e]) = parts k f es @ (if ev_kind e = k then (case f e of None \<Rightarrow> [] | Some x \<Rightarrow> [x]) else [])"
  by (simp add: parts_def List.map_filter_def split: option.split)

definition numbered :: "string list \<Rightarrow> bool" where
  "numbered ids \<longleftrightarrow> (\<forall>i < length ids. \<exists>p. ids ! i = p @ CHR '':'' # show_nat (Suc i))"

lemma numbered_snoc: "numbered ids \<Longrightarrow> numbered (ids @ [p @ CHR '':'' # show_nat (Suc (length ids))])"
  by (auto simp: numbered_def nth_append less_Suc_eq)

lemma numbered_distinct:
  assumes "numbered ids"
  shows "distinct ids"
proof -
  have colon: "CHR '':'' \<notin> set (show_nat n)" for n
    using not_digit_not_in_show_nat [of "CHR '':''"] by (auto simp: js_digit_def)
  have "i = j" if i: "i < length ids" and j: "j < length ids" and eq: "ids ! i = ids ! j" for i j
  proof -
    obtain p where p: "ids ! i = p @ CHR '':'' # show_nat (Suc i)" using assms i by (auto simp: numbered_def)
    obtain q where q: "ids ! j = q @ CHR '':'' # show_nat (Suc j)" using assms j by (auto simp: numbered_def)
    have "rev (ids ! i) = rev (ids ! j)" using eq by simp
    then have "rev (show_nat (Suc i)) @ CHR '':'' # rev p = rev (show_nat (Suc j)) @ CHR '':'' # rev q" by (simp add: p q)
    then have "rev (show_nat (Suc i)) = rev (show_nat (Suc j)) \<and> rev p = rev q"
      by (rule append_sep_inj) (simp_all add: colon)
    then show "i = j" by simp
  qed
  then show ?thesis by (auto simp: distinct_conv_nth)
qed

definition view_ok :: "evidence_ledger \<Rightarrow> bool" where
  "view_ok l \<longleftrightarrow> (case el_view l of None \<Rightarrow> True
     | Some h \<Rightarrow> derived_history h \<and> history_timeline h = fst (timeline_of (el_events l)))"

definition entities_ok :: "evidence_ledger \<Rightarrow> bool" where
  "entities_ok l \<longleftrightarrow> el_structures l = parts StructureEvent ev_structure (el_events l) \<and>
     el_observations l = parts ObservationEvent ev_observation (el_events l) \<and>
     el_findings l = parts FindingEvent ev_finding (el_events l) \<and>
     el_annotations l = parts AnnotationEvent ev_annotation (el_events l) \<and>
     el_event_n l = length (el_events l) \<and> el_observation_n l = length (el_observations l) \<and>
     el_finding_n l = length (el_findings l) \<and> el_annotation_n l = length (el_annotations l) \<and>
     numbered (map ev_id (el_events l)) \<and> numbered (map ob_id (el_observations l)) \<and>
     numbered (map fi_id (el_findings l)) \<and> numbered (map an_id (el_annotations l))"

definition results_ok :: "evidence_ledger \<Rightarrow> bool" where
  "results_ok l \<longleftrightarrow> versions_ok (el_versions l) \<and> numbered (map ar_id (el_results l)) \<and>
     el_by_id l = map (\<lambda>r. (ar_id r, r)) (el_results l) \<and>
     (\<forall>r\<in>set (el_results l). ar_dataset r = None \<and> has_version (el_versions l) (result_ref r) \<and> assert_ref (result_ref r) = Inr ()) \<and>
     (\<forall>e\<in>set (el_events l). \<forall>r. ev_result e = Some r \<longrightarrow> r \<in> set (el_results l))"

definition evidence_ok :: "evidence_ledger \<Rightarrow> bool" where
  "evidence_ok l \<longleftrightarrow> view_ok l \<and> entities_ok l \<and> results_ok l"

lemma new_evidence_ok: "evidence_ok new_evidence"
  by (simp add: evidence_ok_def new_evidence_def view_ok_def entities_ok_def results_ok_def parts_def numbered_def
      no_versions_ok List.map_filter_def)

lemma append_event_parts:
  "el_events (snd (append_event e session l)) = el_events l @ [fst (append_event e session l)]"
  "el_view (snd (append_event e session l)) = None"
  "el_event_n (snd (append_event e session l)) = Suc (el_event_n l)"
  "el_results (snd (append_event e session l)) = el_results l" "el_by_id (snd (append_event e session l)) = el_by_id l"
  "el_versions (snd (append_event e session l)) = el_versions l"
  "el_structures (snd (append_event e session l)) = el_structures l"
  "el_observations (snd (append_event e session l)) = el_observations l"
  "el_findings (snd (append_event e session l)) = el_findings l"
  "el_annotations (snd (append_event e session l)) = el_annotations l"
  "el_observation_n (snd (append_event e session l)) = el_observation_n l"
  "el_finding_n (snd (append_event e session l)) = el_finding_n l"
  "el_annotation_n (snd (append_event e session l)) = el_annotation_n l"
  "ev_kind (fst (append_event e session l)) = ev_kind e" "ev_structure (fst (append_event e session l)) = ev_structure e"
  "ev_observation (fst (append_event e session l)) = ev_observation e" "ev_finding (fst (append_event e session l)) = ev_finding e"
  "ev_annotation (fst (append_event e session l)) = ev_annotation e"
  "ev_command (fst (append_event e session l)) = ev_command e"
  "ev_version (fst (append_event e session l)) = ev_version e" "ev_fingerprint (fst (append_event e session l)) = ev_fingerprint e"
  "ev_id (fst (append_event e session l)) = session @ CHR '':'' # show_nat (Suc (el_event_n l))"
  by (simp_all add: append_event_def Let_def invalidate_view_def)

lemma appended_result:
  "ev_result (fst (append_event e session l)) = (case ev_result e of None \<Rightarrow> None
     | Some r \<Rightarrow> (case js_get (el_by_id l) (ar_id r) of Some c \<Rightarrow> Some c | None \<Rightarrow> Some r))"
  by (simp add: append_event_def Let_def)

lemma plain_event_parts:
  "ev_kind (plain_event now k version fp hash) = k" "ev_result (plain_event now k version fp hash) = None"
  "ev_structure (plain_event now k version fp hash) = None" "ev_observation (plain_event now k version fp hash) = None"
  "ev_finding (plain_event now k version fp hash) = None" "ev_annotation (plain_event now k version fp hash) = None"
  by (simp_all add: plain_event_def)

text \<open>An event without a result keeps what the ledger knows of its results.\<close>

lemma append_results_ok:
  assumes "results_ok l" and "\<And>r. ev_result e = Some r \<Longrightarrow> \<exists>c\<in>set (el_results l). ar_id c = ar_id r"
  shows "results_ok (snd (append_event e session l))"
proof -
  have keys: "distinct (js_keys (el_by_id l))"
    using assms(1) numbered_distinct by (auto simp: results_ok_def comp_def)
  have "r \<in> set (el_results l)" if r: "ev_result (fst (append_event e session l)) = Some r" for r
  proof -
    obtain r0 where r0: "ev_result e = Some r0" using r by (auto simp: appended_result split: option.splits)
    then obtain c where c: "c \<in> set (el_results l)" "ar_id c = ar_id r0" using assms(2) by blast
    have "(ar_id c, c) \<in> set (el_by_id l)" using assms(1) c(1) by (simp add: results_ok_def)
    then have "(ar_id r0, c) \<in> set (el_by_id l)" by (simp add: c(2))
    then have "js_get (el_by_id l) (ar_id r0) = Some c" using keys by (simp add: js_get_in_set)
    then show ?thesis using r r0 c(1) by (simp add: appended_result)
  qed
  then show ?thesis using assms(1) by (auto simp: results_ok_def append_event_parts)
qed

lemma append_plain_ok:
  assumes "evidence_ok l" and "ev_result e = None" and "ev_structure e = None" and "ev_observation e = None"
    and "ev_finding e = None" and "ev_annotation e = None"
  shows "evidence_ok (snd (append_event e session l))"
  using assms append_results_ok [of l e session] numbered_snoc [of "map ev_id (el_events l)" session]
  by (auto simp: evidence_ok_def view_ok_def entities_ok_def append_event_parts parts_append)

lemma evidence_parts:
  assumes "evidence_ok l"
  shows "el_structures l = parts StructureEvent ev_structure (el_events l)"
    and "el_observations l = parts ObservationEvent ev_observation (el_events l)"
    and "el_findings l = parts FindingEvent ev_finding (el_events l)"
    and "el_annotations l = parts AnnotationEvent ev_annotation (el_events l)"
    and "el_event_n l = length (el_events l)" and "el_observation_n l = length (el_observations l)"
    and "el_finding_n l = length (el_findings l)" and "el_annotation_n l = length (el_annotations l)"
  using assms unfolding evidence_ok_def entities_ok_def by blast+

lemma evidence_ids:
  assumes "evidence_ok l"
  shows "numbered (map ev_id (el_events l))" and "numbered (map ob_id (el_observations l))"
    and "numbered (map fi_id (el_findings l))" and "numbered (map an_id (el_annotations l))"
    and "numbered (map ar_id (el_results l))" and "results_ok l" and "view_ok l"
  using assms unfolding evidence_ok_def entities_ok_def results_ok_def by blast+

lemma record_entities_ok:
  assumes "evidence_ok l"
  shows "evidence_ok (snd (record_observation x1 session hash now l))" and "evidence_ok (snd (record_finding x2 session hash now l))"
    and "evidence_ok (snd (record_annotation x3 session version fp hash now l))" and "evidence_ok (record_structure x4 session now l)"
proof -
  note n = evidence_ids [OF assms] and p = evidence_parts [OF assms]
  note r = n(6)
  have same: "results_ok (l\<lparr>el_observation_n := k, el_observations := os\<rparr>) = results_ok l"
    "results_ok (l\<lparr>el_finding_n := k, el_findings := fs\<rparr>) = results_ok l"
    "results_ok (l\<lparr>el_annotation_n := k, el_annotations := as\<rparr>) = results_ok l"
    "results_ok (l\<lparr>el_structures := ss\<rparr>) = results_ok l" for k os fs as ss
    by (simp_all add: results_ok_def)
  note snocs = numbered_snoc [OF n(1), of session] numbered_snoc [OF n(2), of "''obs:'' @ session"]
    numbered_snoc [OF n(3), of "''finding:'' @ session"] numbered_snoc [OF n(4), of "''annot:'' @ session"]
  note defs = evidence_ok_def view_ok_def entities_ok_def append_event_parts parts_append plain_event_parts
  note facts = n(1-4) snocs p(5-) p(1-4) [symmetric]
  show "evidence_ok (snd (record_observation x1 session hash now l))"
    using facts by (simp add: record_observation_def Let_def defs) (rule append_results_ok; simp add: same r plain_event_parts)
  show "evidence_ok (snd (record_finding x2 session hash now l))"
    using facts by (simp add: record_finding_def Let_def defs) (rule append_results_ok; simp add: same r plain_event_parts)
  show "evidence_ok (snd (record_annotation x3 session version fp hash now l))"
    using facts by (simp add: record_annotation_def Let_def defs) (rule append_results_ok; simp add: same r plain_event_parts)
  show "evidence_ok (record_structure x4 session now l)"
    using facts by (simp add: record_structure_def Let_def defs) (rule append_results_ok; simp add: same r plain_event_parts)
qed

lemma registered_version:
  assumes "register_result r j hint v = Inr v'" and "versions_ok v"
  shows "versions_ok v'" and "has_version v' (result_ref r)" and "assert_ref (result_ref r) = Inr ()"
    and "has_version v q \<Longrightarrow> has_version v' q"
proof -
  define c where "c = (case hint of None \<Rightarrow> CallSnapshot (result_ref r) j | Some src \<Rightarrow> CallRowView (result_ref r) src j)"
  have op: "version_op c v = Inr v'"
    using assms(1) by (auto simp: c_def register_result_def bindE_Inr_iff split: option.splits)
  then show "versions_ok v'" using version_step_ok [OF assms(2), of c] by (simp add: version_step_def)
  from op obtain e s1 where s: "v' = set_entry e s1" "vs_entries s1 = vs_entries v" "registers (entry_ref e) c"
    by (cases rule: version_op_cases) (auto simp: c_def split: option.splits)
  then have "entry_ref e = result_ref r" by (auto simp: c_def split: option.splits)
  then show "has_version v' (result_ref r)" "has_version v q \<Longrightarrow> has_version v' q"
    using s by (auto simp: has_version_def js_has_def set_entry_get)
  show "assert_ref (result_ref r) = Inr ()"
    using assms(1) by (auto simp: register_result_def register_snapshot_def register_row_view_def bindE_Inr_iff split: option.splits)
qed

lemma borrowed_version:
  assumes "register_borrowed r d v = Inr v'" and "versions_ok v"
  shows "versions_ok v'" and "has_version v q \<Longrightarrow> has_version v' q"
proof -
  have op: "version_op (CallBorrowed r d) v = Inr v'" using assms(1) by simp
  then show "versions_ok v'" using version_step_ok [OF assms(2), of "CallBorrowed r d"] by (simp add: version_step_def)
  show "has_version v q \<Longrightarrow> has_version v' q"
    using assms(1) by (auto simp: register_borrowed_def bindE_Inr_iff has_version_def js_has_def set_entry_get)
qed

lemma add_result_ok:
  assumes "add_result r hint l = Inr l'" and "results_ok l" and "ar_id r = p @ CHR '':'' # show_nat (Suc (length (el_results l)))"
  shows "results_ok l'" and "r\<lparr>ar_dataset := None\<rparr> \<in> set (el_results l')"
    and "l' = l\<lparr>el_versions := el_versions l', el_results := el_results l @ [r\<lparr>ar_dataset := None\<rparr>], el_by_id := el_by_id l'\<rparr>"
proof -
  define stored where "stored = r\<lparr>ar_dataset := None\<rparr>"
  from assms(1) obtain j v where v: "register_result r j hint (el_versions l) = Inr v"
    and l': "l' = l\<lparr>el_versions := v, el_results := el_results l @ [stored], el_by_id := js_put (ar_id stored) stored (el_by_id l)\<rparr>"
    by (auto simp: add_result_def bindE_Inr_iff Let_def stored_def)
  have n: "numbered (map ar_id (el_results l @ [stored]))"
    using assms(2,3) numbered_snoc [of "map ar_id (el_results l)" p] by (simp add: results_ok_def stored_def)
  from numbered_distinct [OF n] have "ar_id stored \<notin> set (js_keys (el_by_id l))"
    using assms(2) by (auto simp: results_ok_def comp_def)
  then have "js_put (ar_id stored) stored (el_by_id l) = el_by_id l @ [(ar_id stored, stored)]" by (rule js_put_fresh)
  moreover have "result_ref stored = result_ref r" "ar_dataset stored = None" by (simp_all add: stored_def result_ref_def)
  ultimately show "results_ok l'"
    using n assms(2) registered_version [OF v] by (auto simp: results_ok_def l')
  show "r\<lparr>ar_dataset := None\<rparr> \<in> set (el_results l')" by (simp add: l' stored_def)
  show "l' = l\<lparr>el_versions := el_versions l', el_results := el_results l @ [r\<lparr>ar_dataset := None\<rparr>], el_by_id := el_by_id l'\<rparr>"
    by (simp add: l' stored_def)
qed

lemma ledger_commit_ok:
  assumes "evidence_ok l" and "commit_analysis spec fp version j rest hint now session l = Inr (r, l')"
  shows "evidence_ok l'"
proof -
  define p where "p = fp @ '':'' @ show_int version @ '':'' @ sp_op spec"
  define l1 where "l1 = l\<lparr>el_result_n := Suc (length (el_results l))\<rparr>"
  define r0 where "r0 = \<lparr>ar_id = p @ CHR '':'' # show_nat (Suc (length (el_results l))), ar_fingerprint = fp, ar_version = version,
    ar_spec = spec, ar_dataset = Some j, ar_rest = rest\<rparr>"
  define e where "e = (plain_event now AnalysisEvent version fp fp)\<lparr>ev_command := SpecCommand spec, ev_result := Some r0\<rparr>"
  obtain l2 where l2: "add_result r0 hint l1 = Inr l2" and l': "l' = snd (append_event e session l2)"
    using assms(2) by (auto simp: commit_analysis_def next_result_id_def Let_def bindE_Inr_iff l1_def r0_def e_def p_def)
  have "results_ok l1" "ar_id r0 = p @ CHR '':'' # show_nat (Suc (length (el_results l1)))"
    using assms(1) by (simp_all add: evidence_ok_def results_ok_def l1_def r0_def)
  from add_result_ok [OF l2 this]
  have ok2: "results_ok l2" and mem: "r0\<lparr>ar_dataset := None\<rparr> \<in> set (el_results l2)"
    and same: "l2 = l1\<lparr>el_versions := el_versions l2, el_results := el_results l1 @ [r0\<lparr>ar_dataset := None\<rparr>], el_by_id := el_by_id l2\<rparr>" .
  have "results_ok l'" unfolding l' using ok2 mem by (intro append_results_ok) (auto simp: e_def intro!: bexI [OF _ mem])
  moreover have "entities_ok l" using assms(1) by (simp add: evidence_ok_def)
  moreover have "entities_ok l2 = entities_ok l" by (subst same) (simp add: entities_ok_def l1_def)
  ultimately have "results_ok l'" "entities_ok l2" by simp_all
  moreover from this have "entities_ok l'"
    using numbered_snoc [of "map ev_id (el_events l2)" session]
    by (auto simp: entities_ok_def l' append_event_parts parts_append e_def plain_event_parts)
  ultimately show ?thesis by (simp add: evidence_ok_def view_ok_def l' append_event_parts)
qed

lemma replay_present:
  assumes "\<forall>e\<in>set es. \<forall>r. ev_result e = Some r \<longrightarrow> has_version (ry_versions s) (result_ref r)" and "stands_at s t"
  shows "\<exists>s'. replay_all original base clock es n s = (Inr (), s') \<and> ry_versions s' = ry_versions s \<and>
    stands_at s' (foldl (timeline_event base) t es)"
  using assms
proof (induction es arbitrary: n s t)
  case (Cons e es)
  have "\<exists>s1. replay_event original base (clock n) e s = Inr s1 \<and> ry_versions s1 = ry_versions s"
    using Cons.prems(1)
    by (auto simp: replay_event_def replay_analysis_def Let_def moved_def push_transition_def split: event_kind.split option.split)
  then obtain s1 where s1: "replay_event original base (clock n) e s = Inr s1" "ry_versions s1 = ry_versions s" by blast
  with replay_event_stands [OF Cons.prems(2)] have "stands_at s1 (timeline_event base t e)" by blast
  with Cons.IH [of s1 "timeline_event base t e" "Suc n"] Cons.prems(1) s1 show ?case by simp
qed simp

lemma initial_stands: "stands_at \<lparr>ry_history = new_history 50, ry_current = base, ry_versions = v\<rparr> (([], []), base)"
  by (simp add: stands_at_def derived_history_def history_timeline_def map_zipper_def new_history_ok) (simp add: new_history_def)

lemma get_history_ok:
  assumes "evidence_ok l"
  shows "\<exists>h. get_history original clock l = (Inr h, l\<lparr>el_view := Some h\<rparr>) \<and> derived_history h \<and>
    history_timeline h = fst (timeline_of (el_events l))"
proof (cases "el_view l")
  case (Some h)
  then show ?thesis using assms by (auto simp: get_history_def evidence_ok_def view_ok_def)
next
  case None
  let ?s = "\<lparr>ry_history = new_history 50, ry_current = original_ref (el_events l), ry_versions = el_versions l\<rparr>"
  have "\<forall>e\<in>set (el_events l). \<forall>r. ev_result e = Some r \<longrightarrow> has_version (ry_versions ?s) (result_ref r)"
    using evidence_ids(6) [OF assms] by (auto simp: results_ok_def)
  from replay_present [OF this initial_stands, of original "original_ref (el_events l)" clock 0]
  obtain s' where s': "build_history original clock l = (Inr (), s')" "ry_versions s' = el_versions l"
    "stands_at s' (timeline_of (el_events l))"
    by (auto simp: build_history_def Let_def timeline_of_def)
  then have "get_history original clock l = (Inr (ry_history s'), l\<lparr>el_view := Some (ry_history s')\<rparr>)"
    using None by (simp add: get_history_def)
  then show ?thesis using s'(3) by (auto simp: stands_at_def)
qed

lemma untouched_parts [simp]:
  "entities_ok (l\<lparr>el_view := w\<rparr>) = entities_ok l" "results_ok (l\<lparr>el_view := w\<rparr>) = results_ok l"
  "entities_ok (l\<lparr>el_result_n := n\<rparr>) = entities_ok l" "results_ok (l\<lparr>el_result_n := n\<rparr>) = results_ok l"
  "entities_ok (l\<lparr>el_versions := v\<rparr>) = entities_ok l" "view_ok (l\<lparr>el_versions := v\<rparr>) = view_ok l"
  "view_ok (l\<lparr>el_result_n := n\<rparr>) = view_ok l"
  by (simp_all add: entities_ok_def results_ok_def view_ok_def split: option.split)

lemma zip_navigate_none: "fst (zip_navigate nav z) = None \<Longrightarrow> snd (zip_navigate nav z) = z"
proof (cases nav)
  case NavUndo
  then show "fst (zip_navigate nav z) = None \<Longrightarrow> ?thesis" by (cases z rule: zip_undo.cases) simp_all
next
  case NavRedo
  then show "fst (zip_navigate nav z) = None \<Longrightarrow> ?thesis" by (cases z rule: zip_redo.cases) simp_all
qed (auto simp: zip_seek_def Let_def split: if_splits)

lemma timeline_of_snoc:
  assumes "ev_kind e \<noteq> LoadEvent"
  shows "timeline_of (es @ [e]) = timeline_event (original_ref es) (timeline_of es) e"
proof -
  have "find (\<lambda>e. ev_kind e = LoadEvent) (es @ [e]) = find (\<lambda>e. ev_kind e = LoadEvent) es"
    using assms by (induction es) simp_all
  then have "original_ref (es @ [e]) = original_ref es" by (simp add: original_ref_def)
  then show ?thesis by (simp add: timeline_of_def Let_def)
qed

lemma navigation_event_parts:
  "ev_kind (navigation_event nav now version fp hash) \<noteq> LoadEvent" "ev_result (navigation_event nav now version fp hash) = None"
  "ev_structure (navigation_event nav now version fp hash) = None" "ev_observation (navigation_event nav now version fp hash) = None"
  "ev_finding (navigation_event nav now version fp hash) = None" "ev_annotation (navigation_event nav now version fp hash) = None"
  by (cases nav; simp add: plain_event_def)+

lemma navigation_event_moves:
  "timeline_event base t (fst (append_event (navigation_event nav now version fp hash) session l)) = timeline_move nav t"
  by (cases nav) (simp_all add: timeline_event_def append_event_parts plain_event_parts command_index_def)

lemma reached_entry:
  assumes "history_ok h" and "navigate_history nav res h = (r, h')"
  shows "r = (case reached_frame nav h of None \<Rightarrow> Inr None | Some f \<Rightarrow> map_sum id Some (entry_for nav res f))"
  using navigate_refines [OF assms(1), of nav res] assms by (simp add: answers_def zip_navigate_frame)

lemma entry_for_operation: "entry_for nav res f = Inr x \<Longrightarrow> he_operation x = fr_operation f"
  by (cases nav) (auto simp: entry_before_def entry_after_def bindE_Inr_iff)

text \<open>What navigation answers, and the ledger it leaves.\<close>

definition navigation_outcome :: "navigation \<Rightarrow> evidence_ledger \<Rightarrow> (string + history_entry option) \<times> evidence_ledger \<Rightarrow> bool" where
  "navigation_outcome nav l m \<longleftrightarrow> (case zip_navigate nav (fst (timeline_of (el_events l))) of
     (None, z) \<Rightarrow> fst m = Inr None \<and> el_events (snd m) = el_events l
   | (Some f, z) \<Rightarrow> (case fst m of
         Inl err \<Rightarrow> el_events (snd m) = el_events l
       | Inr None \<Rightarrow> False
       | Inr (Some x) \<Rightarrow> he_operation x = tr_op f \<and> length (el_events (snd m)) = Suc (length (el_events l)) \<and>
           timeline_of (el_events (snd m)) = (z, Some (landing nav f))))"

lemma navigated:
  assumes "evidence_ok l"
  shows "navigation_outcome nav l (atlas_navigate nav original clock now version fp hash session l)"
    and "fst (atlas_navigate nav original clock now version fp hash session l) = Inr a \<Longrightarrow>
      evidence_ok (snd (atlas_navigate nav original clock now version fp hash session l))"
proof -
  obtain h where h: "get_history original clock l = (Inr h, l\<lparr>el_view := Some h\<rparr>)" "derived_history h"
    "history_timeline h = fst (timeline_of (el_events l))" using get_history_ok [OF assms] by blast
  have hok: "history_ok h" using h(2) by (simp add: derived_history_def)
  define res where "res = ledger_resolver original (original_ref (el_events l)) (el_versions l)"
  obtain r h' where n: "navigate_history nav res h = (r, h')" by fastforce
  let ?m = "atlas_navigate nav original clock now version fp hash session l"
  let ?l' = "l\<lparr>el_view := Some h'\<rparr>" and ?e = "navigation_event nav now version fp hash"
  have m: "?m = (case r of Inl err \<Rightarrow> (Inl err, ?l') | Inr None \<Rightarrow> (Inr None, ?l')
      | Inr (Some x) \<Rightarrow> (Inr (Some x), snd (append_event ?e session ?l')))"
    using n h(1) by (simp add: atlas_navigate_def bindS_def res_def split: sum.split option.split)
  define z where "z = zip_navigate nav (fst (timeline_of (el_events l)))"
  have z: "z = map_prod (map_option frame_transition) (map_zipper frame_transition) (zip_navigate nav (history_zipper h))"
    by (simp add: z_def zip_navigate_map history_timeline_def flip: h(3))
  then have zf: "fst z = map_option frame_transition (reached_frame nav h)" by (simp add: zip_navigate_frame [OF hok])
  note r = reached_entry [OF hok n]
  have h': "h' = snd (move_reference nav h)" using navigate_moves [of nav res h] n by simp
  show "navigation_outcome nav l ?m"
  proof (cases "reached_frame nav h")
    case None
    then show ?thesis using r zf m by (cases z) (simp add: navigation_outcome_def flip: z_def)
  next
    case (Some f)
    then have z2: "z = (Some (frame_transition f), snd z)" using zf by (cases z) simp
    show ?thesis
    proof (cases "entry_for nav res f")
      case (Inl err)
      then show ?thesis using r Some m z2 by (cases z) (simp add: navigation_outcome_def flip: z_def)
    next
      case (Inr x)
      have t: "timeline_of (el_events (snd (append_event ?e session ?l'))) = (snd z, Some (landing nav (frame_transition f)))"
        using z2 by (cases z) (simp add: append_event_parts(1) timeline_of_snoc append_event_parts(14) navigation_event_parts
            navigation_event_moves timeline_move_def flip: z_def)
      show ?thesis using Inr r Some m z2 t entry_for_operation [OF Inr]
        by (cases z) (simp add: navigation_outcome_def append_event_parts(1) frame_transition_def flip: z_def)
    qed
  qed
  show "evidence_ok (snd ?m)" if returned: "fst ?m = Inr a"
  proof -
    have l': "entities_ok ?l'" "results_ok ?l'" using assms by (simp_all add: evidence_ok_def)
    show ?thesis
    proof (cases "reached_frame nav h")
      case None
      then have "fst z = None" using zf by simp
      then have "snd z = fst (timeline_of (el_events l))" unfolding z_def by (rule zip_navigate_none)
      then have "view_ok ?l'" using move_refines [OF h(2), of nav] h(3) by (simp add: view_ok_def h' z_def)
      then show ?thesis using None m r l' by (simp add: evidence_ok_def)
    next
      case (Some f)
      then obtain x where x: "r = Inr (Some x)" using returned m r by (cases "entry_for nav res f") auto
      have "evidence_ok (l\<lparr>el_view := None\<rparr>)" using assms by (simp add: evidence_ok_def view_ok_def)
      then have "evidence_ok (snd (append_event ?e session (l\<lparr>el_view := None\<rparr>)))"
        by (rule append_plain_ok) (simp_all add: navigation_event_parts)
      moreover have "append_event ?e session ?l' = append_event ?e session (l\<lparr>el_view := None\<rparr>)"
        by (simp add: append_event_def Let_def invalidate_view_def navigation_event_parts)
      ultimately show ?thesis using m x by simp
    qed
  qed
qed

lemma plain_parts_ok:
  assumes "evidence_ok l"
  shows "evidence_ok (snd (record_remediation p session version hash l))"
    and "evidence_ok (snd (record_refusal r session version hash l))"
    and "evidence_ok (record_embodiment c session version fp hash now l)"
    and "evidence_ok (record_intervention text session version fp hash now l)"
    and "evidence_ok (snd (append_event (plain_event now k version fp hash) session l))"
  unfolding record_remediation_def record_refusal_def record_embodiment_def record_intervention_def
  by (rule append_plain_ok [OF assms]; simp add: plain_event_def)+

lemma result_number_ok:
  assumes "evidence_ok l"
  shows "evidence_ok (snd (next_result_id fp version op l))"
  using assms by (simp add: next_result_id_def Let_def evidence_ok_def)

lemma register_baseline_ok:
  assumes "evidence_ok l" and "register_dataset_version r d l = Inr l'"
  shows "evidence_ok l'"
proof -
  obtain v where v: "register_borrowed r d (el_versions l) = Inr v" and l': "l' = l\<lparr>el_versions := v\<rparr>"
    using assms(2) by (auto simp: register_dataset_version_def bindE_Inr_iff)
  have "results_ok l" using assms(1) by (rule evidence_ids)
  then have "results_ok l'" using borrowed_version [OF v] by (auto simp: results_ok_def l')
  then show ?thesis using assms(1) by (simp add: evidence_ok_def l')
qed

lemma refresh_ok: "evidence_ok l \<Longrightarrow> refresh_borrowed r d l = Inr l' \<Longrightarrow> evidence_ok l'"
  by (auto simp: refresh_borrowed_def intro: register_baseline_ok split: if_splits)

lemma read_history_ok:
  assumes "evidence_ok l"
  shows "evidence_ok (snd (get_history original clock l))"
proof -
  obtain h where "get_history original clock l = (Inr h, l\<lparr>el_view := Some h\<rparr>)" "derived_history h"
    "history_timeline h = fst (timeline_of (el_events l))" using get_history_ok [OF assms] by blast
  then show ?thesis using assms by (simp add: evidence_ok_def view_ok_def)
qed

lemma reset_is_new: "reset_evidence l = new_evidence"
  by (cases l) (simp add: reset_evidence_def invalidate_view_def new_evidence_def)

lemma call_ledger_ok:
  assumes "evidence_ok l" and "call_ledger l c = Inr l'"
  shows "evidence_ok l'"
proof (cases c)
  case (CallCommit spec fp version j rest hint now session)
  then show ?thesis using assms ledger_commit_ok [OF assms(1)] by (auto simp: bindE_Inr_iff)
next
  case (CallNavigate nav original clock now version fp hash session)
  let ?m = "atlas_navigate nav original clock now version fp hash session l"
  obtain a where "fst ?m = Inr a" "l' = snd ?m"
    using assms(2) CallNavigate by (auto simp: effect_result_def split: sum.splits)
  then show ?thesis using navigated(2) [OF assms(1)] by blast
next
  case (CallHistory original clock)
  then show ?thesis using assms read_history_ok [OF assms(1)] by (auto simp: effect_result_def split: sum.splits)
next
  case (CallBaseline r d)
  then show ?thesis using assms register_baseline_ok by simp
next
  case (CallRefresh r d)
  then show ?thesis using assms refresh_ok by simp
next
  case (CallPreview fp version op)
  then show ?thesis using assms result_number_ok by auto
next
  case CallReset
  then show ?thesis using assms new_evidence_ok by (simp add: reset_is_new)
qed (use assms record_entities_ok [OF assms(1)] plain_parts_ok [OF assms(1)] in auto)

lemma ledger_run_ok: "foldE call_ledger new_evidence cs = Inr l \<Longrightarrow> evidence_ok l"
  by (rule foldE_invariant [where P = evidence_ok]) (auto intro: call_ledger_ok new_evidence_ok)

section \<open>Restoring a snapshot\<close>

lemma materialize_cloned: "materialize_json s r = Inr (Some j) \<Longrightarrow> clone_json j = j"
proof -
  have rows: "map clone_value rows = rows" if "mapE (cached_row m) ids = Inr rows" for m ids rows
  proof -
    have "list_all2 (\<lambda>i v. cached_row m i = Inr v) ids rows" using that by (rule mapE_Inr_all)
    then show ?thesis by (induction rule: list_all2_induct) (auto simp: cached_row_def split: option.splits)
  qed
  assume "materialize_json s r = Inr (Some j)"
  then show ?thesis
    by (auto simp: materialize_json_def bindE_Inr_iff split: option.splits version_entry.splits)
       (simp add: clone_json_def rows)
qed

lemma stored_materializes:
  assumes "versions_ok v" and "has_version v r" and "storage_kind_of v r \<noteq> Some BorrowedKind"
  shows "\<exists>j. materialize_json v r = Inr (Some j)"
proof -
  obtain e where e: "resolve_entry v r = Some e" using assms(2) by (auto simp: has_version_def js_has_def resolve_entry_def)
  obtain x where x: "materialize_json v r = Inr x" using materialize_total [OF assms(1)] by blast
  have "entry_kind e \<noteq> BorrowedKind" using assms(3) e by (simp add: storage_kind_of_def)
  then show ?thesis using x e
    by (cases e) (auto simp: materialize_json_def bindE_Inr_iff split: option.splits)
qed

text \<open>The versions a restored ledger holds: one snapshot for every result.\<close>

definition holds_results :: "(version_ref \<Rightarrow> dataset_json) \<Rightarrow> ledger_result list \<Rightarrow> versions \<Rightarrow> bool" where
  "holds_results J rs v \<longleftrightarrow>
     (\<forall>r\<in>set rs. js_get (vs_entries v) (version_key (result_ref r)) = Some (Snapshot (result_ref r) (clone_json (J (result_ref r)))))"

lemma add_results_restores:
  assumes "\<forall>r\<in>set rs. ar_dataset r = None \<and> assert_ref (result_ref r) = Inr ()" and "distinct (map ar_id (ps @ rs))"
    and "holds_results J ps (el_versions l)" and "el_results l = ps" and "el_by_id l = map (\<lambda>r. (ar_id r, r)) ps"
  shows "\<exists>v. add_results (map (\<lambda>r. r\<lparr>ar_dataset := Some (J (result_ref r))\<rparr>) rs) l =
      (Inr (), l\<lparr>el_versions := v, el_results := ps @ rs, el_by_id := map (\<lambda>r. (ar_id r, r)) (ps @ rs)\<rparr>) \<and>
    holds_results J (ps @ rs) v"
  using assms
proof (induction rs arbitrary: ps l)
  case Nil
  then show ?case by (intro exI [of _ "el_versions l"]) simp
next
  case (Cons r rs)
  let ?e = "Snapshot (result_ref r) (clone_json (J (result_ref r)))"
  let ?v = "set_entry ?e (el_versions l)"
  let ?l = "l\<lparr>el_versions := ?v, el_results := ps @ [r], el_by_id := map (\<lambda>r. (ar_id r, r)) (ps @ [r])\<rparr>"
  have r: "r\<lparr>ar_dataset := None\<rparr> = r" using Cons.prems(1) by (cases r) simp
  have ref: "result_ref (r\<lparr>ar_dataset := d\<rparr>) = result_ref r" for d by (simp add: result_ref_def)
  have "ar_id r \<notin> set (js_keys (el_by_id l))" using Cons.prems(2,5) by (auto simp: comp_def)
  then have "js_put (ar_id r) r (el_by_id l) = map (\<lambda>r. (ar_id r, r)) (ps @ [r])"
    by (simp add: js_put_fresh Cons.prems(5))
  then have "add_result (r\<lparr>ar_dataset := Some (J (result_ref r))\<rparr>) None l = Inr ?l"
    using Cons.prems(1,4)
    by (simp add: r add_result_def result_dataset_def register_result_def register_snapshot_def ref Let_def)
  moreover have "holds_results J (ps @ [r]) ?v"
    using Cons.prems(3) by (auto simp: holds_results_def set_entry_get)
  ultimately show ?case
    using Cons.IH [of "ps @ [r]" ?l] Cons.prems(1,2) by simp
qed

lemma canonical_event_same:
  assumes "results_ok l" and "e \<in> set (el_events l)" and "el_by_id l' = el_by_id l"
  shows "canonical_event l' e = e"
proof (cases "ev_result e")
  case (Some r)
  have "distinct (js_keys (el_by_id l))" using assms(1) numbered_distinct by (auto simp: results_ok_def comp_def)
  moreover have "(ar_id r, r) \<in> set (el_by_id l)" using assms(1,2) Some by (auto simp: results_ok_def)
  ultimately have "js_get (el_by_id l) (ar_id r) = Some r" by (simp add: js_get_in_set)
  then show ?thesis using Some assms(3) by (cases e) (simp add: canonical_event_def)
qed (simp add: canonical_event_def)

lemma rebuilt_own: "rebuilt k f es (Some (parts k f es)) = parts k f es"
  by (simp add: rebuilt_def Let_def parts_def)

lemma load_entities_own:
  assumes "evidence_ok l" and "el_results l' = el_results l" and "el_by_id l' = el_by_id l"
  shows "load_entities (el_events l) (Some (el_structures l)) (Some (el_observations l)) (Some (el_findings l)) (Some (el_annotations l)) l' =
    l\<lparr>el_versions := el_versions l', el_view := None, el_result_n := length (el_results l)\<rparr>"
proof -
  have "map (canonical_event l') (el_events l) = el_events l"
    using canonical_event_same [OF evidence_ids(6) [OF assms(1)] _ assms(3)] by (simp add: map_idI)
  then show ?thesis
    using assms(2,3) evidence_parts [OF assms(1)]
    by (cases l, cases l') (simp add: load_entities_def Let_def invalidate_view_def rebuilt_own)
qed

lemma restore_own:
  assumes "evidence_ok l" and "\<forall>r\<in>set (el_results l). storage_kind_of (el_versions l) (result_ref r) \<noteq> Some BorrowedKind"
  shows "\<exists>v. restore_evidence (el_results l) (el_events l) (Some (el_structures l)) (Some (el_observations l))
       (Some (el_findings l)) (Some (el_annotations l)) l =
      (Inr (), l\<lparr>el_versions := v, el_view := None, el_result_n := length (el_results l)\<rparr>) \<and>
    (\<forall>r\<in>set (el_results l). result_dataset v r = result_dataset (el_versions l) r)"
proof -
  define J where "J r = (SOME j. materialize_json (el_versions l) r = Inr (Some j))" for r
  have ok: "results_ok l" using assms(1) by (rule evidence_ids)
  have J: "materialize_json (el_versions l) (result_ref r) = Inr (Some (J (result_ref r)))" if "r \<in> set (el_results l)" for r
  proof -
    have "\<exists>j. materialize_json (el_versions l) (result_ref r) = Inr (Some j)"
      using that ok assms(2) by (intro stored_materializes) (simp_all add: results_ok_def)
    then show ?thesis unfolding J_def by (rule someI_ex)
  qed
  have none: "ar_dataset r = None" if "r \<in> set (el_results l)" for r using that ok by (simp add: results_ok_def)
  let ?restored = "map (\<lambda>r. r\<lparr>ar_dataset := Some (J (result_ref r))\<rparr>) (el_results l)"
  have m: "mapE (materialized_result (el_versions l)) (el_results l) = Inr ?restored"
    unfolding mapE_Inr_all_iff using J none by (auto simp: list_all2_conv_all_nth result_dataset_def materialized_result_def)
  let ?l0 = "l\<lparr>el_results := [], el_by_id := [], el_versions := no_versions\<rparr>"
  have "distinct (map ar_id (el_results l))" using evidence_ids(5) [OF assms(1)] by (rule numbered_distinct)
  have by_id: "map (\<lambda>r. (ar_id r, r)) (el_results l) = el_by_id l" using ok by (simp add: results_ok_def)
  have "\<exists>v. add_results ?restored ?l0 = (Inr (), ?l0\<lparr>el_versions := v, el_results := [] @ el_results l,
      el_by_id := map (\<lambda>r. (ar_id r, r)) ([] @ el_results l)\<rparr>) \<and> holds_results J ([] @ el_results l) v"
    using ok \<open>distinct (map ar_id (el_results l))\<close>
    by (intro add_results_restores) (simp_all add: results_ok_def holds_results_def)
  then obtain v where v: "add_results ?restored ?l0 = (Inr (), ?l0\<lparr>el_versions := v, el_results := el_results l,
      el_by_id := el_by_id l\<rparr>)" "holds_results J (el_results l) v" unfolding by_id append_Nil by blast
  have "restore_evidence (el_results l) (el_events l) (Some (el_structures l)) (Some (el_observations l))
       (Some (el_findings l)) (Some (el_annotations l)) l = (Inr (), l\<lparr>el_versions := v, el_view := None, el_result_n := length (el_results l)\<rparr>)"
    using m v(1) load_entities_own [OF assms(1), of "?l0\<lparr>el_versions := v, el_results := el_results l, el_by_id := el_by_id l\<rparr>"]
    by (simp add: restore_evidence_def bindS_def writeS_def)
  moreover have "result_dataset v r = result_dataset (el_versions l) r" if r: "r \<in> set (el_results l)" for r
  proof -
    have "js_get (vs_entries v) (version_key (result_ref r)) = Some (Snapshot (result_ref r) (clone_json (J (result_ref r))))"
      using v(2) r by (simp add: holds_results_def)
    then have "materialize_json v (result_ref r) = Inr (Some (J (result_ref r)))"
      using materialize_cloned [OF J [OF r]] by (simp add: materialize_json_def resolve_exact)
    then show ?thesis using J [OF r] none [OF r] by (simp add: result_dataset_def)
  qed
  ultimately show ?thesis by blast
qed

section \<open>Example\<close>

text \<open>A dataset is loaded, a result is committed, undone, and recorded in a finding.\<close>

definition sample_spec :: analysis_spec where
  "sample_spec = \<lparr>sp_fingerprint = ''fa'', sp_version = 1, sp_op = ''FILTER'', sp_operation = JObj [], sp_label = None\<rparr>"

definition sample_finding :: ledger_finding where
  "sample_finding = \<lparr>fi_id = [], fi_time = Fin 0, fi_title = ''t'', fi_observations = [], fi_fingerprint = ''fb'', fi_version = 2, fi_rest = JNull\<rparr>"

definition sample_original :: dataset where
  "sample_original = sample_dataset\<lparr>ds_columns := [\<lparr>cl_name = ''x'', cl_type = ''NUMERIC''\<rparr>]\<rparr>"

definition sample_ledger_calls :: "ledger_call list" where
  "sample_ledger_calls =
     [CallPlain (Fin 0) LoadEvent 1 ''fa'' ''h'' ''s'',
      CallBaseline ref_a sample_original,
      CallCommit sample_spec ''fb'' 2 sample_view JNull (Some ref_a) (Fin 0) ''s'',
      CallFinding sample_finding ''s'' ''h'' (Fin 0),
      CallNavigate NavUndo (Some sample_original) (\<lambda>_. Fin 0) (Fin 0) 3 ''fa'' ''h'' ''s'']"

lemma sample_ledger_runs: "\<not> isl (foldE call_ledger new_evidence sample_ledger_calls)"
  by code_simp

definition sample_ledger :: evidence_ledger where
  "sample_ledger = (case foldE call_ledger new_evidence sample_ledger_calls of Inl e \<Rightarrow> new_evidence | Inr l \<Rightarrow> l)"

lemma sample_ledger_run: "foldE call_ledger new_evidence sample_ledger_calls = Inr sample_ledger"
  using sample_ledger_runs by (auto simp: sample_ledger_def split: sum.splits)

section \<open>Properties\<close>

text \<open>
  C2: the history a ledger serves refines the timeline of its events. However the calls of a session
  mixed commits, navigation, findings, resets and reads of the cached view, as long as none threw, the
  history is built without an error, keeps the fifty last transitions, and its done and undone
  transitions are those of the zipper that replays the append-only event stream: the replayed cursor and
  the cursor that was moved in place never disagree.
\<close>

theorem ledger_history_refines_timeline:
  assumes "foldE call_ledger new_evidence cs = Inr l"
  shows "\<exists>h. get_history original clock l = (Inr h, l\<lparr>el_view := Some h\<rparr>) \<and>
    history_timeline h = fst (timeline_of (el_events l)) \<and> length (hi_stack h) \<le> 50"
proof -
  obtain h where h: "get_history original clock l = (Inr h, l\<lparr>el_view := Some h\<rparr>)" "derived_history h"
    "history_timeline h = fst (timeline_of (el_events l))" using get_history_ok [OF ledger_run_ok [OF assms]] by blast
  then show ?thesis by (auto simp: derived_history_def history_ok_def)
qed

theorem ledger_history_refines_timeline_witness:
  "\<exists>h. get_history None (\<lambda>_. Fin 0) sample_ledger = (Inr h, sample_ledger\<lparr>el_view := Some h\<rparr>) \<and>
    history_timeline h = fst (timeline_of (el_events sample_ledger))"
  using ledger_history_refines_timeline [OF sample_ledger_run, of None "\<lambda>_. Fin 0"] by blast





text \<open>
  Ids are never reused. In a ledger without a thrown call no two events, results, observations,
  findings or annotations share an id, whatever sessions wrote them and however many previews drew result
  ids in between, and every observation, finding and annotation is the one its event carries.
\<close>

theorem ledger_ids_are_unique:
  assumes "foldE call_ledger new_evidence cs = Inr l"
  shows "distinct (map ev_id (el_events l)) \<and> distinct (map ar_id (el_results l)) \<and> distinct (map ob_id (el_observations l)) \<and>
    distinct (map fi_id (el_findings l)) \<and> distinct (map an_id (el_annotations l)) \<and>
    el_findings l = parts FindingEvent ev_finding (el_events l) \<and>
    el_observations l = parts ObservationEvent ev_observation (el_events l) \<and>
    el_annotations l = parts AnnotationEvent ev_annotation (el_events l)"
  using evidence_ids(1-5) [OF ledger_run_ok [OF assms], THEN numbered_distinct] evidence_parts(2-4) [OF ledger_run_ok [OF assms]]
  by blast

theorem ledger_ids_are_unique_witness:
  "distinct (map ev_id (el_events sample_ledger)) \<and> length (el_events sample_ledger) = 4"
proof
  show "length (el_events sample_ledger) = 4" by code_simp
qed (use ledger_ids_are_unique [OF sample_ledger_run] in blast)

end
