(* ===== verification/Signed_Ticket.thy ===== *)
theory Signed_Ticket
  imports Js_Value
begin

text \<open>
  Signed room tickets (\<open>src/network/SignedTicket.ts\<close>): claims that are encoded, signed with an HMAC
  and checked again at admission, and the guard that consumes each ticket's nonce once. The HMAC and
  the encoding of the claims (base64url of their JSON text) are Node's and are parameters, the record
  \<open>crypto\<close>. Equality of strings in constant time is modelled on their UTF-8 bytes.
\<close>

section \<open>Claims\<close>

datatype network_role = ObserverRole | ParticipantRole

fun role_name :: "network_role \<Rightarrow> string" where
  "role_name ObserverRole = ''observer''"
| "role_name ParticipantRole = ''participant''"

definition role_of_value :: "js_value \<Rightarrow> network_role option" where
  "role_of_value v = (if v = JStr ''observer'' then Some ObserverRole
     else if v = JStr ''participant'' then Some ParticipantRole else None)"

record ticket_claims =
  tc_version :: js_number
  tc_room :: string
  tc_role :: network_role
  tc_issued :: rat
  tc_exp :: rat
  tc_nonce :: string

datatype ticket_error = MalformedTicket | UnsupportedVersion | InvalidRole | MissingNonce | ExpiredTicket | FutureIssued
  | RoomMismatch | MalformedSignature | InvalidSignature

record crypto =
  cr_hmac :: "string \<Rightarrow> string \<Rightarrow> string"
  cr_encode :: "js_value \<Rightarrow> string"
  cr_decode :: "string \<Rightarrow> js_value option"

definition future_skew :: rat where
  "future_skew = 60000"

section \<open>Comparison in constant time\<close>

definition utf8_char :: "char \<Rightarrow> nat list" where
  "utf8_char c = (let n = of_char c in if n < 128 then [n] else [192 + n div 64, 128 + n mod 64])"

definition utf8 :: "string \<Rightarrow> nat list" where
  "utf8 s = concat (map utf8_char s)"

definition padded :: "nat \<Rightarrow> nat list \<Rightarrow> nat list" where
  "padded n bs = bs @ replicate (n - length bs) 0"

definition timing_safe_equal :: "string \<Rightarrow> string \<Rightarrow> bool" where
  "timing_safe_equal a b = (let x = utf8 a; y = utf8 b; n = max (length x) (length y)
     in padded n x = padded n y \<and> length x = length y)"

lemma utf8_simps [simp]: "utf8 [] = []" "utf8 (c # s) = utf8_char c @ utf8 s"
  by (simp_all add: utf8_def)

lemma of_char_byte [simp]: "(of_char c :: nat) < 256"
  by (cases c) (simp add: of_char_def)

lemma utf8_char_inj: "utf8_char c @ s = utf8_char d @ t \<Longrightarrow> c = d \<and> s = t"
proof -
  define m n where "m = (of_char c :: nat)" and "n = (of_char d :: nat)"
  assume "utf8_char c @ s = utf8_char d @ t"
  then have eq: "(if m < 128 then [m] else [192 + m div 64, 128 + m mod 64]) @ s =
      (if n < 128 then [n] else [192 + n div 64, 128 + n mod 64]) @ t"
    by (simp only: utf8_char_def Let_def m_def n_def)
  have "m = n \<and> s = t"
  proof (cases "m < 128"; cases "n < 128")
    assume "\<not> m < 128" "\<not> n < 128"
    then have "m div 64 = n div 64" "m mod 64 = n mod 64" "s = t" using eq by simp_all
    moreover from this have "m = n" by (metis div_mult_mod_eq)
    ultimately show ?thesis by simp
  qed (use eq in auto)
  then show ?thesis by (simp add: m_def n_def)
qed

lemma utf8_inj: "utf8 a = utf8 b \<Longrightarrow> a = b"
proof (induction a arbitrary: b)
  case Nil
  then show ?case by (cases b) (auto simp: utf8_char_def Let_def split: if_splits)
next
  case (Cons c a)
  show ?case
  proof (cases b)
    case Nil
    then show ?thesis using Cons.prems by (auto simp: utf8_char_def Let_def split: if_splits)
  next
    case (Cons d b')
    then have "c = d" "utf8 a = utf8 b'" using Cons.prems utf8_char_inj by auto
    then show ?thesis using Cons.IH Cons by simp
  qed
qed

lemma timing_safe_equal_iff [simp]: "timing_safe_equal a b \<longleftrightarrow> a = b"
  by (auto simp: timing_safe_equal_def Let_def padded_def intro: utf8_inj)

section \<open>Verification\<close>

fun js_split :: "char \<Rightarrow> string \<Rightarrow> string list" where
  "js_split c [] = [[]]"
| "js_split c (x # xs) = (if x = c then [] # js_split c xs
     else (case js_split c xs of [] \<Rightarrow> [[x]] | p # ps \<Rightarrow> (x # p) # ps))"

definition hex_char :: "char \<Rightarrow> bool" where
  "hex_char c \<longleftrightarrow> c \<in> set ''0123456789abcdefABCDEF''"

definition hmac_shape :: "string \<Rightarrow> bool" where
  "hmac_shape s \<longleftrightarrow> length s = 64 \<and> list_all hex_char s"

fun as_number :: "js_value \<Rightarrow> js_number option" where
  "as_number (JNum x) = Some x"
| "as_number _ = None"

fun as_finite :: "js_value \<Rightarrow> rat option" where
  "as_finite (JNum (Fin x)) = Some x"
| "as_finite _ = None"

fun as_text :: "js_value \<Rightarrow> string option" where
  "as_text (JStr s) = (if s = [] then None else Some s)"
| "as_text _ = None"

definition need_claim :: "'a option \<Rightarrow> ticket_error \<Rightarrow> string \<Rightarrow> (ticket_error \<times> string) + 'a" where
  "need_claim x k msg = (case x of None \<Rightarrow> Inl (k, msg) | Some y \<Rightarrow> Inr y)"

definition validate_claims :: "js_value \<Rightarrow> (ticket_error \<times> string) + ticket_claims" where
  "validate_claims v =
     bindE (guardE (js_is_object v) (MalformedTicket, ''corrupt ticket claims schema'')) (\<lambda>_.
     bindE (need_claim (as_number (js_prop v ''version'')) MalformedTicket ''corrupt ticket claims schema: version missing'') (\<lambda>version.
     bindE (need_claim (as_text (js_prop v ''room'')) MalformedTicket ''corrupt ticket claims schema: room missing'') (\<lambda>room.
     bindE (need_claim (role_of_value (js_prop v ''role'')) InvalidRole ''invalid role in ticket'') (\<lambda>role.
     bindE (need_claim (as_finite (js_prop v ''issuedAt'')) MalformedTicket ''corrupt ticket claims schema: issuedAt missing'') (\<lambda>issued.
     bindE (need_claim (as_finite (js_prop v ''exp'')) MalformedTicket ''corrupt ticket claims schema: exp missing'') (\<lambda>expiry.
     bindE (need_claim (as_text (js_prop v ''nonce'')) MissingNonce ''ticket missing required nonce'') (\<lambda>nonce.
     Inr \<lparr>tc_version = version, tc_room = room, tc_role = role, tc_issued = issued, tc_exp = expiry, tc_nonce = nonce\<rparr>)))))))"

text \<open>The empty room stands for the absent one: both are falsy.\<close>

definition check_claims :: "ticket_claims \<Rightarrow> string \<Rightarrow> int \<Rightarrow> (ticket_error \<times> string) + ticket_claims" where
  "check_claims c room now =
     (if tc_version c \<noteq> Fin 1 then Inl (UnsupportedVersion, ''unsupported ticket version'')
      else if of_int now > tc_exp c then Inl (ExpiredTicket, ''ticket expired'')
      else if of_int now < fsub (tc_issued c) future_skew then Inl (FutureIssued, ''ticket issue timestamp is in the future'')
      else if room \<noteq> [] \<and> tc_room c \<noteq> room then Inl (RoomMismatch, ''ticket room scope mismatch'')
      else Inr c)"

definition verify_ticket :: "crypto \<Rightarrow> string \<Rightarrow> string \<Rightarrow> string \<Rightarrow> int \<Rightarrow> (ticket_error \<times> string) + ticket_claims" where
  "verify_ticket cr ticket secret room now =
     (if ticket = [] then Inl (MalformedTicket, ''ticket missing or invalid'')
      else case js_split (CHR ''.'') ticket of
        [payload, signature] \<Rightarrow>
          if payload = [] \<or> signature = [] then Inl (MalformedTicket, ''invalid ticket components'')
          else if \<not> hmac_shape signature
            then Inl (MalformedSignature, ''invalid HMAC signature shape: signature must be 64 hex characters'')
          else if \<not> timing_safe_equal signature (cr_hmac cr secret payload)
            then Inl (InvalidSignature, ''invalid ticket cryptographic signature'')
          else (case cr_decode cr payload of
              None \<Rightarrow> Inl (MalformedTicket, ''corrupt ticket payload JSON'')
            | Some v \<Rightarrow> bindE (validate_claims v) (\<lambda>c. check_claims c room now))
      | _ \<Rightarrow> Inl (MalformedTicket, ''malformed ticket structure (signature missing)''))"

section \<open>Creation\<close>

datatype create_error = RoomRequired | RoleRequired js_value | ExpRequired

definition ticket_value :: "string \<Rightarrow> network_role \<Rightarrow> js_number \<Rightarrow> js_number \<Rightarrow> string \<Rightarrow> js_value" where
  "ticket_value room role issued expiry nonce =
     JObj [(''version'', JNum (Fin 1)), (''room'', JStr room), (''role'', JStr (role_name role)),
       (''issuedAt'', JNum issued), (''exp'', JNum expiry), (''nonce'', JStr nonce)]"

definition create_ticket ::
  "crypto \<Rightarrow> string \<Rightarrow> js_value \<Rightarrow> js_number \<Rightarrow> js_number option \<Rightarrow> string option \<Rightarrow> string \<Rightarrow> int \<Rightarrow> string \<Rightarrow> create_error + string" where
  "create_ticket cr room role expiry issued nonce secret now fresh =
     bindE (guardE (room \<noteq> []) RoomRequired) (\<lambda>_.
     bindE (case role_of_value role of None \<Rightarrow> Inl (RoleRequired role) | Some r \<Rightarrow> Inr r) (\<lambda>r.
     bindE (guardE (as_finite (JNum expiry) \<noteq> None) ExpRequired) (\<lambda>_.
     let payload = cr_encode cr (ticket_value room r (case issued of None \<Rightarrow> Fin (of_int now) | Some i \<Rightarrow> i) expiry
           (case nonce of None \<Rightarrow> fresh | Some n \<Rightarrow> n))
     in Inr (payload @ CHR ''.'' # cr_hmac cr secret payload))))"

section \<open>The replay guard\<close>

type_synonym nonces = "(string, rat) js_map"

definition consume_nonce :: "string \<Rightarrow> rat \<Rightarrow> nonces \<Rightarrow> bool \<times> nonces" where
  "consume_nonce nonce expiry m = (if nonce = [] \<or> js_has m nonce then (False, m) else (True, js_put nonce expiry m))"

definition clear_expired :: "int \<Rightarrow> nonces \<Rightarrow> nonces" where
  "clear_expired now m = filter (\<lambda>p. \<not> of_int now > snd p) m"

definition nonce_count :: "nonces \<Rightarrow> nat" where
  "nonce_count m = length m"

section \<open>Properties\<close>

lemma js_split_free: "c \<notin> set q \<Longrightarrow> js_split c q = [q]"
  by (induction q) auto

lemma js_split_sep: "c \<notin> set p \<Longrightarrow> c \<notin> set q \<Longrightarrow> js_split c (p @ c # q) = [p, q]"
  by (induction p) (auto simp: js_split_free)

lemma js_split_not_Nil [simp]: "js_split c s \<noteq> []"
  by (cases s) (auto split: list.split)

lemma js_split_one: "js_split c s = [q] \<Longrightarrow> s = q"
  by (induction s arbitrary: q) (auto split: if_splits list.splits)

lemma js_split_two: "js_split c s = [p, q] \<Longrightarrow> s = p @ c # q"
proof (induction s arbitrary: p)
  case (Cons x s)
  show ?case
  proof (cases "x = c")
    case True
    then show ?thesis using Cons.prems js_split_one [of c s q] by simp
  next
    case False
    obtain p' ps where "js_split c s = p' # ps" by (cases "js_split c s") auto
    then show ?thesis using Cons False by auto
  qed
qed simp

lemma role_of_name [simp]: "role_of_value (JStr (role_name r)) = Some r"
  by (cases r) (simp_all add: role_of_value_def)

lemma validate_ticket_value:
  assumes "room \<noteq> []" and "nonce \<noteq> []"
  shows "validate_claims (ticket_value room r (Fin i) (Fin e) nonce) =
    Inr \<lparr>tc_version = Fin 1, tc_room = room, tc_role = r, tc_issued = i, tc_exp = e, tc_nonce = nonce\<rparr>"
  using assms by (simp add: validate_claims_def ticket_value_def need_claim_def guardE_def)

lemma hex_no_dot: "hmac_shape s \<Longrightarrow> CHR ''.'' \<notin> set s \<and> s \<noteq> []"
proof -
  have "\<not> hex_char (CHR ''.'')" by code_simp
  then show "hmac_shape s \<Longrightarrow> ?thesis" by (auto simp: hmac_shape_def list_all_iff)
qed


text \<open>What verification guarantees.\<close>

lemma verified_ticket:
  assumes "verify_ticket cr t secret room now = Inr c"
  shows "\<exists>p v. t = p @ CHR ''.'' # cr_hmac cr secret p \<and> cr_decode cr p = Some v \<and> validate_claims v = Inr c \<and>
    check_claims c room now = Inr c"
proof -
  obtain p s where ps: "js_split (CHR ''.'') t = [p, s]"
    using assms by (auto simp: verify_ticket_def split: if_splits list.splits)
  then have "t = p @ CHR ''.'' # s" by (rule js_split_two)
  moreover obtain v c0 where "s = cr_hmac cr secret p" "cr_decode cr p = Some v" "validate_claims v = Inr c0"
    "check_claims c0 room now = Inr c"
    using assms ps by (auto simp: verify_ticket_def bindE_Inr_iff split: if_splits option.splits)
  moreover from this have "c0 = c" by (auto simp: check_claims_def split: if_splits)
  ultimately show ?thesis by blast
qed

lemma checked_claims: "check_claims c room now = Inr c' \<Longrightarrow> c' = c \<and> of_int now \<le> tc_exp c \<and> (room = [] \<or> tc_room c = room)"
  by (auto simp: check_claims_def split: if_splits)

lemma as_text_Some: "as_text v = Some s \<Longrightarrow> s \<noteq> []"
  by (cases v) (auto split: if_splits)

lemma valid_nonce: "validate_claims v = Inr c \<Longrightarrow> tc_nonce c \<noteq> []"
  by (auto simp: validate_claims_def bindE_Inr_iff need_claim_def dest: as_text_Some split: option.splits)

text \<open>The claims of a ticket do not depend on when it is verified, or for which room.\<close>

lemma verified_unique: "verify_ticket cr t secret room now = Inr c \<Longrightarrow> verify_ticket cr t secret room' now' = Inr c' \<Longrightarrow> c' = c"
  by (auto simp: verify_ticket_def bindE_Inr_iff split: if_splits list.splits option.splits dest!: checked_claims)

section \<open>Example\<close>

text \<open>An encoding of the claims of one room, and a constant HMAC, that satisfy the laws.\<close>

definition toy_crypto :: crypto where
  "toy_crypto = \<lparr>cr_hmac = (\<lambda>k m. replicate 64 (CHR ''a'')), cr_encode = (\<lambda>v. ''claims''),
     cr_decode = (\<lambda>p. Some (ticket_value ''r1'' ObserverRole (Fin 0) (Fin 100) ''n1''))\<rparr>"


end
