(* ===== verification/Signalling_Core.thy ===== *)
theory Signalling_Core
  imports Signed_Ticket
begin

text \<open>
  The collaboration gateway (\<open>src/network/SignallingServerCore.ts\<close>): rooms of peers, who are admitted
  against connection limits, authenticate with a secret or a ticket, and relay messages their role
  allows. A socket is the environment: its events (connection, message, timeout, close) come in any
  order, what is sent to it is an output, and whether it is open is asked through \<open>ready\<close>. One handler
  reads the clock once. The parse of a frame and the length of a serialised frame (\<open>wire\<close>) are
  arguments.
\<close>

section \<open>Configuration\<close>

datatype security_profile = Development | ResearchPreview | Production

datatype peer_capability = WebrtcNegotiate | StateBroadcast | DataOperation | Presence

datatype origin_rule = OriginList "string list" | OriginTest "string \<Rightarrow> bool"

record token_verdict =
  tv_valid :: bool
  tv_role :: js_value
  tv_error :: "string option"

record registry_options =
  op_bytes :: int
  op_room_peers :: int
  op_pending :: int
  op_rooms :: int
  op_per_ip :: int
  op_total :: int
  op_rate :: int
  op_failures :: int
  op_auth_timeout :: int
  op_idle :: int
  op_origins :: "origin_rule option"
  op_secret :: string
  op_observer_secret :: string
  op_validator :: "(string \<Rightarrow> string \<Rightarrow> token_verdict) option"
  op_profile :: "security_profile option"
  op_open :: "bool option"
  op_url_token :: "bool option"

definition auth_window :: int where
  "auth_window = 60 * 1000"

definition default_options :: registry_options where
  "default_options = \<lparr>op_bytes = 64 * 1024, op_room_peers = 50, op_pending = 10, op_rooms = 100, op_per_ip = 10,
     op_total = 500, op_rate = 50, op_failures = 5, op_auth_timeout = 5000, op_idle = 10 * 60 * 1000,
     op_origins = None, op_secret = [], op_observer_secret = [], op_validator = None, op_profile = None,
     op_open = None, op_url_token = None\<rparr>"

definition resolved_profile :: "registry_options \<Rightarrow> security_profile" where
  "resolved_profile opts = (case op_profile opts of None \<Rightarrow> ResearchPreview | Some p \<Rightarrow> p)"

definition open_mode :: "registry_options \<Rightarrow> bool" where
  "open_mode opts = (case op_open opts of None \<Rightarrow> resolved_profile opts = Development | Some b \<Rightarrow> b)"

definition url_tokens :: "registry_options \<Rightarrow> bool" where
  "url_tokens opts = (case op_url_token opts of None \<Rightarrow> resolved_profile opts \<noteq> Production | Some b \<Rightarrow> b)"

definition has_any_auth :: "registry_options \<Rightarrow> bool" where
  "has_any_auth opts \<longleftrightarrow> op_secret opts \<noteq> [] \<or> op_observer_secret opts \<noteq> [] \<or> op_validator opts \<noteq> None"

datatype warning = ForcedOpenMode security_profile | NoAuthentication | ProductionWithoutAuth | ProductionWithoutOrigins
  | DevelopmentOpenMode

definition security_warnings :: "registry_options \<Rightarrow> warning list" where
  "security_warnings opts = (let p = resolved_profile opts in
     (if open_mode opts \<and> p \<noteq> Development then [ForcedOpenMode p] else []) @
     (if \<not> has_any_auth opts \<and> \<not> open_mode opts then [NoAuthentication] else []) @
     (if p = Production \<and> \<not> has_any_auth opts then [ProductionWithoutAuth] else []) @
     (if p = Production \<and> op_origins opts = None then [ProductionWithoutOrigins] else []) @
     (if p = Development \<and> open_mode opts then [DevelopmentOpenMode] else []))"

record security_report =
  sd_profile :: security_profile
  sd_open :: bool
  sd_url_token :: bool
  sd_secret :: bool
  sd_observer_secret :: bool
  sd_validator :: bool
  sd_origins :: bool
  sd_warnings :: "warning list"
  sd_ok :: bool

definition security_diagnostic :: "registry_options \<Rightarrow> security_report" where
  "security_diagnostic opts =
     \<lparr>sd_profile = resolved_profile opts, sd_open = open_mode opts, sd_url_token = url_tokens opts,
      sd_secret = (op_secret opts \<noteq> []), sd_observer_secret = (op_observer_secret opts \<noteq> []),
      sd_validator = (op_validator opts \<noteq> None), sd_origins = (op_origins opts \<noteq> None),
      sd_warnings = security_warnings opts, sd_ok = (security_warnings opts = [])\<rparr>"

section \<open>Messages\<close>

fun role_capabilities :: "network_role \<Rightarrow> peer_capability list" where
  "role_capabilities ParticipantRole = [WebrtcNegotiate, StateBroadcast, DataOperation, Presence]"
| "role_capabilities ObserverRole = [WebrtcNegotiate, Presence]"

definition identifier_char :: "char \<Rightarrow> bool" where
  "identifier_char c = (let n = of_char c :: nat in 65 \<le> n \<and> n \<le> 90 \<or> 97 \<le> n \<and> n \<le> 122 \<or> 48 \<le> n \<and> n \<le> 57 \<or>
     n \<in> {46, 95, 58, 45})"

definition valid_identifier :: "string \<Rightarrow> bool" where
  "valid_identifier i \<longleftrightarrow> i \<noteq> [] \<and> length i \<le> 128 \<and> list_all identifier_char i"

fun is_text :: "js_value \<Rightarrow> bool" where
  "is_text (JStr s) = True"
| "is_text _ = False"

fun sdp_ok :: "js_value \<Rightarrow> bool" where
  "sdp_ok JUndefined = True"
| "sdp_ok (JStr s) = (length s < 64 * 1024)"
| "sdp_ok _ = False"

definition valid_payload :: "js_value \<Rightarrow> bool" where
  "valid_payload d \<longleftrightarrow> js_is_object d \<and> (case js_prop d ''type'' of
     JStr t \<Rightarrow>
       if t = ''auth'' then is_text (js_prop d ''token'')
       else if t = ''offer'' \<or> t = ''answer'' then sdp_ok (js_prop d ''sdp'')
       else if t = ''ice'' then js_prop d ''candidate'' \<noteq> JUndefined
       else if t = ''join'' \<or> t = ''leave'' then False
       else if t = ''ping'' \<or> t = ''pong'' then True
       else if t = ''state'' then js_prop d ''delta'' \<noteq> JUndefined \<or> js_prop d ''state'' \<noteq> JUndefined
       else t \<in> set [''datasetOperation'', ''annotations_add'', ''annotations_remove'', ''bookmarks_add'',
         ''bookmarks_remove'', ''tour_step'']
   | _ \<Rightarrow> False)"

definition required_capability :: "js_value \<Rightarrow> peer_capability option" where
  "required_capability d = (if \<not> js_is_object d then None
     else case js_prop d ''type'' of
       JStr t \<Rightarrow>
         if t \<in> set [''offer'', ''answer'', ''ice'', ''ping'', ''pong''] then Some WebrtcNegotiate
         else if t \<in> set [''state'', ''annotations_add'', ''annotations_remove'', ''bookmarks_add'', ''bookmarks_remove'',
           ''tour_step''] then Some StateBroadcast
         else if t = ''datasetOperation'' then Some DataOperation
         else None
     | _ \<Rightarrow> None)"

definition valid_message :: "js_value \<Rightarrow> bool" where
  "valid_message m \<longleftrightarrow> js_is_object m \<and>
     (js_prop m ''to'' = JUndefined \<or> is_text (js_prop m ''to'')) \<and>
     (js_prop m ''from'' = JUndefined \<or> is_text (js_prop m ''from'')) \<and>
     (js_prop m ''data'' = JUndefined \<or> valid_payload (js_prop m ''data''))"

section \<open>State\<close>

text \<open>
  A peer entry with the variables its socket's handlers close over: the role that was requested,
  whether its failure was charged, and whether its timeout is still to come.
\<close>

record peer =
  pe_role :: network_role
  pe_capabilities :: "peer_capability list"
  pe_ip :: string
  pe_auth :: bool
  pe_connected :: int
  pe_stamps :: "int list"
  pe_requested :: network_role
  pe_charged :: bool
  pe_timer :: bool

type_synonym room = "(string, peer) js_map"

record registry =
  rg_rooms :: "(string, room) js_map"
  rg_pending :: int
  rg_ips :: "(string, int) js_map"
  rg_failures :: "(string, int \<times> int) js_map"
  rg_active :: "(string, int) js_map"
  rg_nonces :: nonces

definition new_registry :: registry where
  "new_registry = \<lparr>rg_rooms = [], rg_pending = 0, rg_ips = [], rg_failures = [], rg_active = [], rg_nonces = []\<rparr>"

text \<open>What a handler does to sockets: a frame for a peer of a room, or the close of its own socket.\<close>

datatype signal = Sent string string string js_value | Closed int string

definition count_room :: "(peer \<Rightarrow> bool) \<Rightarrow> room \<Rightarrow> nat" where
  "count_room P m = length (filter P (map snd m))"

definition count_peers :: "(peer \<Rightarrow> bool) \<Rightarrow> registry \<Rightarrow> nat" where
  "count_peers P g = sum_list (map (count_room P) (map snd (rg_rooms g)))"

definition total_peers :: "registry \<Rightarrow> nat" where
  "total_peers g = count_peers pe_auth g"

definition room_count :: "registry \<Rightarrow> nat" where
  "room_count g = length (rg_rooms g)"

definition failure_count :: "int \<Rightarrow> string \<Rightarrow> registry \<Rightarrow> int" where
  "failure_count now ip g = (case js_get (rg_failures g) ip of None \<Rightarrow> 0 | Some (n, until) \<Rightarrow> if now > until then 0 else n)"

definition record_failure :: "int \<Rightarrow> string \<Rightarrow> registry \<Rightarrow> registry" where
  "record_failure now ip g =
     (let fresh = (1, now + auth_window);
          r = (case js_get (rg_failures g) ip of None \<Rightarrow> fresh
            | Some (n, until) \<Rightarrow> if now > until then fresh else (n + 1, until))
      in g\<lparr>rg_failures := js_put ip r (rg_failures g)\<rparr>)"

definition idle_room :: "registry_options \<Rightarrow> int \<Rightarrow> registry \<Rightarrow> string \<Rightarrow> room \<Rightarrow> bool" where
  "idle_room opts now g r m \<longleftrightarrow> m = [] \<and>
     now - (case js_get (rg_active g) r of None \<Rightarrow> 0 | Some t \<Rightarrow> t) > op_idle opts"

definition cleanup_idle :: "registry_options \<Rightarrow> int \<Rightarrow> registry \<Rightarrow> registry" where
  "cleanup_idle opts now g =
     (let gone = map fst (filter (\<lambda>(r, m). idle_room opts now g r m) (rg_rooms g))
      in g\<lparr>rg_nonces := clear_expired now (rg_nonces g),
           rg_rooms := filter (\<lambda>(r, m). r \<notin> set gone) (rg_rooms g),
           rg_active := filter (\<lambda>(r, t). r \<notin> set gone) (rg_active g)\<rparr>)"

section \<open>Authorisation\<close>

definition requested_role :: "js_value \<Rightarrow> network_role" where
  "requested_role v = (if v = JUndefined then ParticipantRole
     else case role_of_value v of None \<Rightarrow> ObserverRole | Some r \<Rightarrow> r)"

definition check_origin :: "registry_options \<Rightarrow> string option \<Rightarrow> bool" where
  "check_origin opts origin = (case op_origins opts of None \<Rightarrow> True
     | Some rule \<Rightarrow> (case origin of None \<Rightarrow> True
        | Some s \<Rightarrow> s = [] \<or> (case rule of OriginList xs \<Rightarrow> s \<in> set xs | OriginTest f \<Rightarrow> f s)))"

text \<open>A signed ticket: its nonce is consumed with the admission.\<close>

definition authorize_ticket :: "crypto \<Rightarrow> registry_options \<Rightarrow> int \<Rightarrow> string \<Rightarrow> string \<Rightarrow> nonces \<Rightarrow> (string + network_role) \<times> nonces" where
  "authorize_ticket cr opts now room token used = (case verify_ticket cr token (op_secret opts) room now of
     Inl (k, e) \<Rightarrow> (Inl e, used)
   | Inr c \<Rightarrow> (case consume_nonce (tc_nonce c) (tc_exp c) used of
       (False, used') \<Rightarrow> (Inl ''ticket replay detected (nonce already consumed)'', used')
     | (True, used') \<Rightarrow> (Inr (tc_role c), used')))"

definition scoped_parts :: "string \<Rightarrow> string \<times> string" where
  "scoped_parts token = (takeWhile (\<lambda>c. c \<noteq> CHR '':'') token, tl (dropWhile (\<lambda>c. c \<noteq> CHR '':'') token))"

definition authorize_secret :: "registry_options \<Rightarrow> string \<Rightarrow> network_role \<Rightarrow> string + network_role" where
  "authorize_secret opts token requested =
     (let (secret_part, role_part) = scoped_parts token in
      if op_observer_secret opts \<noteq> [] \<and> timing_safe_equal token (op_observer_secret opts) then Inr ObserverRole
      else if op_secret opts \<noteq> [] \<and> CHR '':'' \<in> set token \<and> timing_safe_equal secret_part (op_secret opts)
        then (if role_part = ''observer'' then Inr ObserverRole
              else if role_part = ''participant'' then Inr ParticipantRole
              else Inl ''invalid scoped token role'')
      else if op_secret opts \<noteq> [] \<and> timing_safe_equal token (op_secret opts) then Inr requested
      else Inl ''invalid token'')"

definition authorize_peer ::
  "crypto \<Rightarrow> registry_options \<Rightarrow> int \<Rightarrow> string \<Rightarrow> string option \<Rightarrow> network_role \<Rightarrow> nonces \<Rightarrow> (string + network_role) \<times> nonces" where
  "authorize_peer cr opts now room token requested used =
     (case (op_validator opts, token) of
        (Some f, Some (c # cs)) \<Rightarrow>
          let v = f (c # cs) room in
          ((if \<not> tv_valid v then Inl (case tv_error v of None \<Rightarrow> ''invalid token'' | Some e \<Rightarrow> e)
            else Inr (case role_of_value (tv_role v) of None \<Rightarrow> requested | Some r \<Rightarrow> r)), used)
      | _ \<Rightarrow>
          if op_secret opts \<noteq> [] \<or> op_observer_secret opts \<noteq> []
          then (case token of
                  None \<Rightarrow> (Inl ''token required'', used)
                | Some t \<Rightarrow>
                    if op_secret opts \<noteq> [] \<and> CHR ''.'' \<in> set t then authorize_ticket cr opts now room t used
                    else (authorize_secret opts t requested, used))
          else if \<not> open_mode opts then (Inl ''token required'', used)
          else (Inr requested, used))"

section \<open>Relaying\<close>

type_synonym wire = "string \<Rightarrow> string \<Rightarrow> js_value \<Rightarrow> int"

definition can_relay :: "peer \<Rightarrow> js_value \<Rightarrow> bool" where
  "can_relay e d = (case required_capability d of None \<Rightarrow> False | Some c \<Rightarrow> c \<in> set (pe_capabilities e))"

definition listeners :: "(string \<Rightarrow> bool) \<Rightarrow> room \<Rightarrow> string list" where
  "listeners ready m = map fst (filter (\<lambda>p. pe_auth (snd p) \<and> ready (fst p)) m)"

definition touch_room :: "int \<Rightarrow> string \<Rightarrow> registry \<Rightarrow> registry" where
  "touch_room now r g = g\<lparr>rg_active := js_put r now (rg_active g)\<rparr>"

definition broadcast ::
  "wire \<Rightarrow> registry_options \<Rightarrow> (string \<Rightarrow> bool) \<Rightarrow> int \<Rightarrow> string \<Rightarrow> string \<Rightarrow> peer \<Rightarrow> js_value \<Rightarrow> registry \<Rightarrow> registry \<times> signal list" where
  "broadcast wire opts ready now r sender e d g =
     (if \<not> can_relay e d then (g, [])
      else case js_get (rg_rooms g) r of None \<Rightarrow> (g, [])
      | Some m \<Rightarrow>
          if wire r sender d > op_bytes opts then (g, [])
          else (touch_room now r g, map (\<lambda>i. Sent r i sender d) (listeners ready m)))"

definition send_to ::
  "wire \<Rightarrow> registry_options \<Rightarrow> (string \<Rightarrow> bool) \<Rightarrow> int \<Rightarrow> string \<Rightarrow> string \<Rightarrow> string \<Rightarrow> peer \<Rightarrow> js_value \<Rightarrow> registry \<Rightarrow> registry \<times> signal list" where
  "send_to wire opts ready now r target sender e d g =
     (if \<not> can_relay e d then (g, [])
      else case js_get (rg_rooms g) r of None \<Rightarrow> (g, [])
      | Some m \<Rightarrow> (case js_get m target of None \<Rightarrow> (g, [])
          | Some p \<Rightarrow>
              if pe_auth p \<and> ready target \<and> wire r sender d \<le> op_bytes opts
              then (touch_room now r g, [Sent r target sender d]) else (g, [])))"

definition join_note :: "network_role \<Rightarrow> js_value" where
  "join_note role = JObj [(''type'', JStr ''join''), (''role'', JStr (role_name role))]"

definition leave_note :: js_value where
  "leave_note = JObj [(''type'', JStr ''leave'')]"

text \<open>Each authenticated peer hears of the new one, and the new one of each of them.\<close>

definition announce ::
  "wire \<Rightarrow> registry_options \<Rightarrow> (string \<Rightarrow> bool) \<Rightarrow> string \<Rightarrow> string \<Rightarrow> network_role \<Rightarrow> room \<Rightarrow> signal list" where
  "announce wire opts ready r i role m = concat (map (\<lambda>p.
     if fst p \<noteq> i \<and> pe_auth (snd p) \<and> ready (fst p)
     then (if wire r i (join_note role) \<le> op_bytes opts then [Sent r (fst p) i (join_note role)] else []) @
       [Sent r i (fst p) (join_note (pe_role (snd p)))]
     else []) m)"

section \<open>Connections\<close>

definition set_room :: "string \<Rightarrow> room \<Rightarrow> registry \<Rightarrow> registry" where
  "set_room r m g = g\<lparr>rg_rooms := js_put r m (rg_rooms g)\<rparr>"

definition ip_count :: "string \<Rightarrow> registry \<Rightarrow> int" where
  "ip_count ip g = (case js_get (rg_ips g) ip of None \<Rightarrow> 0 | Some n \<Rightarrow> n)"

definition new_peer :: "network_role \<Rightarrow> string \<Rightarrow> bool \<Rightarrow> int \<Rightarrow> network_role \<Rightarrow> peer" where
  "new_peer role ip auth now requested =
     \<lparr>pe_role = role, pe_capabilities = role_capabilities role, pe_ip = ip, pe_auth = auth, pe_connected = now,
      pe_stamps = [], pe_requested = requested, pe_charged = False, pe_timer = \<not> auth\<rparr>"

definition register_peer ::
  "wire \<Rightarrow> registry_options \<Rightarrow> (string \<Rightarrow> bool) \<Rightarrow> int \<Rightarrow> string \<Rightarrow> string \<Rightarrow> string \<Rightarrow> network_role \<Rightarrow> bool \<Rightarrow> network_role \<Rightarrow> room
    \<Rightarrow> registry \<Rightarrow> registry \<times> signal list" where
  "register_peer wire opts ready now ip r i role auth requested m g =
     (let m' = js_put i (new_peer role ip auth now requested) m;
          g1 = set_room r m' (touch_room now r (g\<lparr>rg_ips := js_put ip (ip_count ip g + 1) (rg_ips g)\<rparr>));
          g2 = (if auth then g1 else g1\<lparr>rg_pending := rg_pending g1 + 1\<rparr>)
      in (g2, if auth then announce wire opts ready r i role m' else []))"

definition needs_token :: "registry_options \<Rightarrow> bool" where
  "needs_token opts \<longleftrightarrow> op_secret opts \<noteq> [] \<or> op_observer_secret opts \<noteq> [] \<or> \<not> open_mode opts"

definition url_token :: "registry_options \<Rightarrow> string option \<Rightarrow> bool" where
  "url_token opts token \<longleftrightarrow> token \<noteq> None \<and> token \<noteq> Some [] \<and> url_tokens opts"

text \<open>The admission to a room that exists.\<close>

definition admit_peer ::
  "crypto \<Rightarrow> wire \<Rightarrow> registry_options \<Rightarrow> (string \<Rightarrow> bool) \<Rightarrow> int \<Rightarrow> string \<Rightarrow> string \<Rightarrow> string \<Rightarrow> string option \<Rightarrow> network_role \<Rightarrow> room
    \<Rightarrow> registry \<Rightarrow> registry \<times> signal list" where
  "admit_peer cr wire opts ready now ip r i token requested m g =
     (if int (length m) \<ge> op_room_peers opts then (g, [Closed 1008 ''room full''])
      else if needs_token opts \<and> \<not> url_token opts token \<and> int (count_room (\<lambda>p. \<not> pe_auth p) m) \<ge> op_pending opts
        then (g, [Closed 1008 ''too many unauthenticated peers in room''])
      else if js_has m i then (g, [Closed 4002 ''peerId in use''])
      else if url_token opts token
        then (case authorize_peer cr opts now r token requested (rg_nonces g) of
            (Inl reason, used) \<Rightarrow> (record_failure now ip (g\<lparr>rg_nonces := used\<rparr>), [Closed 4001 reason])
          | (Inr role, used) \<Rightarrow> register_peer wire opts ready now ip r i role True requested m (g\<lparr>rg_nonces := used\<rparr>))
      else register_peer wire opts ready now ip r i requested (\<not> needs_token opts) requested m g)"

definition peer_address :: "string option \<Rightarrow> string" where
  "peer_address addr = (case addr of None \<Rightarrow> ''127.0.0.1'' | Some a \<Rightarrow> if a = [] then ''127.0.0.1'' else a)"

definition handle_connection ::
  "crypto \<Rightarrow> wire \<Rightarrow> registry_options \<Rightarrow> (string \<Rightarrow> bool) \<Rightarrow> int \<Rightarrow> string option \<Rightarrow> string option \<Rightarrow> string \<Rightarrow> string \<Rightarrow> string option
    \<Rightarrow> js_value \<Rightarrow> registry \<Rightarrow> registry \<times> signal list" where
  "handle_connection cr wire opts ready now addr origin r i token role g =
     (let ip = peer_address addr in
      if \<not> valid_identifier r then (g, [Closed 4003 ''invalid room id''])
      else if \<not> valid_identifier i then (g, [Closed 4003 ''invalid peer id''])
      else if failure_count now ip g \<ge> op_failures opts then (g, [Closed 1008 ''too many authentication failures''])
      else if \<not> check_origin opts origin then (g, [Closed 4003 ''forbidden origin''])
      else if int (total_peers g) + rg_pending g \<ge> op_total opts then (g, [Closed 1008 ''server connection limit exceeded''])
      else if ip_count ip g \<ge> op_per_ip opts then (g, [Closed 1008 ''ip connection limit exceeded''])
      else case js_get (rg_rooms g) r of
        Some m \<Rightarrow> admit_peer cr wire opts ready now ip r i token (requested_role role) m g
      | None \<Rightarrow>
          if int (room_count g) \<ge> op_rooms opts then (g, [Closed 1008 ''too many rooms''])
          else admit_peer cr wire opts ready now ip r i token (requested_role role) [] (set_room r [] g))"

section \<open>Events of a connection\<close>

definition find_peer :: "string \<Rightarrow> string \<Rightarrow> registry \<Rightarrow> (room \<times> peer) option" where
  "find_peer r i g = (case js_get (rg_rooms g) r of None \<Rightarrow> None
     | Some m \<Rightarrow> map_option (\<lambda>e. (m, e)) (js_get m i))"

definition set_peer :: "string \<Rightarrow> string \<Rightarrow> peer \<Rightarrow> room \<Rightarrow> registry \<Rightarrow> registry" where
  "set_peer r i e m g = set_room r (js_put i e m) g"

definition authenticate ::
  "crypto \<Rightarrow> wire \<Rightarrow> registry_options \<Rightarrow> (string \<Rightarrow> bool) \<Rightarrow> int \<Rightarrow> string \<Rightarrow> string \<Rightarrow> peer \<Rightarrow> room \<Rightarrow> js_value \<Rightarrow> registry
    \<Rightarrow> registry \<times> signal list" where
  "authenticate cr wire opts ready now r i e m d g = (case (js_prop d ''type'', js_prop d ''token'') of
     (JStr t, JStr token) \<Rightarrow>
       if t = ''auth'' \<and> token \<noteq> [] then
         let asked = js_prop d ''role'';
             requested = (if asked = JUndefined \<or> asked = JNull then pe_requested e else requested_role asked)
         in (case authorize_peer cr opts now r (Some token) requested (rg_nonces g) of
               (Inr role, used) \<Rightarrow>
                 let e' = e\<lparr>pe_auth := True, pe_role := role, pe_capabilities := role_capabilities role, pe_timer := False\<rparr>
                 in (set_peer r i e' m (g\<lparr>rg_nonces := used, rg_pending := rg_pending g - 1\<rparr>),
                     announce wire opts ready r i role (js_put i e' m))
             | (Inl reason, used) \<Rightarrow>
                 (set_peer r i (e\<lparr>pe_charged := True\<rparr>) m (record_failure now (pe_ip e) (g\<lparr>rg_nonces := used\<rparr>)),
                  [Closed 4001 reason]))
       else (g, [])
   | _ \<Rightarrow> (g, []))"

definition relay_message ::
  "wire \<Rightarrow> registry_options \<Rightarrow> (string \<Rightarrow> bool) \<Rightarrow> int \<Rightarrow> string \<Rightarrow> string \<Rightarrow> peer \<Rightarrow> js_value \<Rightarrow> registry \<Rightarrow> registry \<times> signal list" where
  "relay_message wire opts ready now r i e message g = (case js_prop message ''to'' of
     JStr t \<Rightarrow>
       if t = ''*'' then broadcast wire opts ready now r i e (js_prop message ''data'') g
       else if t \<noteq> [] then send_to wire opts ready now r t i e (js_prop message ''data'') g
       else (g, [])
   | _ \<Rightarrow> (g, []))"

definition on_message ::
  "crypto \<Rightarrow> wire \<Rightarrow> registry_options \<Rightarrow> (string \<Rightarrow> bool) \<Rightarrow> int \<Rightarrow> nat \<Rightarrow> js_value option \<Rightarrow> string \<Rightarrow> string \<Rightarrow> registry
    \<Rightarrow> registry \<times> signal list" where
  "on_message cr wire opts ready now bytes parsed r i g = (case find_peer r i g of None \<Rightarrow> (g, [])
   | Some (m, e0) \<Rightarrow>
       let recent = filter (\<lambda>t. now - t < 1000) (pe_stamps e0) in
       if int (length recent) \<ge> op_rate opts
       then (set_peer r i (e0\<lparr>pe_stamps := recent\<rparr>) m g, [Closed 1008 ''rate limit exceeded''])
       else
         let e = e0\<lparr>pe_stamps := recent @ [now]\<rparr>; m' = js_put i e m; g' = set_room r m' g
         in (case parsed of None \<Rightarrow> (g', [])
             | Some message \<Rightarrow>
                 if int bytes > op_bytes opts \<or> \<not> valid_message message then (g', [])
                 else if \<not> pe_auth e then authenticate cr wire opts ready now r i e m' (js_prop message ''data'') g'
                 else relay_message wire opts ready now r i e message g'))"

definition on_timeout :: "int \<Rightarrow> string \<Rightarrow> string \<Rightarrow> registry \<Rightarrow> registry \<times> signal list" where
  "on_timeout now r i g = (case find_peer r i g of None \<Rightarrow> (g, [])
   | Some (m, e) \<Rightarrow>
       if pe_timer e \<and> \<not> pe_auth e
       then (set_peer r i (e\<lparr>pe_timer := False, pe_charged := True\<rparr>) m (record_failure now (pe_ip e) g),
             [Closed 4001 ''auth timeout''])
       else (g, []))"

definition release_ip :: "string \<Rightarrow> registry \<Rightarrow> registry" where
  "release_ip ip g =
     (let n = (case js_get (rg_ips g) ip of None \<Rightarrow> 1 | Some n \<Rightarrow> if n = 0 then 1 else n)
      in if n \<le> 1 then g\<lparr>rg_ips := js_del ip (rg_ips g)\<rparr> else g\<lparr>rg_ips := js_put ip (n - 1) (rg_ips g)\<rparr>)"

text \<open>A peer that leaves without having authenticated is charged, unless it was charged before.\<close>

definition leave_pending :: "int \<Rightarrow> peer \<Rightarrow> registry \<Rightarrow> registry" where
  "leave_pending now e g =
     (if pe_auth e then g
      else let g0 = g\<lparr>rg_pending := rg_pending g - 1\<rparr> in if pe_charged e then g0 else record_failure now (pe_ip e) g0)"

definition on_close ::
  "wire \<Rightarrow> registry_options \<Rightarrow> (string \<Rightarrow> bool) \<Rightarrow> int \<Rightarrow> string \<Rightarrow> string \<Rightarrow> registry \<Rightarrow> registry \<times> signal list" where
  "on_close wire opts ready now r i g = (case find_peer r i g of None \<Rightarrow> (g, [])
   | Some (m, e) \<Rightarrow>
       let m' = js_del i m;
           g2 = touch_room now r (set_room r m' (release_ip (pe_ip e) (leave_pending now e g)));
           g3 = (if m' = [] then cleanup_idle opts now g2 else g2)
       in (g3, if pe_auth e \<and> wire r i leave_note \<le> op_bytes opts
           then map (\<lambda>j. Sent r j i leave_note) (listeners ready m') else []))"

datatype registry_event =
    Connect "string \<Rightarrow> bool" int "string option" "string option" string string "string option" js_value
  | Message "string \<Rightarrow> bool" int nat "js_value option" string string
  | Timeout int string string
  | Disconnect "string \<Rightarrow> bool" int string string
  | Cleanup int

fun registry_step :: "crypto \<Rightarrow> wire \<Rightarrow> registry_options \<Rightarrow> registry \<Rightarrow> registry_event \<Rightarrow> registry \<times> signal list" where
  "registry_step cr wire opts g (Connect ready now addr origin r i token role) =
     handle_connection cr wire opts ready now addr origin r i token role g"
| "registry_step cr wire opts g (Message ready now bytes parsed r i) = on_message cr wire opts ready now bytes parsed r i g"
| "registry_step cr wire opts g (Timeout now r i) = on_timeout now r i g"
| "registry_step cr wire opts g (Disconnect ready now r i) = on_close wire opts ready now r i g"
| "registry_step cr wire opts g (Cleanup now) = (cleanup_idle opts now g, [])"

section \<open>Counting\<close>

lemma count_room_Nil [simp]: "count_room P [] = 0"
  by (simp add: count_room_def)

lemma count_put_new: "js_get m i = None \<Longrightarrow> count_room P (js_put i e m) = count_room P m + of_bool (P e)"
  by (induction m) (auto simp: count_room_def split: if_splits)

lemma count_put: "js_get m i = Some e \<Longrightarrow> count_room P (js_put i e' m) + of_bool (P e) = count_room P m + of_bool (P e')"
  by (induction m) (auto simp: count_room_def split: if_splits)

lemma count_del: "distinct (js_keys m) \<Longrightarrow> js_get m i = Some e \<Longrightarrow> count_room P (js_del i m) + of_bool (P e) = count_room P m"
proof (induction m)
  case (Cons a m)
  show ?case
  proof (cases "fst a = i")
    case True
    then have "js_del i m = m" using Cons.prems(1) by (simp add: delete_idem)
    then show ?thesis using True Cons.prems by (cases a) (auto simp: count_room_def)
  next
    case False
    then show ?thesis using Cons by (cases a) (auto simp: count_room_def)
  qed
qed simp

lemma count_all: "count_room (\<lambda>_. True) m = length m"
  by (simp add: count_room_def)

definition weight :: "(peer \<Rightarrow> bool) \<Rightarrow> (string, room) js_map \<Rightarrow> nat" where
  "weight P rs = sum_list (map (count_room P) (map snd rs))"

lemma count_peers_weight: "count_peers P g = weight P (rg_rooms g)"
  by (simp add: count_peers_def weight_def)

lemma weight_put: "js_get rs r = Some m \<Longrightarrow> weight P (js_put r m' rs) + count_room P m = weight P rs + count_room P m'"
  by (induction rs) (auto simp: weight_def split: if_splits)

lemma weight_put_new: "js_get rs r = None \<Longrightarrow> weight P (js_put r m' rs) = weight P rs + count_room P m'"
  by (induction rs) (auto simp: weight_def split: if_splits)

lemma weight_filter: "\<forall>x\<in>set rs. \<not> Q x \<longrightarrow> snd x = [] \<Longrightarrow> weight P (filter Q rs) = weight P rs"
  by (induction rs) (auto simp: weight_def)

section \<open>Invariant\<close>

definition room_ok :: "registry_options \<Rightarrow> room \<Rightarrow> bool" where
  "room_ok opts m \<longleftrightarrow> distinct (js_keys m) \<and> int (length m) \<le> max 0 (op_room_peers opts) \<and>
     int (count_room (\<lambda>p. \<not> pe_auth p) m) \<le> max 0 (op_pending opts) \<and>
     (\<forall>p\<in>set m. pe_capabilities (snd p) = role_capabilities (pe_role (snd p)))"

definition registry_ok :: "registry_options \<Rightarrow> registry \<Rightarrow> bool" where
  "registry_ok opts g \<longleftrightarrow> distinct (js_keys (rg_rooms g)) \<and> (\<forall>x\<in>set (rg_rooms g). room_ok opts (snd x)) \<and>
     rg_pending g = int (count_peers (\<lambda>p. \<not> pe_auth p) g) \<and>
     int (room_count g) \<le> max 0 (op_rooms opts) \<and> int (count_peers (\<lambda>_. True) g) \<le> max 0 (op_total opts) \<and>
     (\<forall>ip. ip_count ip g = int (count_peers (\<lambda>p. pe_ip p = ip) g) \<and> ip_count ip g \<le> max 0 (op_per_ip opts))"

lemma registry_okD:
  assumes "registry_ok opts g"
  shows "distinct (js_keys (rg_rooms g))" and "\<And>r m. js_get (rg_rooms g) r = Some m \<Longrightarrow> room_ok opts m"
    and "rg_pending g = int (count_peers (\<lambda>p. \<not> pe_auth p) g)"
    and "int (room_count g) \<le> max 0 (op_rooms opts)" and "int (count_peers (\<lambda>_. True) g) \<le> max 0 (op_total opts)"
    and "ip_count ip g = int (count_peers (\<lambda>p. pe_ip p = ip) g)" and "ip_count ip g \<le> max 0 (op_per_ip opts)"
  using assms unfolding registry_ok_def by (blast, fastforce dest: map_of_SomeD, blast+)

text \<open>What is not counted may change.\<close>

lemma registry_ok_cong:
  "rg_rooms g' = rg_rooms g \<Longrightarrow> rg_pending g' = rg_pending g \<Longrightarrow> rg_ips g' = rg_ips g \<Longrightarrow>
    registry_ok opts g' = registry_ok opts g"
  by (simp add: registry_ok_def room_count_def count_peers_def ip_count_def)

lemma uncounted [simp]:
  "registry_ok opts (g\<lparr>rg_nonces := u\<rparr>) = registry_ok opts g" "registry_ok opts (record_failure now ip g) = registry_ok opts g"
  "registry_ok opts (touch_room now r g) = registry_ok opts g"
  by (rule registry_ok_cong; simp add: record_failure_def touch_room_def Let_def)+

lemma uncounted_fields [simp]:
  "rg_rooms (record_failure now ip g) = rg_rooms g" "rg_pending (record_failure now ip g) = rg_pending g"
  "rg_ips (record_failure now ip g) = rg_ips g" "rg_nonces (record_failure now ip g) = rg_nonces g"
  "rg_rooms (touch_room now r g) = rg_rooms g" "rg_pending (touch_room now r g) = rg_pending g"
  "rg_ips (touch_room now r g) = rg_ips g" "rg_nonces (touch_room now r g) = rg_nonces g"
  by (simp_all add: record_failure_def touch_room_def Let_def)

lemma new_registry_ok: "registry_ok opts new_registry"
  by (simp add: registry_ok_def new_registry_def room_count_def count_peers_def ip_count_def)

lemma room_count_put: "room_count (set_room r m g) = (if js_has (rg_rooms g) r then room_count g else Suc (room_count g))"
  by (simp add: room_count_def set_room_def length_put js_has_iff)

text \<open>A room gets new members, and the counters follow.\<close>

lemma room_change_ok:
  assumes "registry_ok opts g" and "js_get (rg_rooms g) r = Some m" and "room_ok opts m'"
    and "int (count_room (\<lambda>p. \<not> pe_auth p) m') = int (count_room (\<lambda>p. \<not> pe_auth p) m) + dp"
    and "\<And>ip. int (count_room (\<lambda>p. pe_ip p = ip) m') = int (count_room (\<lambda>p. pe_ip p = ip) m) + di ip"
    and "int (length m') = int (length m) + dn"
    and "rg_rooms g' = js_put r m' (rg_rooms g)" and "rg_pending g' = rg_pending g + dp"
    and "\<And>ip. ip_count ip g' = ip_count ip g + di ip"
    and "\<And>ip. ip_count ip g + di ip \<le> max 0 (op_per_ip opts)" and "int (count_peers (\<lambda>_. True) g) + dn \<le> max 0 (op_total opts)"
  shows "registry_ok opts g'"
proof -
  note ok = registry_okD [OF assms(1)]
  have w: "int (count_peers P g') = int (count_peers P g) + (int (count_room P m') - int (count_room P m))" for P
    using weight_put [OF assms(2), of P m'] by (simp add: count_peers_weight assms(7))
  have "distinct (js_keys (rg_rooms g'))" using ok(1) by (simp add: assms(7) distinct_put)
  moreover have "room_ok opts (snd x)" if "x \<in> set (rg_rooms g')" for x
    using in_js_put [of x r m' "rg_rooms g"] that assms(1,3) by (auto simp: assms(7) registry_ok_def)
  moreover have "room_count g' = room_count g" using js_has_iff [of "rg_rooms g" r] assms(2)
    by (simp add: room_count_def assms(7) length_put js_has_def)
  ultimately show ?thesis
    using ok(3,4) assms(4,5,6,8-11) w ok(6) by (simp add: registry_ok_def count_all)
qed

lemma new_peer_parts [simp]:
  "pe_role (new_peer role ip auth now q) = role" "pe_capabilities (new_peer role ip auth now q) = role_capabilities role"
  "pe_ip (new_peer role ip auth now q) = ip" "pe_auth (new_peer role ip auth now q) = auth"
  by (simp_all add: new_peer_def)

lemma count_split: "count_peers (\<lambda>_. True) g = count_peers pe_auth g + count_peers (\<lambda>p. \<not> pe_auth p) g"
proof -
  have "count_room (\<lambda>_. True) m = count_room pe_auth m + count_room (\<lambda>p. \<not> pe_auth p) m" for m
    by (induction m) (auto simp: count_room_def)
  moreover have "weight (\<lambda>_. True) rs = weight pe_auth rs + weight (\<lambda>p. \<not> pe_auth p) rs" for rs
    by (induction rs) (simp_all add: weight_def calculation)
  ultimately show ?thesis by (simp add: count_peers_weight)
qed

lemma ip_count_put: "ip_count ip' (g\<lparr>rg_ips := js_put ip n (rg_ips g)\<rparr>) = (if ip' = ip then n else ip_count ip' g)"
  by (simp add: ip_count_def js_get_put)

lemma ip_count_rooms [simp]: "ip_count ip (set_room r m g) = ip_count ip g" "ip_count ip (touch_room now r g) = ip_count ip g"
  "ip_count ip (record_failure now ip' g) = ip_count ip g" "ip_count ip (g\<lparr>rg_pending := n\<rparr>) = ip_count ip g"
  "ip_count ip (g\<lparr>rg_nonces := u\<rparr>) = ip_count ip g"
  by (simp_all add: ip_count_def set_room_def)

lemma room_ok_put_new:
  assumes "room_ok opts m" and "js_get m i = None" and "int (length m) < op_room_peers opts"
    and "\<not> pe_auth e \<Longrightarrow> int (count_room (\<lambda>p. \<not> pe_auth p) m) < op_pending opts"
    and "pe_capabilities e = role_capabilities (pe_role e)"
  shows "room_ok opts (js_put i e m)"
proof -
  have "length (js_put i e m) = Suc (length m)" using assms(2) by (simp add: length_put map_of_eq_None_iff)
  moreover have "count_room (\<lambda>p. \<not> pe_auth p) (js_put i e m) = count_room (\<lambda>p. \<not> pe_auth p) m + of_bool (\<not> pe_auth e)"
    by (rule count_put_new [OF assms(2)])
  moreover have "pe_capabilities (snd p) = role_capabilities (pe_role (snd p))" if "p \<in> set (js_put i e m)" for p
    using in_js_put [OF that] assms(1,5) by (auto simp: room_ok_def)
  ultimately show ?thesis using assms(1,3,4) by (cases "pe_auth e") (simp_all add: room_ok_def distinct_put)
qed

lemma register_peer_ok:
  assumes "registry_ok opts g" and "js_get (rg_rooms g) r = Some m" and "js_get m i = None" and "int (length m) < op_room_peers opts"
    and "\<not> auth \<Longrightarrow> int (count_room (\<lambda>p. \<not> pe_auth p) m) < op_pending opts"
    and "ip_count ip g < op_per_ip opts" and "int (total_peers g) + rg_pending g < op_total opts"
  shows "registry_ok opts (fst (register_peer wire opts ready now ip r i role auth requested m g))"
proof -
  let ?e = "new_peer role ip auth now requested"
  let ?g = "fst (register_peer wire opts ready now ip r i role auth requested m g)"
  note ok = registry_okD [OF assms(1)]
  have parts: "rg_rooms ?g = js_put r (js_put i ?e m) (rg_rooms g)" "rg_pending ?g = rg_pending g + of_bool (\<not> auth)"
    by (simp_all add: register_peer_def Let_def set_room_def touch_room_def)
  have ips: "ip_count ip' ?g = ip_count ip' g + of_bool (ip = ip')" for ip'
    by (simp add: register_peer_def Let_def ip_count_put)
  have c: "count_room P (js_put i ?e m) = count_room P m + of_bool (P ?e)" for P by (rule count_put_new [OF assms(3)])
  have n: "length (js_put i ?e m) = Suc (length m)" using assms(3) by (simp add: length_put map_of_eq_None_iff)
  show ?thesis
  proof (rule room_change_ok [OF assms(1,2), where m' = "js_put i ?e m" and dp = "of_bool (\<not> auth)" and dn = 1 and di = "\<lambda>ip'. of_bool (ip = ip')"])
    show "room_ok opts (js_put i ?e m)"
      by (rule room_ok_put_new [OF ok(2) [OF assms(2)] assms(3,4)]) (use assms(5) in auto)
    show "ip_count ip' g + of_bool (ip = ip') \<le> max 0 (op_per_ip opts)" for ip'
      using ok(7) [of ip'] assms(6) by auto
    show "int (count_peers (\<lambda>_. True) g) + 1 \<le> max 0 (op_total opts)"
      using ok(3) assms(7) count_split [of g] by (simp add: total_peers_def)
  qed (simp_all add: c n parts ips)
qed

lemma add_room_ok:
  assumes "registry_ok opts g" and "js_get (rg_rooms g) r = None" and "int (room_count g) < op_rooms opts"
  shows "registry_ok opts (set_room r [] g)"
proof -
  note ok = registry_okD [OF assms(1)]
  have c: "count_peers P (set_room r [] g) = count_peers P g" for P
    using weight_put_new [OF assms(2), of P "[]"] by (simp add: count_peers_weight set_room_def)
  have "room_ok opts (snd x)" if "x \<in> set (rg_rooms (set_room r [] g))" for x
    using in_js_put [of x r "[]" "rg_rooms g"] that assms(1) by (auto simp: set_room_def registry_ok_def room_ok_def)
  moreover have "distinct (js_keys (rg_rooms (set_room r [] g)))" using ok(1) by (simp add: set_room_def distinct_put)
  moreover have "rg_pending (set_room r [] g) = rg_pending g" by (simp add: set_room_def)
  ultimately show ?thesis
    using ok(3-7) assms(2,3) by (simp add: registry_ok_def c room_count_put js_has_def)
qed

lemma admit_peer_ok:
  assumes "registry_ok opts g" and "js_get (rg_rooms g) r = Some m"
    and "ip_count ip g < op_per_ip opts" and "int (total_peers g) + rg_pending g < op_total opts"
  shows "registry_ok opts (fst (admit_peer cr wire opts ready now ip r i token requested m g))"
proof -
  have total: "total_peers (g\<lparr>rg_nonces := u\<rparr>) = total_peers g" for u by (simp add: total_peers_def count_peers_def)
  show ?thesis
    using assms by (auto simp: admit_peer_def total js_has_def not_le split: prod.split sum.split intro!: register_peer_ok)
qed

lemma connection_ok:
  assumes "registry_ok opts g"
  shows "registry_ok opts (fst (handle_connection cr wire opts ready now addr origin r i token role g))"
proof -
  have new: "total_peers (set_room r [] g) = total_peers g" if "js_get (rg_rooms g) r = None"
    using weight_put_new [OF that, of pe_auth "[]"] by (simp add: total_peers_def count_peers_weight set_room_def)
  show ?thesis
    using assms add_room_ok [OF assms]
    by (auto simp: handle_connection_def Let_def new not_le split: option.split intro!: admit_peer_ok)
      (simp_all add: set_room_def js_get_put)
qed

lemma find_peerD: "find_peer r i g = Some (m, e) \<Longrightarrow> js_get (rg_rooms g) r = Some m \<and> js_get m i = Some e"
  by (auto simp: find_peer_def split: option.splits)

lemma known_capabilities:
  assumes "registry_ok opts g" and "find_peer r i g = Some (m, e)"
  shows "pe_capabilities e = role_capabilities (pe_role e)"
  using find_peerD [OF assms(2)] registry_okD(2) [OF assms(1)] by (fastforce simp: room_ok_def dest: map_of_SomeD)

lemma replace_peer_ok:
  assumes "registry_ok opts g" and "js_get (rg_rooms g) r = Some m" and "js_get m i = Some e"
    and "pe_ip e' = pe_ip e" and "pe_auth e \<Longrightarrow> pe_auth e'" and "pe_capabilities e' = role_capabilities (pe_role e')"
  shows "registry_ok opts ((set_peer r i e' m g)\<lparr>rg_pending := rg_pending g - of_bool (pe_auth e' \<and> \<not> pe_auth e)\<rparr>)"
proof -
  note ok = registry_okD [OF assms(1)]
  let ?m = "js_put i e' m"
  have c: "int (count_room P ?m) = int (count_room P m) + of_bool (P e') - of_bool (P e)" for P
    using count_put [OF assms(3), of P e'] by (cases "P e"; cases "P e'") simp_all
  have n: "length ?m = length m" using assms(3) by (simp add: length_put) (metis map_of_eq_None_iff option.distinct(1))
  have room: "room_ok opts m" by (rule ok(2) [OF assms(2)])
  have "pe_capabilities (snd p) = role_capabilities (pe_role (snd p))" if "p \<in> set ?m" for p
    using in_js_put [OF that] room assms(6) by (auto simp: room_ok_def)
  then have room': "room_ok opts ?m"
    using room assms(5) n c [of "\<lambda>p. \<not> pe_auth p"] by (cases "pe_auth e'") (auto simp: room_ok_def distinct_put)
  show ?thesis
  proof (rule room_change_ok [OF assms(1,2) room', where dp = "- of_bool (pe_auth e' \<and> \<not> pe_auth e)" and dn = 0 and di = "\<lambda>_. 0"])
    show "int (count_room (\<lambda>p. \<not> pe_auth p) ?m) = int (count_room (\<lambda>p. \<not> pe_auth p) m) + - of_bool (pe_auth e' \<and> \<not> pe_auth e)"
      using assms(5) by (simp add: c)
  qed (use ok(5,7) in \<open>simp_all add: c n assms(4) set_peer_def set_room_def ip_count_def\<close>)
qed

lemma update_peer_ok:
  assumes "registry_ok opts g" and "js_get (rg_rooms g) r = Some m" and "js_get m i = Some e"
    and "pe_ip e' = pe_ip e" and "pe_auth e' = pe_auth e" and "pe_role e' = pe_role e" and "pe_capabilities e' = pe_capabilities e"
  shows "registry_ok opts (set_peer r i e' m g)"
proof -
  have "find_peer r i g = Some (m, e)" using assms(2,3) by (simp add: find_peer_def)
  from known_capabilities [OF assms(1) this] assms(6,7) have "pe_capabilities e' = role_capabilities (pe_role e')" by simp
  from replace_peer_ok [OF assms(1-4) _ this] assms(5)
  have "registry_ok opts ((set_peer r i e' m g)\<lparr>rg_pending := rg_pending g\<rparr>)" by simp
  moreover have "(set_peer r i e' m g)\<lparr>rg_pending := rg_pending g\<rparr> = set_peer r i e' m g" by (simp add: set_peer_def set_room_def)
  ultimately show ?thesis by simp
qed

lemma relay_parts:
  "rg_rooms (fst (relay_message wire opts ready now r i e message g)) = rg_rooms g"
  "rg_pending (fst (relay_message wire opts ready now r i e message g)) = rg_pending g"
  "rg_ips (fst (relay_message wire opts ready now r i e message g)) = rg_ips g"
  "rg_nonces (fst (relay_message wire opts ready now r i e message g)) = rg_nonces g"
  by (auto simp: relay_message_def broadcast_def send_to_def split: js_value.split option.split)

lemma authenticate_ok:
  assumes "registry_ok opts g" and "js_get (rg_rooms g) r = Some m" and "js_get m i = Some e" and "\<not> pe_auth e"
  shows "registry_ok opts (fst (authenticate cr wire opts ready now r i e m d g))"
proof -
  have "registry_ok opts (set_peer r i (e\<lparr>pe_auth := True, pe_role := role, pe_capabilities := role_capabilities role, pe_timer := False\<rparr>) m
      (g\<lparr>rg_nonces := u, rg_pending := rg_pending g - 1\<rparr>))" (is "registry_ok opts (set_peer r i ?e m ?g)") for role u
  proof -
    from replace_peer_ok [OF assms(1-3), of ?e]
    have "registry_ok opts ((set_peer r i ?e m g)\<lparr>rg_pending := rg_pending g - 1\<rparr>)" using assms(4) by simp
    then show ?thesis by (subst registry_ok_cong [of _ "(set_peer r i ?e m g)\<lparr>rg_pending := rg_pending g - 1\<rparr>"])
      (simp_all add: set_peer_def set_room_def)
  qed
  moreover have "registry_ok opts (set_peer r i (e\<lparr>pe_charged := True\<rparr>) m (record_failure now (pe_ip e) (g\<lparr>rg_nonces := u\<rparr>)))" for u
    using assms by (intro update_peer_ok) simp_all
  ultimately show ?thesis using assms(1)
    by (auto simp: authenticate_def Let_def split: js_value.split prod.split sum.split)
qed

lemma message_ok:
  assumes "registry_ok opts g"
  shows "registry_ok opts (fst (on_message cr wire opts ready now bytes parsed r i g))"
proof (cases "find_peer r i g")
  case (Some q)
  then obtain m e0 where f: "js_get (rg_rooms g) r = Some m" "js_get m i = Some e0" "find_peer r i g = Some (m, e0)"
    by (cases q) (auto dest: find_peerD)
  have up: "registry_ok opts (set_peer r i (e0\<lparr>pe_stamps := ts\<rparr>) m g)" for ts
    by (rule update_peer_ok [OF assms f(1,2)]) simp_all
  define e where "e = e0\<lparr>pe_stamps := filter (\<lambda>t. now - t < 1000) (pe_stamps e0) @ [now]\<rparr>"
  have up2: "registry_ok opts (set_room r (js_put i e m) g)" using up by (simp add: e_def set_peer_def)
  have got: "js_get (rg_rooms (set_room r (js_put i e m) g)) r = Some (js_put i e m)" "js_get (js_put i e m) i = Some e"
    by (simp_all add: set_room_def js_get_put)
  have "registry_ok opts (fst (relay_message wire opts ready now r i e message (set_room r (js_put i e m) g)))" for message
    using up2 by (subst registry_ok_cong [of _ "set_room r (js_put i e m) g"]) (simp_all add: relay_parts)
  moreover have "registry_ok opts (fst (authenticate cr wire opts ready now r i e (js_put i e m) d (set_room r (js_put i e m) g)))"
    if "\<not> pe_auth e" for d by (rule authenticate_ok [OF up2 got that])
  ultimately show ?thesis using up up2
    by (simp add: on_message_def f(3) Let_def flip: e_def split: option.split)
qed (simp add: on_message_def assms)

lemma timeout_ok:
  assumes "registry_ok opts g"
  shows "registry_ok opts (fst (on_timeout now r i g))"
  using assms by (auto simp: on_timeout_def dest!: find_peerD split: option.split intro!: update_peer_ok)

lemma gone_room_empty:
  assumes "distinct (js_keys rs)" and "(r, m) \<in> set rs" and "r \<in> set (map fst (filter (\<lambda>(r, m). idle_room opts now g r m) rs))"
  shows "m = []"
proof -
  from assms(3) obtain m' where "(r, m') \<in> set rs" "idle_room opts now g r m'" by auto
  moreover from this assms(1,2) have "m' = m" by (metis js_get_in_set option.inject)
  ultimately show ?thesis by (simp add: idle_room_def)
qed

lemma cleanup_ok:
  assumes "registry_ok opts g"
  shows "registry_ok opts (cleanup_idle opts now g)"
proof -
  let ?g = "cleanup_idle opts now g"
  let ?gone = "map fst (filter (\<lambda>(r, m). idle_room opts now g r m) (rg_rooms g))"
  note ok = registry_okD [OF assms]
  have rooms: "rg_rooms ?g = filter (\<lambda>(r, m). r \<notin> set ?gone) (rg_rooms g)" by (simp add: cleanup_idle_def Let_def)
  have parts: "rg_pending ?g = rg_pending g" "ip_count ip ?g = ip_count ip g" for ip
    by (simp_all add: cleanup_idle_def Let_def ip_count_def)
  have "weight P (rg_rooms ?g) = weight P (rg_rooms g)" for P
    unfolding rooms
  proof (rule weight_filter, intro ballI impI)
    fix x assume "x \<in> set (rg_rooms g)" "\<not> (case x of (r, m) \<Rightarrow> r \<notin> set ?gone)"
    then show "snd x = []" using gone_room_empty [OF ok(1), of "fst x" "snd x"] by (simp add: case_prod_unfold)
  qed
  then have c: "count_peers P ?g = count_peers P g" for P by (simp add: count_peers_weight)
  have "room_count ?g \<le> room_count g" by (simp add: room_count_def rooms)
  moreover have "distinct (js_keys (rg_rooms ?g))" unfolding rooms by (rule distinct_map_filter) (rule ok(1))
  moreover have "\<forall>x\<in>set (rg_rooms ?g). room_ok opts (snd x)" using assms by (auto simp: rooms registry_ok_def)
  ultimately show ?thesis using ok(3-7) by (simp add: registry_ok_def c parts)
qed

lemma room_ok_del:
  assumes "room_ok opts m" and "js_get m i = Some e"
  shows "room_ok opts (js_del i m)" and "length (js_del i m) = length m - 1" and "0 < length m"
proof -
  have d: "distinct (js_keys m)" using assms(1) by (simp add: room_ok_def)
  have i: "i \<in> set (js_keys m)" using assms(2) by (metis map_of_eq_None_iff option.distinct(1) set_map)
  show n: "length (js_del i m) = length m - 1" "0 < length m" using length_del [OF d, of i] i by auto
  have "count_room (\<lambda>p. \<not> pe_auth p) (js_del i m) \<le> count_room (\<lambda>p. \<not> pe_auth p) m"
    using count_del [OF d assms(2), of "\<lambda>p. \<not> pe_auth p"] by linarith
  moreover have "set (js_del i m) \<subseteq> set m" by (auto simp: AList.delete_eq)
  ultimately show "room_ok opts (js_del i m)" using assms(1) n by (auto simp: room_ok_def distinct_del)
qed

lemma release_ip_count:
  assumes "1 \<le> ip_count ip g"
  shows "ip_count ip' (release_ip ip g) = ip_count ip' g - of_bool (ip' = ip)"
  using assms by (auto simp: ip_count_def release_ip_def Let_def js_get_put js_get_del split: option.splits)

lemma release_ip_parts [simp]: "rg_rooms (release_ip ip g) = rg_rooms g" "rg_pending (release_ip ip g) = rg_pending g"
  by (simp_all add: release_ip_def Let_def)

lemma drop_peer_ok:
  assumes "registry_ok opts g" and "js_get (rg_rooms g) r = Some m" and "js_get m i = Some e"
    and "rg_rooms g1 = rg_rooms g" and "rg_pending g1 = rg_pending g - of_bool (\<not> pe_auth e)" and "\<And>ip. ip_count ip g1 = ip_count ip g"
  shows "registry_ok opts (touch_room now r (set_room r (js_del i m) (release_ip (pe_ip e) g1)))" (is "registry_ok opts ?g")
proof -
  note ok = registry_okD [OF assms(1)]
  have room: "room_ok opts m" by (rule ok(2) [OF assms(2)])
  note del = room_ok_del [OF room assms(3)]
  have c: "int (count_room P (js_del i m)) = int (count_room P m) - of_bool (P e)" for P
    using count_del [of m i e P] room assms(3) by (cases "P e") (auto simp: room_ok_def)
  have "of_bool (P e) \<le> count_room P m" for P using count_del [of m i e P] room assms(3) by (simp add: room_ok_def)
  moreover have "count_room P m \<le> count_peers P g" for P
    using weight_put [OF assms(2), of P "[]"] by (simp add: count_peers_weight)
  ultimately have "1 \<le> count_peers (\<lambda>p. pe_ip p = pe_ip e) g" by (metis (mono_tags) of_bool_eq_1_iff order_trans)
  then have one: "1 \<le> ip_count (pe_ip e) g1" using ok(6) [of "pe_ip e"] assms(6) by simp
  show ?thesis
  proof (rule room_change_ok [OF assms(1,2) del(1), where dp = "- of_bool (\<not> pe_auth e)" and dn = "-1" and di = "\<lambda>ip. - of_bool (ip = pe_ip e)"])
    show "rg_rooms ?g = js_put r (js_del i m) (rg_rooms g)" by (simp add: set_room_def assms(4))
    show "rg_pending ?g = rg_pending g + - of_bool (\<not> pe_auth e)" using assms(5) by (simp add: set_room_def)
    show "ip_count ip ?g = ip_count ip g + - of_bool (ip = pe_ip e)" for ip
      using release_ip_count [OF one, of ip] assms(6) by simp
    show "ip_count ip g + - of_bool (ip = pe_ip e) \<le> max 0 (op_per_ip opts)" for ip
      using ok(7) [of ip] by (cases "ip = pe_ip e"; simp; linarith)
    show "int (length (js_del i m)) = int (length m) + -1" using del(2,3) by linarith
    show "int (count_room (\<lambda>p. pe_ip p = ip) (js_del i m)) = int (count_room (\<lambda>p. pe_ip p = ip) m) + - of_bool (ip = pe_ip e)" for ip
      using c [of "\<lambda>p. pe_ip p = ip"] by (simp add: eq_commute)
    show "int (count_room (\<lambda>p. \<not> pe_auth p) (js_del i m)) = int (count_room (\<lambda>p. \<not> pe_auth p) m) + - of_bool (\<not> pe_auth e)"
      using c [of "\<lambda>p. \<not> pe_auth p"] by simp
    show "int (count_peers (\<lambda>_. True) g) + -1 \<le> max 0 (op_total opts)" using ok(5) by simp
  qed
qed

lemma close_ok:
  assumes "registry_ok opts g"
  shows "registry_ok opts (fst (on_close wire opts ready now r i g))"
proof (cases "find_peer r i g")
  case (Some q)
  then obtain m e where f: "js_get (rg_rooms g) r = Some m" "js_get m i = Some e" "find_peer r i g = Some (m, e)"
    by (cases q) (auto dest: find_peerD)
  let ?g1 = "leave_pending now e g"
  have "rg_rooms ?g1 = rg_rooms g" "rg_pending ?g1 = rg_pending g - of_bool (\<not> pe_auth e)" "ip_count ip ?g1 = ip_count ip g" for ip
    by (simp_all add: leave_pending_def Let_def)
  from drop_peer_ok [OF assms f(1,2) this]
  have ok: "registry_ok opts (touch_room now r (set_room r (js_del i m) (release_ip (pe_ip e) ?g1)))" .
  show ?thesis using ok cleanup_ok [OF ok, of now] by (auto simp: on_close_def f(3) Let_def)
qed (simp add: on_close_def assms)

definition registry_run_step :: "crypto \<Rightarrow> wire \<Rightarrow> registry_options \<Rightarrow> registry \<Rightarrow> registry_event \<Rightarrow> registry" where
  "registry_run_step cr wire opts g ev = fst (registry_step cr wire opts g ev)"

lemma registry_step_ok: "registry_ok opts g \<Longrightarrow> registry_ok opts (registry_run_step cr wire opts g ev)"
  by (cases ev) (simp_all add: registry_run_step_def connection_ok message_ok timeout_ok close_ok cleanup_ok)

interpretation gateway: invariant_system "registry_run_step cr wire opts" "registry_ok opts" for cr wire opts
  by unfold_locales (rule registry_step_ok)

section \<open>Who hears what\<close>

text \<open>A frame goes to an authenticated peer; it is a note of the gateway or what its sender's role may relay.\<close>

fun delivery_ok :: "registry \<Rightarrow> signal \<Rightarrow> bool" where
  "delivery_ok g (Closed code reason) = True"
| "delivery_ok g (Sent r target sender d) =
     ((\<exists>m p. find_peer r target g = Some (m, p) \<and> pe_auth p) \<and>
      (d = leave_note \<or> (\<exists>role. d = join_note role) \<or>
       (\<exists>m e c. find_peer r sender g = Some (m, e) \<and> pe_auth e \<and> required_capability d = Some c \<and>
          c \<in> set (role_capabilities (pe_role e)))))"

lemma find_peer_set_room: "find_peer r i (set_room r' m g) = (if r = r' then map_option (\<lambda>e. (m, e)) (js_get m i) else find_peer r i g)"
  by (simp add: find_peer_def set_room_def js_get_put)

lemma find_peer_rooms: "rg_rooms g' = rg_rooms g \<Longrightarrow> find_peer r i g' = find_peer r i g"
  by (simp add: find_peer_def)

lemma listeners_auth: "distinct (js_keys m) \<Longrightarrow> j \<in> set (listeners ready m) \<Longrightarrow> \<exists>p. js_get m j = Some p \<and> pe_auth p"
  by (auto simp: listeners_def js_get_in_set)

lemma room_distinct: "registry_ok opts g \<Longrightarrow> js_get (rg_rooms g) r = Some m \<Longrightarrow> distinct (js_keys m)"
  using registry_okD(2) [of opts g r m] by (simp add: room_ok_def)

lemma announce_ok:
  assumes "distinct (js_keys m)" and "js_get (rg_rooms g) r = Some m" and "js_get m i = Some e" and "pe_auth e"
  shows "list_all (delivery_ok g) (announce wire opts ready r i role m)"
proof -
  have "delivery_ok g s" if "s \<in> set (announce wire opts ready r i role m)" for s
    using that assms by (auto simp: announce_def find_peer_def js_get_in_set split: if_splits)
  then show ?thesis by (simp add: list_all_iff)
qed

lemma relay_ok:
  assumes "registry_ok opts g" and "find_peer r i g = Some (m, e)" and "pe_auth e"
  shows "list_all (delivery_ok (fst (relay_message wire opts ready now r i e message g)))
    (snd (relay_message wire opts ready now r i e message g))"
proof -
  let ?x = "relay_message wire opts ready now r i e message g"
  let ?d = "js_prop message ''data''"
  have same: "find_peer r' j (fst ?x) = find_peer r' j g" for r' j by (rule find_peer_rooms) (rule relay_parts)
  have m: "js_get (rg_rooms g) r = Some m" using find_peerD [OF assms(2)] by simp
  have caps: "pe_capabilities e = role_capabilities (pe_role e)" by (rule known_capabilities [OF assms(1,2)])
  have sent: "r' = r \<and> k = i \<and> d = ?d \<and> can_relay e ?d \<and> (\<exists>m p. find_peer r j g = Some (m, p) \<and> pe_auth p)"
    if "Sent r' j k d \<in> set (snd ?x)" for r' j k d
    using that m listeners_auth [OF room_distinct [OF assms(1) m]]
    by (auto simp: relay_message_def broadcast_def send_to_def find_peer_def split: js_value.splits if_splits option.splits)
  have cap: "\<exists>c. required_capability ?d = Some c \<and> c \<in> set (role_capabilities (pe_role e))" if "can_relay e ?d"
    using that by (auto simp: can_relay_def caps split: option.splits)
  have "delivery_ok (fst ?x) s" if s: "s \<in> set (snd ?x)" for s
  proof (cases s)
    case (Sent r' j k d)
    with s sent have "r' = r" "k = i" "d = ?d" "can_relay e ?d" "\<exists>m p. find_peer r j g = Some (m, p) \<and> pe_auth p" by blast+
    moreover from cap [OF this(4)] have "\<exists>m e c. find_peer r i g = Some (m, e) \<and> pe_auth e \<and> required_capability ?d = Some c \<and>
        c \<in> set (role_capabilities (pe_role e))" using assms(2,3) by blast
    ultimately show ?thesis by (simp add: Sent same)
  qed simp
  then show ?thesis by (simp add: list_all_iff)
qed

lemma register_delivers:
  assumes "registry_ok opts (fst (register_peer wire opts ready now ip r i role auth requested m g))"
  shows "list_all (delivery_ok (fst (register_peer wire opts ready now ip r i role auth requested m g)))
    (snd (register_peer wire opts ready now ip r i role auth requested m g))"
proof (cases auth)
  case True
  let ?g = "fst (register_peer wire opts ready now ip r i role auth requested m g)"
  let ?m = "js_put i (new_peer role ip auth now requested) m"
  have m: "js_get (rg_rooms ?g) r = Some ?m" by (simp add: register_peer_def Let_def set_room_def js_get_put)
  have "list_all (delivery_ok ?g) (announce wire opts ready r i role ?m)"
    by (rule announce_ok [OF room_distinct [OF assms m] m, of i "new_peer role ip auth now requested"]) (simp_all add: js_get_put True)
  then show ?thesis using True by (simp add: register_peer_def Let_def)
qed (simp add: register_peer_def Let_def)

lemma connection_delivers:
  assumes "registry_ok opts g"
  shows "list_all (delivery_ok (fst (handle_connection cr wire opts ready now addr origin r i token role g)))
    (snd (handle_connection cr wire opts ready now addr origin r i token role g))"
proof -
  have admit: "list_all (delivery_ok (fst (admit_peer cr wire opts ready now ip r i token q m g')))
      (snd (admit_peer cr wire opts ready now ip r i token q m g'))"
    if "registry_ok opts (fst (admit_peer cr wire opts ready now ip r i token q m g'))" for ip q m g'
    using that by (auto simp: admit_peer_def split: prod.splits sum.splits if_splits intro!: register_delivers)
  have "registry_ok opts (fst (handle_connection cr wire opts ready now addr origin r i token role g))"
    by (rule connection_ok [OF assms])
  then show ?thesis by (auto simp: handle_connection_def Let_def split: option.splits if_splits intro!: admit)
qed

lemma authenticate_delivers:
  assumes "distinct (js_keys m)"
  shows "list_all (delivery_ok (fst (authenticate cr wire opts ready now r i e m d g)))
    (snd (authenticate cr wire opts ready now r i e m d g))"
proof -
  have "list_all (delivery_ok (set_peer r i e' m g')) (announce wire opts ready r i role (js_put i e' m))" if "pe_auth e'" for e' role g'
    by (rule announce_ok [where e = e']) (simp_all add: distinct_put [OF assms] set_peer_def set_room_def js_get_put that)
  then show ?thesis
    by (auto simp: authenticate_def Let_def split: js_value.split prod.split sum.split)
qed

lemma message_delivers:
  assumes "registry_ok opts g"
  shows "list_all (delivery_ok (fst (on_message cr wire opts ready now bytes parsed r i g)))
    (snd (on_message cr wire opts ready now bytes parsed r i g))"
proof (cases "find_peer r i g")
  case (Some q)
  then obtain m e0 where f: "js_get (rg_rooms g) r = Some m" "js_get m i = Some e0" "find_peer r i g = Some (m, e0)"
    by (cases q) (auto dest: find_peerD)
  define e where "e = e0\<lparr>pe_stamps := filter (\<lambda>t. now - t < 1000) (pe_stamps e0) @ [now]\<rparr>"
  define g' where "g' = set_room r (js_put i e m) g"
  have ok: "registry_ok opts g'"
    using update_peer_ok [OF assms f(1,2), of e] by (simp add: e_def g'_def set_peer_def)
  have got: "js_get (rg_rooms g') r = Some (js_put i e m)" "js_get (js_put i e m) i = Some e"
    by (simp_all add: g'_def set_room_def js_get_put)
  then have found: "find_peer r i g' = Some (js_put i e m, e)" by (simp add: find_peer_def)
  have d: "distinct (js_keys (js_put i e m))" by (rule room_distinct [OF ok got(1)])
  have "list_all (delivery_ok (fst (authenticate cr wire opts ready now r i e (js_put i e m) d g')))
      (snd (authenticate cr wire opts ready now r i e (js_put i e m) d g'))" for d by (rule authenticate_delivers [OF d])
  moreover have "list_all (delivery_ok (fst (relay_message wire opts ready now r i e message g')))
      (snd (relay_message wire opts ready now r i e message g'))" if "pe_auth e" for message
    by (rule relay_ok [OF ok found that])
  ultimately show ?thesis
    by (simp add: on_message_def f(3) Let_def flip: e_def g'_def split: option.split)
qed (simp add: on_message_def)

lemma close_delivers:
  assumes "registry_ok opts g"
  shows "list_all (delivery_ok (fst (on_close wire opts ready now r i g))) (snd (on_close wire opts ready now r i g))"
proof (cases "find_peer r i g")
  case (Some q)
  then obtain m e where f: "js_get (rg_rooms g) r = Some m" "js_get m i = Some e" "find_peer r i g = Some (m, e)"
    by (cases q) (auto dest: find_peerD)
  have d: "distinct (js_keys (js_del i m))" by (rule distinct_del) (rule room_distinct [OF assms f(1)])
  let ?g = "touch_room now r (set_room r (js_del i m) (release_ip (pe_ip e) (leave_pending now e g)))"
  have "delivery_ok ?g (Sent r j i leave_note)" if "j \<in> set (listeners ready (js_del i m))" for j
    using listeners_auth [OF d that] by (auto simp: find_peer_def set_room_def js_get_put)
  moreover have "listeners ready [] = []" by (simp add: listeners_def)
  ultimately show ?thesis
    by (cases "js_del i m = []") (auto simp: on_close_def f(3) Let_def list_all_iff)
qed (simp add: on_close_def)

lemma timeout_delivers: "list_all (delivery_ok (fst (on_timeout now r i g))) (snd (on_timeout now r i g))"
  by (simp add: on_timeout_def split: option.split)

section \<open>Tickets\<close>

fun event_time :: "registry_event \<Rightarrow> int" where
  "event_time (Connect ready now addr origin r i token role) = now"
| "event_time (Message ready now bytes parsed r i) = now"
| "event_time (Timeout now r i) = now"
| "event_time (Disconnect ready now r i) = now"
| "event_time (Cleanup now) = now"

lemma consume_keeps: "js_get m n = Some x \<Longrightarrow> js_get (snd (consume_nonce k e m)) n = Some x"
  by (auto simp: consume_nonce_def js_get_put js_has_def)

lemma authorize_keeps:
  assumes "js_get used n = Some x"
  shows "js_get (snd (authorize_peer cr opts now r token q used)) n = Some x"
  using assms consume_keeps [OF assms]
  by (auto simp: authorize_peer_def authorize_ticket_def Let_def split: option.splits list.splits prod.splits sum.splits bool.splits)
    (metis snd_conv)+

lemma clear_keeps: "js_get m n = Some x \<Longrightarrow> js_get (clear_expired t m) n = Some x \<or> of_int t > x"
  by (induction m) (auto simp: clear_expired_def split: if_splits)

lemma nonce_parts [simp]:
  "rg_nonces (set_room r m g) = rg_nonces g" "rg_nonces (set_peer r i e m g) = rg_nonces g"
  "rg_nonces (release_ip ip g) = rg_nonces g" "rg_nonces (leave_pending now e g) = rg_nonces g"
  "rg_nonces (fst (register_peer wire opts ready now ip r i role auth q m g)) = rg_nonces g"
  by (simp_all add: set_room_def set_peer_def release_ip_def leave_pending_def register_peer_def Let_def)

lemma authorized_nonces:
  "authorize_peer cr opts now r token q used = (a, used') \<Longrightarrow> js_get used n = Some x \<Longrightarrow> js_get used' n = Some x"
  using authorize_keeps [of used n x cr opts now r token q] by simp

lemma admit_nonces:
  "js_get (rg_nonces g) n = Some x \<Longrightarrow> js_get (rg_nonces (fst (admit_peer cr wire opts ready now ip r i token q m g))) n = Some x"
  by (auto simp: admit_peer_def split: prod.split sum.split dest: authorized_nonces)

lemma connection_nonces:
  "js_get (rg_nonces g) n = Some x \<Longrightarrow>
    js_get (rg_nonces (fst (handle_connection cr wire opts ready now addr origin r i token role g))) n = Some x"
  by (auto simp: handle_connection_def Let_def admit_nonces split: option.split)

lemma authenticate_nonces:
  "js_get (rg_nonces g) n = Some x \<Longrightarrow> js_get (rg_nonces (fst (authenticate cr wire opts ready now r i e m d g))) n = Some x"
  by (auto simp: authenticate_def Let_def split: js_value.split prod.split sum.split dest: authorized_nonces)

lemma message_nonces:
  "js_get (rg_nonces g) n = Some x \<Longrightarrow> js_get (rg_nonces (fst (on_message cr wire opts ready now bytes parsed r i g))) n = Some x"
  by (auto simp: on_message_def Let_def authenticate_nonces relay_parts split: option.split)

lemma step_nonces:
  assumes "js_get (rg_nonces g) n = Some x"
  shows "js_get (rg_nonces (registry_run_step cr wire opts g ev)) n = Some x \<or> of_int (event_time ev) > x"
proof -
  have clear: "js_get (rg_nonces (cleanup_idle opts t g')) n = Some x \<or> of_int t > x" if "rg_nonces g' = rg_nonces g" for t g'
    using clear_keeps [OF assms, of t] that by (simp add: cleanup_idle_def Let_def)
  have "js_get (rg_nonces (fst (on_close wire opts ready t r i g))) n = Some x \<or> of_int t > x" for ready t r i
    using assms clear by (auto simp: on_close_def Let_def split: option.split)
  moreover have "rg_nonces (fst (on_timeout t r i g)) = rg_nonces g" for t r i
    by (auto simp: on_timeout_def split: option.split)
  ultimately show ?thesis
    using assms clear by (cases ev) (simp_all add: registry_run_step_def connection_nonces message_nonces)
qed

lemma run_nonces:
  assumes "js_get (rg_nonces g) n = Some x" and "sorted (map event_time evs @ [t])"
  shows "js_get (rg_nonces (run (registry_run_step cr wire opts) g evs)) n = Some x \<or> of_int t > x"
  using assms
proof (induction evs arbitrary: g)
  case (Cons ev evs)
  have le: "event_time ev \<le> t" using Cons.prems(2) by simp
  from step_nonces [OF Cons.prems(1), of cr wire opts ev] show ?case
  proof
    assume "js_get (rg_nonces (registry_run_step cr wire opts g ev)) n = Some x"
    then show ?thesis using Cons by simp
  next
    assume "x < of_int (event_time ev)"
    then have "x < of_int t" using le by (meson of_int_le_iff order_less_le_trans)
    then show ?thesis by simp
  qed
qed simp

lemma ticket_authorized:
  assumes "fst (authorize_ticket cr opts now r t used) = Inr role"
  shows "\<exists>c. verify_ticket cr t (op_secret opts) r now = Inr c \<and> role = tc_role c \<and> tc_nonce c \<noteq> [] \<and> js_get used (tc_nonce c) = None \<and>
    js_get (snd (authorize_ticket cr opts now r t used)) (tc_nonce c) = Some (tc_exp c)"
  using assms by (auto simp: authorize_ticket_def consume_nonce_def js_has_def js_get_put split: sum.splits prod.splits if_splits)

lemma replay_refused:
  assumes "verify_ticket cr t (op_secret opts) r now = Inr c"
    and "js_get used (tc_nonce c) = Some (tc_exp c) \<or> of_int later > tc_exp c"
  shows "isl (fst (authorize_ticket cr opts later r' t used))"
proof (cases "verify_ticket cr t (op_secret opts) r' later")
  case (Inr c')
  then have "c' = c" using verified_unique [OF assms(1)] by blast
  moreover from this Inr have "of_int later \<le> tc_exp c" using verified_ticket checked_claims by blast
  ultimately have "js_has used (tc_nonce c')" using assms(2) by (auto simp: js_has_def)
  then show ?thesis using Inr by (simp add: authorize_ticket_def consume_nonce_def)
qed (simp add: authorize_ticket_def split: prod.split)

section \<open>Credentials\<close>

lemma split_at: "c \<in> set t \<Longrightarrow> t = takeWhile (\<lambda>x. x \<noteq> c) t @ c # tl (dropWhile (\<lambda>x. x \<noteq> c) t)"
  by (induction t) auto

lemma scoped_token: "CHR '':'' \<in> set t \<Longrightarrow> t = fst (scoped_parts t) @ CHR '':'' # snd (scoped_parts t)"
  unfolding scoped_parts_def fst_conv snd_conv by (rule split_at)

text \<open>What makes a token a credential for a role, when no external validator is configured.\<close>

definition credential :: "crypto \<Rightarrow> registry_options \<Rightarrow> int \<Rightarrow> string \<Rightarrow> nonces \<Rightarrow> network_role \<Rightarrow> string \<Rightarrow> network_role \<Rightarrow> bool" where
  "credential cr opts now r used asked t role \<longleftrightarrow>
     op_secret opts \<noteq> [] \<and> t = op_secret opts \<and> role = asked \<or>
     op_secret opts \<noteq> [] \<and> t = op_secret opts @ CHR '':'' # role_name role \<or>
     op_observer_secret opts \<noteq> [] \<and> t = op_observer_secret opts \<and> role = ObserverRole \<or>
     op_secret opts \<noteq> [] \<and>
       (\<exists>c. verify_ticket cr t (op_secret opts) r now = Inr c \<and> role = tc_role c \<and> js_get used (tc_nonce c) = None)"

lemma secret_authorized:
  assumes "authorize_secret opts t asked = Inr role"
  shows "credential cr opts now r used asked t role"
proof -
  have "t = op_secret opts @ CHR '':'' # role_name role"
    if "CHR '':'' \<in> set t" "fst (scoped_parts t) = op_secret opts" "snd (scoped_parts t) = role_name role"
    using scoped_token [OF that(1)] that(2,3) by simp
  then show ?thesis
    using assms by (cases "scoped_parts t") (auto simp: authorize_secret_def credential_def split: if_splits)
qed

lemma authorized_by:
  assumes "op_validator opts = None" and "needs_token opts" and "fst (authorize_peer cr opts now r token asked used) = Inr role"
  shows "\<exists>t. token = Some t \<and> credential cr opts now r used asked t role"
proof -
  obtain t where t: "token = Some t" and
    "op_secret opts \<noteq> [] \<and> fst (authorize_ticket cr opts now r t used) = Inr role \<or> authorize_secret opts t asked = Inr role"
    using assms by (auto simp: authorize_peer_def needs_token_def split: if_splits option.splits)
  then show ?thesis
    using ticket_authorized [of cr opts now r t used role] secret_authorized [of opts t asked role cr now r used]
    by (auto simp: credential_def)
qed

text \<open>The role a peer is authenticated for.\<close>

definition role_if :: "peer \<Rightarrow> network_role option" where
  "role_if e = (if pe_auth e then Some (pe_role e) else None)"

definition authed :: "string \<Rightarrow> string \<Rightarrow> registry \<Rightarrow> network_role option" where
  "authed r i g = (case js_get (rg_rooms g) r of None \<Rightarrow> None | Some m \<Rightarrow> Option.bind (js_get m i) role_if)"

lemma authed_set_room: "authed r0 i0 (set_room r m g) = (if r0 = r then Option.bind (js_get m i0) role_if else authed r0 i0 g)"
  by (simp add: authed_def set_room_def js_get_put)

lemma authed_cong: "rg_rooms g' = rg_rooms g \<Longrightarrow> authed r i g' = authed r i g"
  by (simp add: authed_def)

lemma authed_uncounted [simp]:
  "authed r i (record_failure now ip g) = authed r i g" "authed r i (touch_room now r' g) = authed r i g"
  "authed r i (release_ip ip g) = authed r i g" "authed r i (leave_pending now e g) = authed r i g"
  "authed r i (g\<lparr>rg_nonces := u\<rparr>) = authed r i g" "authed r i (g\<lparr>rg_pending := n\<rparr>) = authed r i g"
  "authed r i (g\<lparr>rg_ips := ips\<rparr>) = authed r i g"
  by (rule authed_cong; simp add: leave_pending_def Let_def)+

lemma authed_room: "js_get (rg_rooms g) r = Some m \<Longrightarrow> authed r i g = Option.bind (js_get m i) role_if"
  by (simp add: authed_def)

lemma authed_set_peer:
  assumes "js_get (rg_rooms g) r = Some m"
  shows "authed r0 i0 (set_peer r i e m g') = (if r0 = r then if i0 = i then role_if e else authed r i0 g else authed r0 i0 g')"
  by (simp add: set_peer_def authed_set_room js_get_put authed_room [OF assms])

lemma authed_register:
  assumes "js_get (rg_rooms g) r = Some m"
  shows "authed r0 i0 (fst (register_peer wire opts ready now ip r i role auth q m g)) =
    (if r0 = r \<and> i0 = i then if auth then Some role else None else authed r0 i0 g)"
  using authed_room [OF assms] by (auto simp: register_peer_def Let_def authed_set_room js_get_put role_if_def)

lemma get_kept: "js_get (filter (\<lambda>(r, m). r \<notin> S) rs) r = (if r \<in> S then None else js_get rs r)"
  by (induction rs) auto

lemma authed_cleanup: "authed r i (cleanup_idle opts now g) = Some role \<Longrightarrow> authed r i g = Some role"
  by (auto simp: authed_def cleanup_idle_def Let_def get_kept split: option.splits if_splits)

lemma authed_close:
  assumes "authed r0 i0 (fst (on_close wire opts ready now r i g)) = Some role"
  shows "authed r0 i0 g = Some role"
proof (cases "find_peer r i g")
  case (Some q)
  then obtain m e where f: "js_get (rg_rooms g) r = Some m" "js_get m i = Some e" "find_peer r i g = Some (m, e)"
    by (cases q) (auto dest: find_peerD)
  let ?g = "touch_room now r (set_room r (js_del i m) (release_ip (pe_ip e) (leave_pending now e g)))"
  have "authed r0 i0 ?g = Some role"
    using assms authed_cleanup [of r0 i0 opts now ?g role] by (auto simp: on_close_def f(3) Let_def split: if_splits)
  then show ?thesis using authed_room [OF f(1), of i0] by (auto simp: authed_set_room js_get_del split: if_splits)
qed (use assms in \<open>simp add: on_close_def\<close>)

lemma authed_timeout: "authed r0 i0 (fst (on_timeout now r i g)) = authed r0 i0 g"
proof (cases "find_peer r i g")
  case (Some q)
  then obtain m e where f: "js_get (rg_rooms g) r = Some m" "js_get m i = Some e" "find_peer r i g = Some (m, e)"
    by (cases q) (auto dest: find_peerD)
  then show ?thesis using authed_room [OF f(1), of i]
    by (simp add: on_timeout_def authed_set_peer [OF f(1)] role_if_def)
qed (simp add: on_timeout_def)

lemma authed_admit:
  assumes "js_get (rg_rooms g) r = Some m" and "needs_token opts" and "authed r0 i0 g = None"
    and "authed r0 i0 (fst (admit_peer cr wire opts ready now ip r i token q m g)) = Some role"
  shows "r0 = r \<and> i0 = i \<and> fst (authorize_peer cr opts now r token q (rg_nonces g)) = Inr role"
proof -
  have reg: "authed r0 i0 (fst (register_peer wire opts ready now ip r i role' auth q m (g\<lparr>rg_nonces := u\<rparr>))) =
    (if r0 = r \<and> i0 = i then if auth then Some role' else None else authed r0 i0 g)" for role' auth u
    using authed_register [of "g\<lparr>rg_nonces := u\<rparr>" r m] assms(1) by simp
  have "g\<lparr>rg_nonces := rg_nonces g\<rparr> = g" by simp
  with assms(2-4) reg [of _ _ "rg_nonces g"] reg show ?thesis
    by (auto simp: admit_peer_def split: if_splits prod.splits sum.splits)
qed

lemma authed_connection:
  assumes "needs_token opts" and "authed r0 i0 g = None"
    and "authed r0 i0 (fst (handle_connection cr wire opts ready now addr origin r i token role g)) = Some role0"
  shows "r0 = r \<and> i0 = i \<and> fst (authorize_peer cr opts now r token (requested_role role) (rg_nonces g)) = Inr role0"
proof -
  have new: "js_get (rg_rooms (set_room r [] g)) r = Some []" "authed r0 i0 (set_room r [] g) = None"
    using assms(2) by (simp_all add: set_room_def js_get_put) (simp add: authed_def js_get_put)
  show ?thesis
    using assms authed_admit [OF _ assms(1,2), of r] authed_admit [OF new(1) assms(1) new(2)]
    by (auto simp: handle_connection_def Let_def split: if_splits option.splits)
qed

text \<open>The role a peer asks for in an authentication message, and when it says nothing the one it connected with.\<close>

definition asked_in_message :: "peer \<Rightarrow> js_value \<Rightarrow> network_role" where
  "asked_in_message e d =
     (let asked = js_prop d ''role'' in if asked = JUndefined \<or> asked = JNull then pe_requested e else requested_role asked)"

lemma authed_authenticate:
  assumes "js_get (rg_rooms g) r = Some m" and "js_get m i = Some e" and "\<not> pe_auth e" and "authed r0 i0 g = None"
    and "authed r0 i0 (fst (authenticate cr wire opts ready now r i e m d g)) = Some role"
  shows "r0 = r \<and> i0 = i \<and> (\<exists>t. js_prop d ''token'' = JStr t \<and>
    fst (authorize_peer cr opts now r (Some t) (asked_in_message e d) (rg_nonces g)) = Inr role)"
proof -
  have set: "authed r0 i0 (set_peer r i e' m g') = (if r0 = r then if i0 = i then role_if e' else authed r i0 g else authed r0 i0 g')" for e' g'
    by (rule authed_set_peer [OF assms(1)])
  show ?thesis
    using assms(3-5)
    by (auto simp: authenticate_def asked_in_message_def Let_def set role_if_def split: js_value.splits prod.splits sum.splits if_splits)
qed

lemma authed_message:
  assumes "authed r0 i0 g = None"
    and "authed r0 i0 (fst (on_message cr wire opts ready now bytes parsed r i g)) = Some role"
  shows "r0 = r \<and> i0 = i \<and> (\<exists>m e message t. find_peer r i g = Some (m, e) \<and> parsed = Some message \<and>
    js_prop (js_prop message ''data'') ''token'' = JStr t \<and>
    fst (authorize_peer cr opts now r (Some t) (asked_in_message e (js_prop message ''data'')) (rg_nonces g)) = Inr role)"
proof (cases "find_peer r i g")
  case (Some x)
  then obtain m e0 where f: "js_get (rg_rooms g) r = Some m" "js_get m i = Some e0" "find_peer r i g = Some (m, e0)"
    by (cases x) (auto dest: find_peerD)
  define e where "e = e0\<lparr>pe_stamps := filter (\<lambda>t. now - t < 1000) (pe_stamps e0) @ [now]\<rparr>"
  define g' where "g' = set_room r (js_put i e m) g"
  have got: "js_get (rg_rooms g') r = Some (js_put i e m)" "js_get (js_put i e m) i = Some e"
    by (simp_all add: g'_def set_room_def js_get_put)
  have kept: "role_if (e0\<lparr>pe_stamps := ts\<rparr>) = role_if e0" for ts by (simp add: role_if_def)
  have same: "authed r0 i0 (set_peer r i (e0\<lparr>pe_stamps := ts\<rparr>) m g) = authed r0 i0 g" for ts
    using authed_room [OF f(1), of i0] f(2) by (simp add: authed_set_peer [OF f(1)] kept)
  then have none: "authed r0 i0 g' = None" using assms(1) by (simp add: g'_def e_def set_peer_def)
  have "authed r0 i0 (fst (relay_message wire opts ready now r i e message g')) = None" for message
    using none by (simp add: authed_cong [OF relay_parts(1)])
  with assms same none obtain message where message: "parsed = Some message" "\<not> pe_auth e"
    "authed r0 i0 (fst (authenticate cr wire opts ready now r i e (js_put i e m) (js_prop message ''data'') g')) = Some role"
    by (auto simp: on_message_def f(3) Let_def simp flip: e_def g'_def split: if_splits option.splits)
  have "rg_nonces g' = rg_nonces g" by (simp add: g'_def)
  moreover have "asked_in_message e d = asked_in_message e0 d" for d by (simp add: e_def asked_in_message_def Let_def)
  ultimately show ?thesis using authed_authenticate [OF got message(2) none message(3)] message(1) f(3) by auto
qed (use assms in \<open>simp add: on_message_def\<close>)

text \<open>The token an event carries, the peer it comes from and the role it asks for.\<close>

fun event_token :: "registry_event \<Rightarrow> string option" where
  "event_token (Connect ready now addr origin r i token role) = token"
| "event_token (Message ready now bytes parsed r i) = (case parsed of None \<Rightarrow> None
     | Some m \<Rightarrow> (case js_prop (js_prop m ''data'') ''token'' of JStr t \<Rightarrow> Some t | _ \<Rightarrow> None))"
| "event_token _ = None"

fun event_peer :: "registry_event \<Rightarrow> (string \<times> string) option" where
  "event_peer (Connect ready now addr origin r i token role) = Some (r, i)"
| "event_peer (Message ready now bytes parsed r i) = Some (r, i)"
| "event_peer (Timeout now r i) = Some (r, i)"
| "event_peer (Disconnect ready now r i) = Some (r, i)"
| "event_peer (Cleanup now) = None"

fun event_role :: "registry \<Rightarrow> registry_event \<Rightarrow> network_role option" where
  "event_role g (Connect ready now addr origin r i token role) = Some (requested_role role)"
| "event_role g (Message ready now bytes parsed r i) = (case (find_peer r i g, parsed) of
     (Some (m, e), Some message) \<Rightarrow> Some (asked_in_message e (js_prop message ''data'')) | _ \<Rightarrow> None)"
| "event_role g _ = None"

lemma newly_authed:
  assumes "needs_token opts" and "authed r i g = None" and "authed r i (registry_run_step cr wire opts g ev) = Some role"
  shows "event_peer ev = Some (r, i) \<and>
    (\<exists>q. event_role g ev = Some q \<and> fst (authorize_peer cr opts (event_time ev) r (event_token ev) q (rg_nonces g)) = Inr role)"
proof (cases ev)
  case (Connect ready now addr origin r' i' token role')
  then have "authed r i (fst (handle_connection cr wire opts ready now addr origin r' i' token role' g)) = Some role"
    using assms(3) by (simp add: registry_run_step_def)
  from authed_connection [OF assms(1,2) this] Connect show ?thesis by auto
next
  case (Message ready now bytes parsed r' i')
  then have "authed r i (fst (on_message cr wire opts ready now bytes parsed r' i' g)) = Some role"
    using assms(3) by (simp add: registry_run_step_def)
  from authed_message [OF assms(2) this] Message show ?thesis by auto
next
  case (Disconnect ready now r' i')
  then have "authed r i (fst (on_close wire opts ready now r' i' g)) = Some role"
    using assms(3) by (simp add: registry_run_step_def)
  from authed_close [OF this] assms(2) show ?thesis by simp
next
  case (Cleanup now)
  then have "authed r i (cleanup_idle opts now g) = Some role" using assms(3) by (simp add: registry_run_step_def)
  from authed_cleanup [OF this] assms(2) show ?thesis by simp
qed (use assms in \<open>simp add: registry_run_step_def authed_timeout\<close>)

section \<open>Properties\<close>

text \<open>
  C10: the gateway never holds more than it is configured to. Whatever connects, authenticates, times
  out, sends or leaves, in any order and at any times, the number of rooms, the members of each room,
  its unauthenticated members, all peers and the connections of each address stay within their limits;
  the counters of pending peers and of connections per address are exact; and every peer's capabilities
  are those of its role.
\<close>

theorem gateway_stays_bounded:
  "let g = run (registry_run_step cr wire opts) new_registry evs in
     rg_pending g = int (count_peers (\<lambda>p. \<not> pe_auth p) g) \<and> int (room_count g) \<le> max 0 (op_rooms opts) \<and>
     int (count_peers (\<lambda>_. True) g) \<le> max 0 (op_total opts) \<and>
     ip_count ip g = int (count_peers (\<lambda>p. pe_ip p = ip) g) \<and> ip_count ip g \<le> max 0 (op_per_ip opts) \<and>
     list_all (room_ok opts) (map snd (rg_rooms g))"
proof -
  have ok: "registry_ok opts (run (registry_run_step cr wire opts) new_registry evs)"
    by (rule gateway.run_inv [OF new_registry_ok])
  then have "list_all (room_ok opts) (map snd (rg_rooms (run (registry_run_step cr wire opts) new_registry evs)))"
    by (auto simp: registry_ok_def list_all_iff)
  then show ?thesis unfolding Let_def using registry_okD(3-7) [OF ok] by blast
qed

text \<open>
  C9: only authenticated peers are heard and told. After any events, every frame the next event sends
  goes to an authenticated peer of the room, and it is either a join or leave note of the gateway itself
  or the payload of an authenticated peer of that room whose role has the capability the payload needs:
  an observer never broadcasts state or dataset operations, and no peer forges a join or a leave.
\<close>

theorem only_authenticated_peers_talk:
  "let g = run (registry_run_step cr wire opts) new_registry evs; (g', signals) = registry_step cr wire opts g ev
   in list_all (delivery_ok g') signals"
proof -
  have "registry_ok opts (run (registry_run_step cr wire opts) new_registry evs)"
    by (rule gateway.run_inv [OF new_registry_ok])
  then show ?thesis
    by (cases ev) (simp_all add: Let_def case_prod_unfold connection_delivers message_delivers timeout_delivers close_delivers)
qed

text \<open>
  C8: a signed ticket admits once. Once a ticket was accepted, no peer of any room is authorised with it
  again, whatever happened in between, as long as the clock does not run backwards: its nonce is
  remembered until the ticket has expired.
\<close>

theorem ticket_admits_once:
  assumes "op_validator opts = None" and "op_secret opts \<noteq> []" and "CHR ''.'' \<in> set t"
    and "authorize_peer cr opts now r (Some t) q (rg_nonces g0) = (Inr role, used)" and "rg_nonces g = used"
    and "sorted (map event_time evs @ [later])"
  shows "isl (fst (authorize_peer cr opts later r' (Some t) q' (rg_nonces (run (registry_run_step cr wire opts) g evs))))"
proof -
  have a: "authorize_peer cr opts n s (Some t) p u = authorize_ticket cr opts n s t u" for n s p u
    using assms(1-3) by (simp add: authorize_peer_def)
  from ticket_authorized [of cr opts now r t "rg_nonces g0" role] assms(4)
  obtain c where c: "verify_ticket cr t (op_secret opts) r now = Inr c" "js_get used (tc_nonce c) = Some (tc_exp c)"
    by (auto simp: a)
  from run_nonces [of g "tc_nonce c" "tc_exp c" evs later cr wire opts] c(2) assms(5,6)
  have "js_get (rg_nonces (run (registry_run_step cr wire opts) g evs)) (tc_nonce c) = Some (tc_exp c) \<or> of_int later > tc_exp c" by simp
  then show ?thesis unfolding a by (rule replay_refused [OF c(1)])
qed

text \<open>
  C7: nobody is authenticated without a credential. When a token is needed and no external validator is
  configured, a peer becomes authenticated only by its own connection or message, carrying the shared
  secret (for the role this event asks for), the secret scoped to the role it gets, the observer secret (then
  only as an observer), or, when a shared secret is set, a ticket signed with it for this room and that
  role whose nonce is unused.
\<close>

theorem authentication_needs_credential:
  assumes "op_validator opts = None" and "needs_token opts"
    and "authed r i g = None" and "authed r i (registry_run_step cr wire opts g ev) = Some role"
  shows "event_peer ev = Some (r, i) \<and>
    (\<exists>t asked. event_token ev = Some t \<and> event_role g ev = Some asked \<and>
      credential cr opts (event_time ev) r (rg_nonces g) asked t role)"
  using newly_authed [OF assms(2-4)] authorized_by [OF assms(1,2)] by blast

text \<open>
  C40: a refused connection keeps its room. When a connection to a new room is closed for its token, the
  room that was created for it stays, empty and without a last activity, and counts against the limit of
  rooms until the next cleanup.
\<close>

theorem refused_connection_keeps_room:
  assumes "js_get (rg_rooms g) r = None"
    and "snd (handle_connection cr wire opts ready now addr origin r i token role g) = [Closed 4001 reason]"
  shows "js_get (rg_rooms (fst (handle_connection cr wire opts ready now addr origin r i token role g))) r = Some [] \<and>
    room_count (fst (handle_connection cr wire opts ready now addr origin r i token role g)) = Suc (room_count g)"
proof -
  have kept: "rg_rooms (record_failure now ip g') = rg_rooms g'" for ip g' by simp
  have joined: "announce wire opts ready r i role' [(i, e)] = []" for role' e by (simp add: announce_def)
  have "length (js_put r [] (rg_rooms g)) = Suc (length (rg_rooms g))"
    using assms(1) by (simp add: length_put map_of_eq_None_iff)
  then show ?thesis using assms
    by (auto simp: handle_connection_def Let_def admit_peer_def room_count_def register_peer_def joined
        set_room_def js_get_put split: if_splits prod.splits sum.splits)
qed

text \<open>A validator's foreign role is replaced by the requested one; a secret with a dot is only read as a ticket.\<close>

lemma foreign_validator_role:
  assumes "op_validator opts = Some f" and "t \<noteq> []" and "tv_valid (f t r)" and "role_of_value (tv_role (f t r)) = None"
  shows "authorize_peer cr opts now r (Some t) asked used = (Inr asked, used)"
  using assms by (cases t) (simp_all add: authorize_peer_def Let_def)

lemma dotted_secret:
  assumes "op_validator opts = None" and "CHR ''.'' \<in> set (op_secret opts)" and "length (js_split (CHR ''.'') (op_secret opts)) \<noteq> 2"
  shows "isl (fst (authorize_peer cr opts now r (Some (op_secret opts)) asked used))"
proof -
  have "isl (verify_ticket cr (op_secret opts) (op_secret opts) r now)"
    using assms(3) by (auto simp: verify_ticket_def split: list.splits)
  moreover have "op_secret opts \<noteq> []" using assms(2) by auto
  ultimately show ?thesis using assms(1,2) by (auto simp: authorize_peer_def authorize_ticket_def isl_def split: sum.splits)
qed

section \<open>Example\<close>

definition sample_options :: registry_options where
  "sample_options = default_options\<lparr>op_secret := ''k''\<rparr>"

definition sample_ticket :: string where
  "sample_ticket = ''claims.'' @ replicate 64 (CHR ''a'')"

abbreviation flat_wire :: wire where
  "flat_wire \<equiv> \<lambda>r i d. 10"

definition bad_connection :: "registry \<times> signal list" where
  "bad_connection = handle_connection toy_crypto flat_wire sample_options (\<lambda>_. True) 1 None None ''r1'' ''p1'' (Some ''no'') JUndefined new_registry"

definition good_event :: registry_event where
  "good_event = Connect (\<lambda>_. True) 1 None None ''r1'' ''p1'' (Some sample_ticket) JUndefined"

theorem ticket_admits_once_witness:
  "\<exists>used. authorize_peer toy_crypto sample_options 1 ''r1'' (Some sample_ticket) ParticipantRole [] = (Inr ObserverRole, used) \<and>
     isl (fst (authorize_peer toy_crypto sample_options 200 ''r1'' (Some sample_ticket) ParticipantRole
       (rg_nonces (run (registry_run_step toy_crypto flat_wire sample_options) (new_registry\<lparr>rg_nonces := used\<rparr>) [Cleanup 150]))))"
proof -
  have "CHR ''.'' \<in> set sample_ticket" by (simp add: sample_ticket_def)
  moreover have "fst (authorize_peer toy_crypto sample_options 1 ''r1'' (Some sample_ticket) ParticipantRole []) = Inr ObserverRole"
    by code_simp
  then obtain used where "authorize_peer toy_crypto sample_options 1 ''r1'' (Some sample_ticket) ParticipantRole [] = (Inr ObserverRole, used)"
    by (metis fst_conv surj_pair)
  moreover have "rg_nonces new_registry = []" by (simp add: new_registry_def)
  ultimately show ?thesis
    using ticket_admits_once [of sample_options sample_ticket toy_crypto 1 "''r1''" ParticipantRole new_registry ObserverRole used
        "new_registry\<lparr>rg_nonces := used\<rparr>" "[Cleanup 150]" 200 "''r1''" ParticipantRole flat_wire]
    by (auto simp: sample_options_def default_options_def)
qed

theorem authentication_needs_credential_witness:
  "authed ''r1'' ''p1'' (registry_run_step toy_crypto flat_wire sample_options new_registry good_event) = Some ObserverRole \<and>
   (\<exists>t asked. event_token good_event = Some t \<and> event_role new_registry good_event = Some asked \<and>
      credential toy_crypto sample_options (event_time good_event) ''r1'' (rg_nonces new_registry) asked t ObserverRole)"
proof -
  have "authed ''r1'' ''p1'' (registry_run_step toy_crypto flat_wire sample_options new_registry good_event) = Some ObserverRole"
    by code_simp
  moreover have "authed ''r1'' ''p1'' new_registry = None" by code_simp
  moreover have "op_validator sample_options = None" "needs_token sample_options"
    by (simp_all add: sample_options_def default_options_def needs_token_def)
  ultimately show ?thesis using authentication_needs_credential by blast
qed

theorem refused_connection_keeps_room_witness:
  "room_count (fst bad_connection) = 1"
proof -
  have "snd bad_connection = [Closed 4001 ''invalid token'']" by code_simp
  moreover have "js_get (rg_rooms new_registry) ''r1'' = None" "room_count new_registry = 0" by code_simp+
  ultimately show ?thesis using refused_connection_keeps_room unfolding bad_connection_def by (metis One_nat_def)
qed

end
