(* ===== verification/Spec2Isabelle.thy ===== *)
theory Spec2Isabelle
  imports Discovery_Reasoning Semantic_Governor Vr_Input Resource_Lifecycle Evidence_Ledger Signalling_Core
begin

text \<open>
  Nemosyne is a browser program for investigating a dataset inside virtual reality. A dataset is loaded
  and transformed by analytical operations; every transformation is recorded as evidence that can be
  undone, replayed and exported; an investigator notices, asks, hypothesises and validates in episodes
  that form a typed graph; a representation engine (Moneta) decides how a result may be shown, refuses
  what would mislead, and says what would have to change; governors bound what the headset keeps in
  memory, and a gateway lets investigators meet in rooms. This development models the logic of these parts, under \<open>src/src\<close> of the repository, and
  proves what makes each of them correct.

  \<^bold>\<open>Theories, and the code each models.\<close>

  \<^item> \<open>Js_Prelude\<close>, \<open>Effects\<close>, \<open>Js_Value\<close>, \<open>Js_Number\<close>, \<open>Identity_Key\<close>, \<open>Keyed_Store\<close>: the language.
    Insertion-ordered maps, results that may be thrown errors, methods that keep what they wrote when
    they throw, untyped values, IEEE doubles with their rounding (the locale \<open>rounding\<close>, interpreted on
    the model's own \<open>rnd64\<close>), composite keys, and the contract of a durable store (the locales
    \<open>keyed_store\<close> and \<open>replaceable_store\<close>). \<open>invariant_system\<close> is the contract of a machine whose calls
    keep an invariant; the stateful components below interpret it on their own calls.
  \<^item> \<open>Dataset_Model\<close>: \<open>data/Dataset.ts\<close>. Rows are kept free of dangerous keys, row ids aligned,
    and a restore changes nothing but an empty name and the case of the column types.
  \<^item> \<open>Analysis_History\<close>: \<open>data/AnalysisHistory.ts\<close>, the bounded stack with a cursor, and the
    specification it refines, a zipper of done and undone operations; when exactly undo throws, and
    what state a throw leaves.
  \<^item> \<open>Dataset_Versions\<close>: \<open>data/DatasetVersionStore.ts\<close>, snapshots and row views over shared rows.
  \<^item> \<open>Evidence_Ledger\<close>: \<open>atlas/domain/EvidenceLedger.ts\<close> with the commit and the navigation of
    \<open>atlas/AtlasCore.ts\<close>: the event stream, the results in the version store, the history that is
    replayed from the stream and cached, restore; and the timeline an event stream denotes.
  \<^item> \<open>Investigation_Graph\<close>: \<open>atlas/domain/InvestigationGraph.ts\<close>, the acyclic graph of an investigation.
  \<^item> \<open>Discovery_Episode\<close>, \<open>Discovery_Reasoning\<close>: \<open>investigation/DiscoveryEpisode.ts\<close>,
    \<open>DiscoveryEpisodeStore.ts\<close> and \<open>app/investigation/DiscoveryReasoningService.ts\<close>: the record of an
    episode, its validator and store, and the service that writes episodes and graph together; episodes
    only move forward, and every verdict rests on exactly one recorded test.
  \<^item> \<open>Committed_Context\<close>: \<open>atlas/domain/InvestigationIntent.ts\<close>, \<open>InvestigationPerspective.ts\<close> and
    \<open>CommittedInvestigationContext.ts\<close>: canonical forms, revisions and bindings.
  \<^item> \<open>Moneta_Ontology\<close>, \<open>Moneta_Requirements\<close>, \<open>Moneta_Fitness\<close>, \<open>Moneta_Constraints\<close>, \<open>Moneta_Policy\<close>,
    \<open>Moneta_Engine\<close>, \<open>Moneta_Engine_Props\<close>, \<open>Moneta_Nil\<close>: \<open>moneta/representation\<close>: families and
    candidates, requirements and their validators, the scores and their sensitivity, the hard
    constraints, the policy, arbitration with the binding of evidence and the admission of stability
    claims, and the actionable outcome when nothing is feasible, with its durable store.
  \<^item> \<open>Resource_Lifecycle\<close>, \<open>Semantic_Governor\<close>: \<open>vr/scalability\<close>: which resources are active, cooling
    or cold, and which semantic levels are resident or queued.
  \<^item> \<open>Signed_Ticket\<close>, \<open>Signalling_Core\<close>: \<open>network/SignedTicket.ts\<close> and \<open>SignallingServerCore.ts\<close>: signed,
    one-use room tickets, and the gateway that admits, authenticates and limits peers and relays
    between them, as handlers of socket events in any order.
  \<^item> \<open>Vr_Input\<close>: \<open>vr/input\<close>: the interaction modes, the both-pinch resolution and the pointer.

  In each theory the state of a class is a record of its fields, a Map is an association list in
  insertion order, a throw is \<open>Inl\<close>, and a method is a function from state to result and state, so that
  what a throwing method wrote before the throw stays visible. A group of definitions follows the order
  of its source file. Then come the invariant with one lemma per operation, the abstract specification
  where there is one, and the properties, each with its id; a concrete example instantiates every
  property that has hypotheses.

  \<^bold>\<open>How the parts meet.\<close> The discovery service is verified over the real graph and the real episode
  store. The evidence ledger is verified over the real history, the real version store and the real
  dataset: its cached view, the replay of its events and the zipper agree after any calls. Moneta's
  outcomes rest on the requirements, the scores, the constraints and the policy as they are composed in
  \<open>arbitrate\<close> and \<open>diagnose\<close>.

  \<^bold>\<open>Loops and bounds.\<close> Loops are structural recursion or folds, or functions with a termination proof
  (the depth-first search of the graph, by the number of unvisited nodes); there is no fuel. The
  bounds are the program's: 50 history frames, the residency limits of the two governors, the mode
  history, the fourteen perturbations of the sensitivity analysis.

  \<^bold>\<open>Parameters and assumptions.\<close> Outside code is an argument of the definitions that use it: the clock,
  id factories, digests of canonical forms, the schema library's verdict, adapters and their promises
  (every interleaving of completions is a sequence of calls), materialisers, the resolver of dataset
  versions, the HMAC and encoding of tickets, the parse and length of frames, and whether a stability
  claim was minted by its verifier. Values are finite trees, without
  sharing, cycles or prototypes; numbers are rationals with one zero, NaN and the infinities; strings are lists of 8-bit characters; versions and counters are
  unbounded integers; dates are integers. \<open>localeCompare\<close> is the order of the identifiers it is used on;
  \<open>toFixed\<close> and \<open>toLocaleString\<close> are modelled on the values the program prints.

  \<^bold>\<open>Not modelled.\<close> Rendering, scenes, panels and input devices (three.js and WebXR are not under src/
  as code the model could read, and their state is the GPU's and the browser's); the WebAssembly and Rust
  kernels, workers and their bridges; the rest of \<open>AtlasCore\<close> and \<open>InvestigationAggregate\<close>, which
  sequence kernel calls, promises and exports; the peer side of collaboration (WebRTC, avatars); the governance service with its database; gesture learning and learned models, whose weights
  are data; session replay and validation studies; development tools.
\<close>

end
